(* ===== verification/Prelude.thy ===== *)
theory Prelude
  imports Main "HOL-Library.Word"
begin

unbundle bit_operations_syntax

text \<open>
  Shared vocabulary of the development: the machine integer types of the C sources, little-endian
  byte images of words, byte-addressed memory, C strings, and the generic lemmas on words, memory
  and lists that the component theories use.  The collections \<open>bitfield\<close> (facts that
  evaluate bit fields of instruction words) and \<open>memory\<close> (facts that resolve loads over
  stores) carry most of the component proofs.
\<close>

named_theorems bitfield
named_theorems memory

section \<open>Machine integers\<close>

type_synonym u8 = "8 word"
type_synonym u16 = "16 word"
type_synonym u32 = "32 word"
type_synonym u64 = "64 word"
type_synonym u128 = "128 word"

text \<open>Bits above the width of a small value are clear.\<close>

lemma small_word_no_bit:
  assumes "(r :: 'a::len word) < 2 ^ k" and "k \<le> n"
  shows "\<not> bit r n"
proof
  assume "bit r n"
  moreover have "r AND mask k = r" using assms(1) by (rule less_mask_eq)
  ultimately have "bit (r AND mask k) n" by simp
  then show False using \<open>k \<le> n\<close> by (simp add: bit_and_iff bit_mask_iff)
qed

lemma reg_no_bit [bitfield]: "(r :: u32) < 32 \<Longrightarrow> 5 \<le> n \<Longrightarrow> \<not> bit r n"
  using small_word_no_bit [of r 5 n] by simp

lemma size_no_bit [bitfield]: "(r :: u32) < 4 \<Longrightarrow> 2 \<le> n \<Longrightarrow> \<not> bit r n"
  using small_word_no_bit [of r 2 n] by simp

lemma nibble_no_bit [bitfield]: "(r :: u32) < 16 \<Longrightarrow> 4 \<le> n \<Longrightarrow> \<not> bit r n"
  using small_word_no_bit [of r 4 n] by simp

text \<open>Equality of 32-bit words bit by bit, with the 32 positions written out.\<close>

lemma all_less_32:
  "(\<forall>n<32. P (n::nat)) \<longleftrightarrow>
     P 0 \<and> P 1 \<and> P 2 \<and> P 3 \<and> P 4 \<and> P 5 \<and> P 6 \<and> P 7 \<and> P 8 \<and> P 9 \<and> P 10 \<and> P 11 \<and>
     P 12 \<and> P 13 \<and> P 14 \<and> P 15 \<and> P 16 \<and> P 17 \<and> P 18 \<and> P 19 \<and> P 20 \<and> P 21 \<and> P 22 \<and>
     P 23 \<and> P 24 \<and> P 25 \<and> P 26 \<and> P 27 \<and> P 28 \<and> P 29 \<and> P 30 \<and> P 31"
  by (simp add: numeral_eq_Suc All_less_Suc conj_ac)

lemma u32_eqI: "(\<forall>n<32. bit (a :: u32) n = bit b n) \<Longrightarrow> a = b"
  by (rule bit_word_eqI) simp

lemmas u32_bitsI = u32_eqI [unfolded all_less_32]

lemma u32_and_31_less [simp]: "(w :: u32) AND 31 < 32"
  using and_mask_less' [of 5 w] by (simp add: mask_numeral)

lemma u32_and_3_less [simp]: "(w :: u32) AND 3 < 4"
  using and_mask_less' [of 2 w] by (simp add: mask_numeral)

text \<open>
  Two words that agree on the positions of one mask cannot satisfy a test on another mask whose
  value differs there: the way one instruction pattern excludes another.
\<close>

lemma mask_clash:
  fixes w :: "'a::len word"
  assumes "w AND m = c" and "c AND m' \<noteq> v AND m"
  shows "w AND m' \<noteq> v"
  using assms by (auto simp: ac_simps)

section \<open>Byte memory\<close>

text \<open>
  Memory maps 64-bit addresses to bytes; addresses wrap.  \<open>mem_write m a bs\<close> stores the
  byte list \<open>bs\<close> at \<open>a\<close>, \<open>mem_read n m a\<close> reads \<open>n\<close> bytes.
\<close>

type_synonym memory = "u64 \<Rightarrow> u8"

definition mem_write :: "memory \<Rightarrow> u64 \<Rightarrow> u8 list \<Rightarrow> memory" where
  "mem_write m a bs = (\<lambda>x. let k = unat (x - a) in if k < length bs then bs ! k else m x)"

definition mem_read :: "nat \<Rightarrow> memory \<Rightarrow> u64 \<Rightarrow> u8 list" where
  "mem_read n m a = map (\<lambda>i. m (a + of_nat i)) [0..<n]"

text \<open>The address \<open>x\<close> lies in the \<open>n\<close> bytes starting at \<open>a\<close>.\<close>

definition in_range :: "u64 \<Rightarrow> nat \<Rightarrow> u64 \<Rightarrow> bool" where
  "in_range a n x \<longleftrightarrow> unat (x - a) < n"

text \<open>No address lies in both of two ranges.\<close>

definition apart :: "u64 \<Rightarrow> nat \<Rightarrow> u64 \<Rightarrow> nat \<Rightarrow> bool" where
  "apart a n b k \<longleftrightarrow> n \<le> unat (b - a) \<and> k \<le> unat (a - b)"

lemma mem_read_length [simp]: "length (mem_read n m a) = n"
  by (simp add: mem_read_def)

lemma mem_write_outside: "\<not> in_range a (length bs) x \<Longrightarrow> mem_write m a bs x = m x"
  by (simp add: mem_write_def in_range_def Let_def)

lemma mem_read_cong:
  "(\<And>i. i < n \<Longrightarrow> m (a + of_nat i) = m' (a + of_nat i)) \<Longrightarrow> mem_read n m a = mem_read n m' a"
  by (simp add: mem_read_def)

lemma unat_offset [simp]:
  assumes "i < 2 ^ 64" shows "unat ((a :: u64) + of_nat i - a) = i"
  using assms by (simp add: unat_of_nat)

lemma mem_read_write_same [memory]:
  assumes "length bs = n" and "n < 2 ^ 64"
  shows "mem_read n (mem_write m a bs) a = bs"
  using assms by (intro nth_equalityI) (simp_all add: mem_read_def mem_write_def unat_of_nat)

text \<open>A load does not see a store to a range apart from it.\<close>

lemma apart_not_in_range:
  assumes "apart a n b k" and "in_range a n x"
  shows "\<not> in_range b k x"
proof -
  let ?p = "unat (a - b)" and ?q = "unat (b - a)" and ?i = "unat (x - a)"
  have i: "?i < n" and nq: "n \<le> ?q" and kp: "k \<le> ?p"
    using assms by (simp_all add: apart_def in_range_def)
  have "?q \<noteq> 0" using i nq by linarith
  then have "a \<noteq> b" by (metis diff_self unat_0)
  then have "unat a \<noteq> unat b" by (simp add: word_unat_eq_iff)
  moreover have "unat a < 2 ^ LENGTH(64)" and "unat b < 2 ^ LENGTH(64)" by (rule unsigned_less)+
  ultimately have "?p + ?q = 2 ^ 64"
    by (simp add: unat_sub_if_size word_size)
  then have "?p + ?i < 2 ^ LENGTH(64)" using i nq by simp
  then have "unat ((a - b) + (x - a)) = ?p + ?i" by (rule unat_add_lem [THEN iffD1])
  then have "unat (x - b) = ?p + ?i" by simp
  then show ?thesis using kp by (simp add: in_range_def)
qed

lemma apart_sym: "apart a n b k \<Longrightarrow> apart b k a n"
  by (simp add: apart_def)

lemma mem_read_write_apart [memory]:
  assumes "apart a n b (length bs)" and "n < 2 ^ 64"
  shows "mem_read n (mem_write m b bs) a = mem_read n m a"
proof (rule mem_read_cong)
  fix i assume "i < n"
  then have "in_range a n (a + of_nat i)" using assms(2) by (simp add: in_range_def unat_of_nat)
  then show "mem_write m b bs (a + of_nat i) = m (a + of_nat i)"
    using apart_not_in_range [OF assms(1)] by (simp add: mem_write_outside)
qed

lemma apart_slots [memory]:
  "apart (t - numeral a) n (t - numeral b) k \<longleftrightarrow>
     n \<le> unat (numeral a - numeral b :: u64) \<and> k \<le> unat (numeral b - numeral a :: u64)"
proof -
  have "(t - numeral b) - (t - numeral a) = (numeral a - numeral b :: u64)"
    and "(t - numeral a) - (t - numeral b) = (numeral b - numeral a :: u64)" by simp_all
  then show ?thesis by (simp add: apart_def)
qed

lemma unat_minus_neg:
  assumes "(w :: u64) \<noteq> 0" shows "unat (- w) = 2 ^ 64 - unat w"
  using assms unat_sub_if_size [of 0 w] by (simp add: word_size unat_0_iff)

lemma apart_subrange:
  assumes "apart a n b k" and "j + l \<le> k" and "0 < l"
  shows "apart a n (b + of_nat j) l"
proof -
  define w where "w = a - b"
  have k: "k \<le> unat w" and n: "n \<le> unat (- w)" using assms(1) by (simp_all add: apart_def w_def)
  have j: "j < unat w" using k assms(2,3) by simp
  also have "unat w < 2 ^ LENGTH(64)" by (rule unsigned_less)
  finally have uj: "unat (of_nat j :: u64) = j" by (simp add: unat_of_nat)
  have wj: "unat (w - of_nat j) = unat w - j"
    using j uj by (simp add: unat_sub word_le_nat_alt)
  have "w \<noteq> 0" and "w - of_nat j \<noteq> 0" using j wj by force+
  note this [THEN unat_minus_neg]
  then have "n \<le> unat (- (w - of_nat j))" and "l \<le> unat (w - of_nat j)"
    using n k assms(2) wj by linarith+
  then show ?thesis by (simp add: apart_def w_def algebra_simps)
qed

section \<open>Memory apart from a stack area\<close>

definition agree_outside :: "u64 \<Rightarrow> nat \<Rightarrow> memory \<Rightarrow> memory \<Rightarrow> bool" where
  "agree_outside a n m m' \<longleftrightarrow> (\<forall>x. \<not> in_range a n x \<longrightarrow> m x = m' x)"

text \<open>A memory transformer that neither writes nor reads the area.\<close>

definition foreign :: "u64 \<Rightarrow> nat \<Rightarrow> (memory \<Rightarrow> memory) \<Rightarrow> bool" where
  "foreign a n f \<longleftrightarrow>
     (\<forall>m x. in_range a n x \<longrightarrow> f m x = m x) \<and>
     (\<forall>m m'. agree_outside a n m m' \<longrightarrow> agree_outside a n (f m) (f m'))"

lemma agree_outside_refl [simp]: "agree_outside a n m m"
  by (simp add: agree_outside_def)

lemma agree_outside_sym: "agree_outside a n m m' \<Longrightarrow> agree_outside a n m' m"
  by (simp add: agree_outside_def)

lemma agree_outside_trans:
  "agree_outside a n m m' \<Longrightarrow> agree_outside a n m' m'' \<Longrightarrow> agree_outside a n m m''"
  by (simp add: agree_outside_def)

lemma foreign_agree: "foreign a n f \<Longrightarrow> agree_outside a n m m' \<Longrightarrow> agree_outside a n (f m) (f m')"
  by (simp add: foreign_def)

lemma mem_read_agree:
  assumes "agree_outside b k m m'" and "apart a n b k" and "n < 2 ^ 64"
  shows "mem_read n m a = mem_read n m' a"
proof (rule mem_read_cong)
  fix i assume "i < n"
  then have "in_range a n (a + of_nat i)" using assms(3) by (simp add: in_range_def unat_of_nat)
  then show "m (a + of_nat i) = m' (a + of_nat i)"
    using apart_not_in_range [OF assms(2)] assms(1) by (simp add: agree_outside_def)
qed

lemma mem_read_foreign:
  assumes "foreign b k f" and "\<And>i. i < n \<Longrightarrow> in_range b k (a + of_nat i)"
  shows "mem_read n (f m) a = mem_read n m a"
  using assms by (intro mem_read_cong) (simp add: foreign_def)

lemma mem_write_agree:
  "agree_outside b k m m' \<Longrightarrow> agree_outside b k (mem_write m a bs) (mem_write m' a bs)"
  by (simp add: agree_outside_def mem_write_def Let_def)

lemma mem_write_inside:
  assumes "\<And>i. i < length bs \<Longrightarrow> in_range b k (a + of_nat i)"
  shows "agree_outside b k (mem_write m a bs) m"
  unfolding agree_outside_def
proof (intro allI impI)
  fix x assume x: "\<not> in_range b k x"
  have "\<not> unat (x - a) < length bs"
  proof
    assume "unat (x - a) < length bs"
    then have "in_range b k (a + of_nat (unat (x - a)))" by (rule assms)
    then show False using x by simp
  qed
  then show "mem_write m a bs x = m x" by (simp add: mem_write_def)
qed

section \<open>Blocks of memory\<close>

text \<open>Adjacent writes join, and a read inside a written block sees its bytes.\<close>

lemma mem_write_append:
  assumes "k = of_nat (length bs)" and "length bs + length cs < 2 ^ 64"
  shows "mem_write (mem_write m a bs) (a + k) cs = mem_write m a (bs @ cs)"
proof
  fix x
  let ?n = "length bs" and ?d = "unat (x - a)"
  have un: "unat (of_nat ?n :: u64) = ?n" using assms(2) by (simp add: unat_of_nat)
  show "mem_write (mem_write m a bs) (a + k) cs x = mem_write m a (bs @ cs) x"
  proof (cases "?n \<le> ?d")
    case True
    then have "unat ((x - a) - of_nat ?n) = ?d - ?n" using un by (simp add: unat_sub word_le_nat_alt)
    then have "unat (x - (a + k)) = ?d - ?n" using assms(1) by (simp add: diff_diff_eq)
    then show ?thesis using True by (auto simp: mem_write_def Let_def nth_append)
  next
    case False
    then have "(x - a) - of_nat ?n \<noteq> 0" using un by (metis eq_iff_diff_eq_0 linorder_le_less_linear order_refl)
    have "unat ((x - a) - of_nat ?n) = 2 ^ 64 + ?d - ?n"
      using False un unat_sub_if_size [of "x - a" "of_nat ?n"] by (simp add: word_size)
    then have "unat (x - (a + k)) = 2 ^ 64 + ?d - ?n" using assms(1) by (simp add: diff_diff_eq)
    then have "\<not> unat (x - (a + k)) < length cs" using assms(2) by linarith
    then show ?thesis using False by (simp add: mem_write_def Let_def nth_append)
  qed
qed

lemma mem_write_append_left:
  assumes "k = of_nat (length bs)" and "length bs + length cs < 2 ^ 64"
  shows "mem_write (mem_write m a bs) (k + a) cs = mem_write m a (bs @ cs)"
  using mem_write_append [OF assms] by (simp add: add.commute)

lemma mem_read_part:
  assumes "k = of_nat i" and "i + n \<le> length bs" and "length bs < 2 ^ 64"
  shows "mem_read n (mem_write m a bs) (a + k) = take n (drop i bs)"
proof (rule nth_equalityI)
  show "length (mem_read n (mem_write m a bs) (a + k)) = length (take n (drop i bs))" using assms by simp
  fix j assume "j < length (mem_read n (mem_write m a bs) (a + k))"
  then have j: "j < n" by simp
  have "unat (a + k + of_nat j - a) = i + j"
    using assms j unat_offset [of "i + j" a] by (simp add: algebra_simps)
  then show "mem_read n (mem_write m a bs) (a + k) ! j = take n (drop i bs) ! j"
    using j assms(2) by (simp add: mem_read_def mem_write_def)
qed

lemma write_agree_outside: "length bs \<le> n \<Longrightarrow> n < 2 ^ 64 \<Longrightarrow> agree_outside a n (mem_write m a bs) m"
  by (rule mem_write_inside) (simp add: in_range_def unat_of_nat)

lemma mem_read_sub: "i + n \<le> k \<Longrightarrow> mem_read n m (a + of_nat i) = take n (drop i (mem_read k m a))"
  by (intro nth_equalityI) (simp_all add: mem_read_def algebra_simps)

section \<open>Little-endian images\<close>

text \<open>
  \<open>le_bytes n v\<close> is the little-endian image of the low \<open>n\<close> bytes of \<open>v\<close>,
  \<open>le_val\<close> reads such an image back.
\<close>

definition le_bytes :: "nat \<Rightarrow> 'a::len word \<Rightarrow> u8 list" where
  "le_bytes n v = map (\<lambda>i. ucast (drop_bit (8 * i) v)) [0..<n]"

fun le_val :: "u8 list \<Rightarrow> 'a::len word" where
  "le_val [] = 0"
| "le_val (b # bs) = ucast b OR push_bit 8 (le_val bs)"

lemma le_bytes_length [simp]: "length (le_bytes n v) = n"
  by (simp add: le_bytes_def)

lemma bit_le_val:
  "bit (le_val bs :: 'a::len word) n \<longleftrightarrow>
     n < LENGTH('a) \<and> n div 8 < length bs \<and> bit (bs ! (n div 8)) (n mod 8)"
proof (induction bs arbitrary: n)
  case Nil
  then show ?case by simp
next
  case (Cons b bs)
  show ?case
  proof (cases "n < 8")
    case True
    then show ?thesis by (auto simp: bit_simps)
  next
    case False
    then have "n div 8 = Suc ((n - 8) div 8)" and "n mod 8 = (n - 8) mod 8"
      by (simp_all add: le_div_geq le_mod_geq)
    moreover have "\<not> bit b n" using False bit_imp_le_length [of b n] by auto
    ultimately show ?thesis using False Cons [of "n - 8"] by (auto simp: bit_simps)
  qed
qed

lemma le_val_bytes [memory]: "le_val (le_bytes n v) = take_bit (8 * n) v"
  for v :: "'a::len word"
proof (rule bit_word_eqI)
  fix k assume "k < LENGTH('a)"
  moreover have "k div 8 < n \<longleftrightarrow> k < 8 * n" by (simp add: div_less_iff_less_mult mult.commute)
  moreover have "8 * (k div 8) + k mod 8 = k" by simp
  ultimately show "bit (le_val (le_bytes n v) :: 'a word) k = bit (take_bit (8 * n) v) k"
    by (auto simp: bit_le_val le_bytes_def bit_simps)
qed

lemma le_bytes_take_bit [simp]: "le_bytes n (take_bit (8 * n) v) = le_bytes n v"
  for v :: "'a::len word"
proof (rule nth_equalityI)
  fix i assume "i < length (le_bytes n (take_bit (8 * n) v))"
  then have "i < n" by simp
  then have "ucast (drop_bit (8 * i) (take_bit (8 * n) v)) = (ucast (drop_bit (8 * i) v) :: u8)"
    by (intro bit_word_eqI) (auto simp: bit_simps)
  then show "le_bytes n (take_bit (8 * n) v) ! i = le_bytes n v ! i"
    using \<open>i < n\<close> by (simp add: le_bytes_def)
qed simp

lemma le_bytes_val:
  assumes "8 * length bs \<le> LENGTH('a)"
  shows "le_bytes (length bs) (le_val bs :: 'a::len word) = bs"
proof (rule nth_equalityI)
  fix i assume "i < length (le_bytes (length bs) (le_val bs :: 'a word))"
  then have i: "i < length bs" by simp
  have "ucast (drop_bit (8 * i) (le_val bs :: 'a word)) = bs ! i"
  proof (rule bit_word_eqI)
    fix k assume "k < LENGTH(8)"
    then have "k < 8" and "(8 * i + k) div 8 = i" and "8 * i + k < 8 * length bs"
      using i by simp_all
    then show "bit (ucast (drop_bit (8 * i) (le_val bs :: 'a word)) :: u8) k = bit (bs ! i) k"
      using i assms by (simp add: bit_simps bit_le_val)
  qed
  then show "le_bytes (length bs) (le_val bs :: 'a word) ! i = bs ! i"
    using i by (simp add: le_bytes_def)
qed simp

lemma le_val_take_bit:
  "8 * length bs \<le> n \<Longrightarrow> take_bit n (le_val bs) = (le_val bs :: 'a::len word)"
  by (rule bit_word_eqI) (auto simp: bit_simps bit_le_val div_less_iff_less_mult)

lemma take_bit_64 [simp]: "take_bit 64 (v :: u64) = v"
  using take_bit_length_eq [of v] by simp

lemma take_bit_wider: "take_bit k v = v \<Longrightarrow> k \<le> n \<Longrightarrow> take_bit n v = (v :: u64)"
  by (metis min.absorb2 take_bit_take_bit)

lemma sint_word_of_int: "- (2 ^ 63) \<le> k \<Longrightarrow> k < 2 ^ 63 \<Longrightarrow> sint (word_of_int k :: u64) = k"
  by (simp add: int_word_sint)

lemma and_3_eq_0: "(x :: u64) AND 3 = 0 \<longleftrightarrow> 4 dvd x"
  using take_bit_eq_0_iff [of 2 x] by (simp add: take_bit_eq_mask mask_numeral)

lemma masked_off:
  assumes "f AND NOT m = 0" shows "f = f AND (m :: 'a::len word)"
proof (rule bit_word_eqI)
  fix n assume "n < LENGTH('a)"
  moreover have "\<not> bit (f AND NOT m) n" using assms by simp
  ultimately show "bit f n = bit (f AND m) n" by (auto simp: bit_and_iff bit_not_iff)
qed

lemma word_splice:
  fixes a b m :: "'a::len word"
  shows "((a AND NOT m) OR (b AND m)) AND m = b AND m"
    and "((a AND NOT m) OR (b AND m)) AND NOT m = a AND NOT m"
  by (rule bit_word_eqI, auto simp: bit_simps)+

section \<open>Reading and writing fields\<close>

definition rd32 :: "memory \<Rightarrow> u64 \<Rightarrow> u32" where
  "rd32 m a = le_val (mem_read 4 m a)"

definition rd64 :: "memory \<Rightarrow> u64 \<Rightarrow> u64" where
  "rd64 m a = le_val (mem_read 8 m a)"

definition wr32 :: "memory \<Rightarrow> u64 \<Rightarrow> u32 \<Rightarrow> memory" where
  "wr32 m a v = mem_write m a (le_bytes 4 v)"

definition wr64 :: "memory \<Rightarrow> u64 \<Rightarrow> u64 \<Rightarrow> memory" where
  "wr64 m a v = mem_write m a (le_bytes 8 v)"

lemma take_bit_32 [simp]: "take_bit 32 (v :: u32) = v"
  using take_bit_length_eq [of v] by simp

lemma rd32_wr32 [simp]: "rd32 (wr32 m a v) a = v"
  by (simp add: rd32_def wr32_def memory)

lemma rd64_wr64 [simp]: "rd64 (wr64 m a v) a = v"
  by (simp add: rd64_def wr64_def memory)

lemma rd32_wr32_apart: "apart a 4 b 4 \<Longrightarrow> rd32 (wr32 m b v) a = rd32 m a"
  by (simp add: rd32_def wr32_def memory)

lemma rd64_wr64_apart: "apart a 8 b 8 \<Longrightarrow> rd64 (wr64 m b v) a = rd64 m a"
  by (simp add: rd64_def wr64_def memory)

section \<open>Alignment\<close>

lemma unat_of_nat_eqI: "w = of_nat n \<Longrightarrow> n < 2 ^ 64 \<Longrightarrow> unat (w :: u64) = n"
  by (simp add: unat_of_nat)

lemma and_not_mask: "(v :: u64) AND NOT (2 ^ n - 1) = push_bit n (drop_bit n v)"
  unfolding mask_eq_exp_minus_1 [symmetric] by (rule bit_word_eqI) (auto simp: bit_simps)

lemma unat_and_not_mask:
  assumes "n < 64"
  shows "unat ((v :: u64) AND NOT (2 ^ n - 1)) = unat v div 2 ^ n * 2 ^ n"
proof -
  have "unat v div 2 ^ n * 2 ^ n \<le> unat v" by simp
  also have "unat v < 2 ^ LENGTH(64)" by (rule unsigned_less)
  finally have lt: "unat v div 2 ^ n * 2 ^ n < 2 ^ LENGTH(64)" .
  have d: "unat (drop_bit n v) = unat v div 2 ^ n"
    using unsigned_drop_bit_eq [where 'a = nat, of n v]
    by (simp only: take_bit_nat_eq_self [OF unsigned_less] drop_bit_eq_div [where 'a = nat])
  have "unat (push_bit n (drop_bit n v)) = take_bit LENGTH(64) (push_bit n (unat (drop_bit n v)))"
    by (simp only: unsigned_push_bit_eq)
  then show ?thesis by (simp only: and_not_mask d push_bit_eq_mult take_bit_nat_eq_self [OF lt])
qed

end
