(* ===== verification/Arm64_Enc.thy ===== *)
theory Arm64_Enc
  imports Prelude
begin

text \<open>
  The A64 instruction encoders of \<open>src/arm64_enc.h\<close> and \<open>src/isa_emul.c\<close>.
  Register numbers, sizes, conditions and word offsets are 32-bit words, as the C code combines
  them into a \<open>uint32_t\<close>; a negative word offset is its two's complement image.
\<close>

section \<open>arm64_enc.h\<close>

definition ENC_NOP :: u32 where "ENC_NOP = 0xD503201F"

definition ENC_RET :: u32 where "ENC_RET = 0xD65F03C0"

definition enc_b :: "u32 \<Rightarrow> u32" where
  "enc_b word_offset = 0x14000000 OR (word_offset AND 0x03FFFFFF)"

definition enc_bl :: "u32 \<Rightarrow> u32" where
  "enc_bl word_offset = 0x94000000 OR (word_offset AND 0x03FFFFFF)"

definition arm64_branch_in_range :: "u64 \<Rightarrow> bool" where
  "arm64_branch_in_range byte_offset =
     (if byte_offset AND 3 \<noteq> 0 then False
      else let word_offset = sint (signed_drop_bit 2 byte_offset)
           in word_offset \<ge> - (2 ^ 25) \<and> word_offset < 2 ^ 25)"

section \<open>isa\_emul.c: encoders of the island code\<close>

definition enc_cbnz_w :: "u32 \<Rightarrow> u32 \<Rightarrow> u32" where
  "enc_cbnz_w rt word_offset = 0x35000000 OR push_bit 5 (word_offset AND 0x7FFFF) OR rt"

definition enc_str_pre :: "u32 \<Rightarrow> u32" where
  "enc_str_pre rt = 0xF81F0FE0 OR rt"

definition enc_ldr_post :: "u32 \<Rightarrow> u32" where
  "enc_ldr_post rt = 0xF84107E0 OR rt"

definition enc_mrs_nzcv :: "u32 \<Rightarrow> u32" where
  "enc_mrs_nzcv rt = 0xD53B4200 OR rt"

definition enc_msr_nzcv :: "u32 \<Rightarrow> u32" where
  "enc_msr_nzcv rt = 0xD51B4200 OR rt"

definition enc_ldxr :: "u32 \<Rightarrow> bool \<Rightarrow> u32 \<Rightarrow> u32 \<Rightarrow> u32" where
  "enc_ldxr sz acquire rt rn =
     (let base = 0x08407C00;
          base = (if acquire then base OR push_bit 15 1 else base)
      in base OR push_bit 30 sz OR push_bit 5 rn OR rt)"

definition enc_ldxrb :: "bool \<Rightarrow> u32 \<Rightarrow> u32 \<Rightarrow> u32" where
  "enc_ldxrb acquire rt rn = enc_ldxr 0 acquire rt rn"

definition enc_ldxrh :: "bool \<Rightarrow> u32 \<Rightarrow> u32 \<Rightarrow> u32" where
  "enc_ldxrh acquire rt rn = enc_ldxr 1 acquire rt rn"

definition enc_stxr :: "u32 \<Rightarrow> bool \<Rightarrow> u32 \<Rightarrow> u32 \<Rightarrow> u32 \<Rightarrow> u32" where
  "enc_stxr sz release rs rt rn =
     (let base = 0x08007C00;
          base = (if release then base OR push_bit 15 1 else base)
      in base OR push_bit 30 sz OR push_bit 16 rs OR push_bit 5 rn OR rt)"

definition enc_add :: "bool \<Rightarrow> u32 \<Rightarrow> u32 \<Rightarrow> u32 \<Rightarrow> u32" where
  "enc_add is64 rd rn rm =
     (if is64 then 0x8B000000 else 0x0B000000) OR push_bit 16 rm OR push_bit 5 rn OR rd"

definition enc_bic :: "bool \<Rightarrow> u32 \<Rightarrow> u32 \<Rightarrow> u32 \<Rightarrow> u32" where
  "enc_bic is64 rd rn rm =
     (if is64 then 0x8A200000 else 0x0A200000) OR push_bit 16 rm OR push_bit 5 rn OR rd"

definition enc_eor :: "bool \<Rightarrow> u32 \<Rightarrow> u32 \<Rightarrow> u32 \<Rightarrow> u32" where
  "enc_eor is64 rd rn rm =
     (if is64 then 0xCA000000 else 0x4A000000) OR push_bit 16 rm OR push_bit 5 rn OR rd"

definition enc_orr :: "bool \<Rightarrow> u32 \<Rightarrow> u32 \<Rightarrow> u32 \<Rightarrow> u32" where
  "enc_orr is64 rd rn rm =
     (if is64 then 0xAA000000 else 0x2A000000) OR push_bit 16 rm OR push_bit 5 rn OR rd"

definition enc_cmp :: "bool \<Rightarrow> u32 \<Rightarrow> u32 \<Rightarrow> u32" where
  "enc_cmp is64 rn rm =
     (if is64 then 0xEB000000 else 0x6B000000) OR push_bit 16 rm OR push_bit 5 rn OR 31"

definition enc_csel :: "bool \<Rightarrow> u32 \<Rightarrow> u32 \<Rightarrow> u32 \<Rightarrow> u32 \<Rightarrow> u32" where
  "enc_csel is64 rd rn rm cnd =
     (if is64 then 0x9A800000 else 0x1A800000)
       OR push_bit 16 rm OR push_bit 12 cnd OR push_bit 5 rn OR rd"

definition enc_mov :: "bool \<Rightarrow> u32 \<Rightarrow> u32 \<Rightarrow> u32" where
  "enc_mov is64 rd rn = enc_orr is64 rd 31 rn"

definition enc_sxtb :: "u32 \<Rightarrow> u32 \<Rightarrow> u32" where
  "enc_sxtb rd rn = 0x13001C00 OR push_bit 5 rn OR rd"

definition enc_sxth :: "u32 \<Rightarrow> u32 \<Rightarrow> u32" where
  "enc_sxth rd rn = 0x13003C00 OR push_bit 5 rn OR rd"

definition enc_b_cond :: "u32 \<Rightarrow> u32 \<Rightarrow> u32" where
  "enc_b_cond word_offset cnd = 0x54000000 OR push_bit 5 word_offset OR cnd"

definition ENC_CLREX :: u32 where "ENC_CLREX = 0xD5033F5F"

definition COND_EQ :: u32 where "COND_EQ = 0x0"
definition COND_NE :: u32 where "COND_NE = 0x1"
definition COND_LO :: u32 where "COND_LO = 0x3"
definition COND_HI :: u32 where "COND_HI = 0x8"
definition COND_LT :: u32 where "COND_LT = 0xB"
definition COND_GT :: u32 where "COND_GT = 0xC"

definition enc_neon_bic :: "u32 \<Rightarrow> u32 \<Rightarrow> u32 \<Rightarrow> u32" where
  "enc_neon_bic vd vn vm = 0x4E601C00 OR push_bit 16 vm OR push_bit 5 vn OR vd"

definition enc_neon_eor :: "u32 \<Rightarrow> u32 \<Rightarrow> u32 \<Rightarrow> u32" where
  "enc_neon_eor vd vn vm = 0x6E201C00 OR push_bit 16 vm OR push_bit 5 vn OR vd"

definition enc_str_q_pre :: "u32 \<Rightarrow> u32" where
  "enc_str_q_pre vt = 0x3C9F0FE0 OR vt"

definition enc_ldr_q_post :: "u32 \<Rightarrow> u32" where
  "enc_ldr_q_post vt = 0x3CC107E0 OR vt"

end
