(* ===== verification/Arm64_Decode.thy ===== *)
theory Arm64_Decode
  imports Arm64_Enc
begin

text \<open>
  The instructions the emitted code uses, and their decoder.  The instruction set is not code of the
  repository; it is the language the emitters write, so it is modelled from the architecture's
  definition, as one models C for the sources themselves.  The lemmas \<open>decode_enc\<close> show that
  each encoder of \<open>Arm64_Enc\<close> produces the instruction its comment names, and
  \<open>branch_displacement\<close> that a branch in range reaches its target.
\<close>

section \<open>Instructions\<close>

datatype instr =
    STR_pre u32
  | LDR_post u32
  | MRS_NZCV u32
  | MSR_NZCV u32
  | LDXR u32 u32 u32
  | STXR u32 u32 u32 u32
  | ADD bool u32 u32 u32
  | BIC bool u32 u32 u32
  | EOR bool u32 u32 u32
  | ORR bool u32 u32 u32
  | SUBS bool u32 u32 u32
  | CSEL bool u32 u32 u32 u32
  | SXTB u32 u32
  | SXTH u32 u32
  | CBNZ_W u32 u64
  | B_cond u32 u64
  | CLREX
  | B u64
  | BL u64
  | VBIC u32 u32 u32
  | VEOR u32 u32 u32
  | STRQ_pre u32
  | LDRQ_post u32
  | STP_off u32 u32 u32 u64
  | LDP_off u32 u32 u32 u64
  | STP_pre u32 u32 u32 u64
  | LDP_post u32 u32 u32 u64
  | STP_w_off u32 u32 u32 u64
  | STR_off u32 u32 u64
  | LDR_off u32 u32 u64
  | ADDI u32 u32 u64
  | SUBI u32 u32 u64
  | LDR_lit u32 u64
  | MOVZ_W u32 u64
  | BR u32
  | BLR u32
  | RET u32
  | NOP

definition fld_rd :: "u32 \<Rightarrow> u32" where "fld_rd w = w AND 31"
definition fld_rn :: "u32 \<Rightarrow> u32" where "fld_rn w = drop_bit 5 w AND 31"
definition fld_rm :: "u32 \<Rightarrow> u32" where "fld_rm w = drop_bit 16 w AND 31"
definition fld_cond :: "u32 \<Rightarrow> u32" where "fld_cond w = drop_bit 12 w AND 15"
definition fld_size :: "u32 \<Rightarrow> u32" where "fld_size w = drop_bit 30 w"

text \<open>Byte displacements of the branch forms: sign-extended immediates, times four.\<close>

definition imm26 :: "u32 \<Rightarrow> u64" where
  "imm26 w = push_bit 2 (signed_take_bit 25 (ucast w))"

definition imm19 :: "u32 \<Rightarrow> u64" where
  "imm19 w = push_bit 2 (signed_take_bit 18 (ucast (drop_bit 5 w)))"

text \<open>The scaled immediates of the pair and offset forms.\<close>

definition fld_rt2 :: "u32 \<Rightarrow> u32" where "fld_rt2 w = drop_bit 10 w AND 31"

definition imm7 :: "u32 \<Rightarrow> u64" where
  "imm7 w = signed_take_bit 6 (ucast (drop_bit 15 w))"

definition imm12 :: "u32 \<Rightarrow> u64" where
  "imm12 w = ucast (drop_bit 10 w AND 0xFFF)"

definition decode :: "u32 \<Rightarrow> instr option" where
  "decode w =
    (if w AND 0xFFFFFFE0 = 0xF81F0FE0 then Some (STR_pre (fld_rd w))
     else if w AND 0xFFFFFFE0 = 0xF84107E0 then Some (LDR_post (fld_rd w))
     else if w AND 0xFFFFFFE0 = 0xD53B4200 then Some (MRS_NZCV (fld_rd w))
     else if w AND 0xFFFFFFE0 = 0xD51B4200 then Some (MSR_NZCV (fld_rd w))
     else if w AND 0x3FE07C00 = 0x08407C00 then Some (LDXR (fld_size w) (fld_rd w) (fld_rn w))
     else if w AND 0x3FE07C00 = 0x08007C00
       then Some (STXR (fld_size w) (fld_rm w) (fld_rd w) (fld_rn w))
     else if w AND 0x7FE0FC00 = 0x0B000000 then Some (ADD (bit w 31) (fld_rd w) (fld_rn w) (fld_rm w))
     else if w AND 0x7FE0FC00 = 0x0A200000 then Some (BIC (bit w 31) (fld_rd w) (fld_rn w) (fld_rm w))
     else if w AND 0x7FE0FC00 = 0x4A000000 then Some (EOR (bit w 31) (fld_rd w) (fld_rn w) (fld_rm w))
     else if w AND 0x7FE0FC00 = 0x2A000000 then Some (ORR (bit w 31) (fld_rd w) (fld_rn w) (fld_rm w))
     else if w AND 0x7FE0FC00 = 0x6B000000 then Some (SUBS (bit w 31) (fld_rd w) (fld_rn w) (fld_rm w))
     else if w AND 0x7FE00C00 = 0x1A800000
       then Some (CSEL (bit w 31) (fld_rd w) (fld_rn w) (fld_rm w) (fld_cond w))
     else if w AND 0xFFFFFC00 = 0x13001C00 then Some (SXTB (fld_rd w) (fld_rn w))
     else if w AND 0xFFFFFC00 = 0x13003C00 then Some (SXTH (fld_rd w) (fld_rn w))
     else if w AND 0xFF000000 = 0x35000000 then Some (CBNZ_W (fld_rd w) (imm19 w))
     else if w AND 0xFF000010 = 0x54000000 then Some (B_cond (w AND 15) (imm19 w))
     else if w AND 0xFFFFF0FF = 0xD503305F then Some CLREX
     else if w AND 0xFC000000 = 0x14000000 then Some (B (imm26 w))
     else if w AND 0xFC000000 = 0x94000000 then Some (BL (imm26 w))
     else if w AND 0xFFE0FC00 = 0x4E601C00 then Some (VBIC (fld_rd w) (fld_rn w) (fld_rm w))
     else if w AND 0xFFE0FC00 = 0x6E201C00 then Some (VEOR (fld_rd w) (fld_rn w) (fld_rm w))
     else if w AND 0xFFFFFFE0 = 0x3C9F0FE0 then Some (STRQ_pre (fld_rd w))
     else if w AND 0xFFFFFFE0 = 0x3CC107E0 then Some (LDRQ_post (fld_rd w))
     else if w AND 0xFFC00000 = 0xA9000000 then Some (STP_off (fld_rd w) (fld_rt2 w) (fld_rn w) (8 * imm7 w))
     else if w AND 0xFFC00000 = 0xA9400000 then Some (LDP_off (fld_rd w) (fld_rt2 w) (fld_rn w) (8 * imm7 w))
     else if w AND 0xFFC00000 = 0xA9800000 then Some (STP_pre (fld_rd w) (fld_rt2 w) (fld_rn w) (8 * imm7 w))
     else if w AND 0xFFC00000 = 0xA8C00000 then Some (LDP_post (fld_rd w) (fld_rt2 w) (fld_rn w) (8 * imm7 w))
     else if w AND 0xFFC00000 = 0x29000000 then Some (STP_w_off (fld_rd w) (fld_rt2 w) (fld_rn w) (4 * imm7 w))
     else if w AND 0xFFC00000 = 0xF9000000 then Some (STR_off (fld_rd w) (fld_rn w) (8 * imm12 w))
     else if w AND 0xFFC00000 = 0xF9400000 then Some (LDR_off (fld_rd w) (fld_rn w) (8 * imm12 w))
     else if w AND 0xFFC00000 = 0x91000000 then Some (ADDI (fld_rd w) (fld_rn w) (imm12 w))
     else if w AND 0xFFC00000 = 0xD1000000 then Some (SUBI (fld_rd w) (fld_rn w) (imm12 w))
     else if w AND 0xFF000000 = 0x58000000 then Some (LDR_lit (fld_rd w) (imm19 w))
     else if w AND 0xFFE00000 = 0x52800000 then Some (MOVZ_W (fld_rd w) (ucast (drop_bit 5 w AND 0xFFFF)))
     else if w AND 0xFFFFFC1F = 0xD61F0000 then Some (BR (fld_rn w))
     else if w AND 0xFFFFFC1F = 0xD63F0000 then Some (BLR (fld_rn w))
     else if w AND 0xFFFFFC1F = 0xD65F0000 then Some (RET (fld_rn w))
     else if w = 0xD503201F then Some NOP
     else None)"

lemmas fields = fld_rd_def fld_rn_def fld_rm_def fld_cond_def fld_size_def

text \<open>
  Every encoder places up to three register numbers into a constant: the fields read back, and any
  test on other positions sees the constant only.
\<close>

definition rrr :: "u32 \<Rightarrow> u32 \<Rightarrow> u32 \<Rightarrow> u32 \<Rightarrow> u32" where
  "rrr base rm rn rd = base OR push_bit 16 rm OR push_bit 5 rn OR rd"

lemma and_zero_bits: "(b :: u32) AND m = 0 \<Longrightarrow> bit m n \<Longrightarrow> \<not> bit b n"
  by (metis bit_and_iff bit_0_eq bot_apply bot_bool_def)

lemma rrr_fields:
  assumes "rm < 32" and "rn < 32" and "rd < 32" and "base AND 0x1F03FF = 0"
  shows "fld_rd (rrr base rm rn rd) = rd" and "fld_rn (rrr base rm rn rd) = rn"
    and "fld_rm (rrr base rm rn rd) = rm"
  by (rule u32_bitsI, simp add: fields rrr_def bit_simps bitfield assms and_zero_bits [OF assms(4)])+

lemma rrr_rest:
  assumes "rm < 32" and "rn < 32" and "rd < 32"
  shows "fld_size (rrr base rm rn rd) = fld_size base"
    and "fld_cond (rrr base rm rn rd) = fld_cond base"
  by (rule u32_bitsI, simp add: fields rrr_def bit_simps bitfield assms)+

lemma rrr_bit31: "rm < 32 \<Longrightarrow> rn < 32 \<Longrightarrow> rd < 32 \<Longrightarrow> bit (rrr base rm rn rd) 31 = bit base 31"
  by (simp add: rrr_def bit_simps bitfield)

lemma rrr_mask:
  assumes "rm < 32" and "rn < 32" and "rd < 32" and "m AND 0x1F03FF = 0"
  shows "rrr base rm rn rd AND m = base AND m"
  by (rule u32_bitsI, simp add: rrr_def bit_simps bitfield assms and_zero_bits [OF assms(4)])

lemma rrr_clash:
  assumes "rm < 32" and "rn < 32" and "rd < 32"
    and "base AND (m AND 0xFFE0FC00) \<noteq> v AND 0xFFE0FC00"
  shows "rrr base rm rn rd AND m \<noteq> v"
proof -
  have "rrr base rm rn rd AND 0xFFE0FC00 = base AND 0xFFE0FC00"
    by (rule rrr_mask) (simp_all add: assms)
  moreover have "(base AND 0xFFE0FC00) AND m \<noteq> v AND 0xFFE0FC00" using assms(4) by (simp add: ac_simps)
  ultimately show ?thesis by (rule mask_clash)
qed

lemma rrr_rm0_mask:
  assumes "rn < 32" and "rd < 32" and "m AND 0x3FF = 0"
  shows "rrr base 0 rn rd AND m = base AND m"
  by (rule u32_bitsI, simp add: rrr_def bit_simps bitfield assms and_zero_bits [OF assms(3)])

lemma fld_numeral [simp]:
  "fld_size (numeral k) = drop_bit 30 (numeral k)" "fld_cond (numeral k) = drop_bit 12 (numeral k) AND 15"
  by (simp_all add: fields)

text \<open>The same for one register number, and for branch offsets.\<close>

definition r1 :: "u32 \<Rightarrow> u32 \<Rightarrow> u32" where
  "r1 base rd = base OR rd"

lemma r1_mask:
  assumes "rd < 32" and "m AND 0x1F = 0"
  shows "r1 base rd AND m = base AND m"
  by (rule u32_bitsI, simp add: r1_def bit_simps bitfield assms and_zero_bits [OF assms(2)])

lemma r1_rd:
  assumes "rd < 32" and "base AND 0x1F = 0"
  shows "fld_rd (r1 base rd) = rd"
  by (rule u32_bitsI, simp add: fields r1_def bit_simps bitfield assms and_zero_bits [OF assms(2)])

lemma r1_clash:
  assumes "rd < 32" and "base AND (m AND 0xFFFFFFE0) \<noteq> v AND 0xFFFFFFE0"
  shows "r1 base rd AND m \<noteq> v"
proof -
  have "r1 base rd AND 0xFFFFFFE0 = base AND 0xFFFFFFE0"
    by (rule r1_mask) (simp_all add: assms)
  moreover have "(base AND 0xFFFFFFE0) AND m \<noteq> v AND 0xFFFFFFE0" using assms(2) by (simp add: ac_simps)
  ultimately show ?thesis by (rule mask_clash)
qed

lemmas r1 = r1_mask r1_rd r1_clash

lemmas rrr = rrr_rm0_mask rrr_fields rrr_rest rrr_bit31 rrr_mask rrr_clash

text \<open>The two-bit access sizes, one by one.\<close>

lemma size_cases:
  assumes "(sz :: u32) < 4"
  obtains "sz = 0" | "sz = 1" | "sz = 2" | "sz = 3"
proof -
  have "unat sz < 4" using assms by unat_arith
  then have "unat sz \<in> {0, 1, 2, 3}" by auto
  then show thesis using that by (auto simp: word_unat_eq_iff)
qed

section \<open>Decoding inverts encoding\<close>

lemma decode_enc_str_pre [simp]: "rt < 32 \<Longrightarrow> decode (enc_str_pre rt) = Some (STR_pre rt)"
  unfolding enc_str_pre_def r1_def [of "0xF81F0FE0" rt, symmetric] decode_def by (simp add: r1 split del: if_split)

lemma decode_enc_ldr_post [simp]: "rt < 32 \<Longrightarrow> decode (enc_ldr_post rt) = Some (LDR_post rt)"
  unfolding enc_ldr_post_def r1_def [of "0xF84107E0" rt, symmetric] decode_def by (simp add: r1 split del: if_split)

lemma decode_enc_mrs_nzcv [simp]: "rt < 32 \<Longrightarrow> decode (enc_mrs_nzcv rt) = Some (MRS_NZCV rt)"
  unfolding enc_mrs_nzcv_def r1_def [of "0xD53B4200" rt, symmetric] decode_def by (simp add: r1 split del: if_split)

lemma decode_enc_msr_nzcv [simp]: "rt < 32 \<Longrightarrow> decode (enc_msr_nzcv rt) = Some (MSR_NZCV rt)"
  unfolding enc_msr_nzcv_def r1_def [of "0xD51B4200" rt, symmetric] decode_def by (simp add: r1 split del: if_split)

lemma decode_enc_str_q_pre [simp]: "rt < 32 \<Longrightarrow> decode (enc_str_q_pre rt) = Some (STRQ_pre rt)"
  unfolding enc_str_q_pre_def r1_def [of "0x3C9F0FE0" rt, symmetric] decode_def by (simp add: r1 split del: if_split)

lemma decode_enc_ldr_q_post [simp]: "rt < 32 \<Longrightarrow> decode (enc_ldr_q_post rt) = Some (LDRQ_post rt)"
  unfolding enc_ldr_q_post_def r1_def [of "0x3CC107E0" rt, symmetric] decode_def by (simp add: r1 split del: if_split)

lemma decode_enc_ldxr [simp]:
  assumes "sz < 4" "rt < 32" "rn < 32"
  shows "decode (enc_ldxr sz acq rt rn) = Some (LDXR sz rt rn)"
proof -
  have eq: "enc_ldxr sz acq rt rn =
      rrr ((if acq then 0x0840FC00 else 0x08407C00) OR push_bit 30 sz) 0 rn rt"
    by (simp add: enc_ldxr_def rrr_def ac_simps)
  show ?thesis unfolding eq decode_def
    using assms(1) by (cases rule: size_cases; cases acq) (simp_all add: rrr assms split del: if_split)
qed

lemma decode_enc_stxr [simp]:
  assumes "sz < 4" "rs < 32" "rt < 32" "rn < 32"
  shows "decode (enc_stxr sz rel rs rt rn) = Some (STXR sz rs rt rn)"
proof -
  have eq: "enc_stxr sz rel rs rt rn =
      rrr ((if rel then 0x0800FC00 else 0x08007C00) OR push_bit 30 sz) rs rn rt"
    by (simp add: enc_stxr_def rrr_def ac_simps)
  show ?thesis unfolding eq decode_def
    using assms(1) by (cases rule: size_cases; cases rel) (simp_all add: rrr assms split del: if_split)
qed

lemma decode_enc_add [simp]:
  assumes "rd < 32" "rn < 32" "rm < 32"
  shows "decode (enc_add is64 rd rn rm) = Some (ADD is64 rd rn rm)"
proof -
  have eq: "enc_add is64 rd rn rm = rrr (if is64 then 0x8B000000 else 0x0B000000) rm rn rd"
    by (simp add: enc_add_def rrr_def)
  show ?thesis unfolding eq decode_def by (cases is64) (simp_all add: rrr assms split del: if_split)
qed

lemma decode_enc_bic [simp]:
  assumes "rd < 32" "rn < 32" "rm < 32"
  shows "decode (enc_bic is64 rd rn rm) = Some (BIC is64 rd rn rm)"
proof -
  have eq: "enc_bic is64 rd rn rm = rrr (if is64 then 0x8A200000 else 0x0A200000) rm rn rd"
    by (simp add: enc_bic_def rrr_def)
  show ?thesis unfolding eq decode_def by (cases is64) (simp_all add: rrr assms split del: if_split)
qed

lemma decode_enc_eor [simp]:
  assumes "rd < 32" "rn < 32" "rm < 32"
  shows "decode (enc_eor is64 rd rn rm) = Some (EOR is64 rd rn rm)"
proof -
  have eq: "enc_eor is64 rd rn rm = rrr (if is64 then 0xCA000000 else 0x4A000000) rm rn rd"
    by (simp add: enc_eor_def rrr_def)
  show ?thesis unfolding eq decode_def by (cases is64) (simp_all add: rrr assms split del: if_split)
qed

lemma decode_enc_orr [simp]:
  assumes "rd < 32" "rn < 32" "rm < 32"
  shows "decode (enc_orr is64 rd rn rm) = Some (ORR is64 rd rn rm)"
proof -
  have eq: "enc_orr is64 rd rn rm = rrr (if is64 then 0xAA000000 else 0x2A000000) rm rn rd"
    by (simp add: enc_orr_def rrr_def)
  show ?thesis unfolding eq decode_def by (cases is64) (simp_all add: rrr assms split del: if_split)
qed

lemma decode_enc_cmp [simp]:
  assumes "rn < 32" "rm < 32"
  shows "decode (enc_cmp is64 rn rm) = Some (SUBS is64 31 rn rm)"
proof -
  have eq: "enc_cmp is64 rn rm = rrr (if is64 then 0xEB000000 else 0x6B000000) rm rn 31"
    by (simp add: enc_cmp_def rrr_def)
  show ?thesis unfolding eq decode_def by (cases is64) (simp_all add: rrr assms split del: if_split)
qed

lemmas conds = COND_EQ_def COND_NE_def COND_LO_def COND_HI_def COND_LT_def COND_GT_def

lemma decode_enc_csel [simp]:
  assumes "rd < 32" "rn < 32" "rm < 32" "cnd \<in> {COND_EQ, COND_NE, COND_LO, COND_HI, COND_LT, COND_GT}"
  shows "decode (enc_csel is64 rd rn rm cnd) = Some (CSEL is64 rd rn rm cnd)"
proof -
  have eq: "enc_csel is64 rd rn rm cnd =
      rrr ((if is64 then 0x9A800000 else 0x1A800000) OR push_bit 12 cnd) rm rn rd"
    by (simp add: enc_csel_def rrr_def ac_simps)
  show ?thesis unfolding eq decode_def using assms(4)
    by (cases is64; elim insertE emptyE)
      (simp_all add: rrr assms(1-3) conds split del: if_split)
qed

lemma decode_enc_mov [simp]:
  "rd < 32 \<Longrightarrow> rn < 32 \<Longrightarrow> decode (enc_mov is64 rd rn) = Some (ORR is64 rd 31 rn)"
  by (simp add: enc_mov_def)

lemma decode_enc_sxtb [simp]:
  assumes "rd < 32" "rn < 32"
  shows "decode (enc_sxtb rd rn) = Some (SXTB rd rn)"
proof -
  have eq: "enc_sxtb rd rn = rrr 0x13001C00 0 rn rd"
    by (simp add: enc_sxtb_def rrr_def)
  show ?thesis unfolding eq decode_def by (simp add: rrr assms split del: if_split)
qed

lemma decode_enc_sxth [simp]:
  assumes "rd < 32" "rn < 32"
  shows "decode (enc_sxth rd rn) = Some (SXTH rd rn)"
proof -
  have eq: "enc_sxth rd rn = rrr 0x13003C00 0 rn rd"
    by (simp add: enc_sxth_def rrr_def)
  show ?thesis unfolding eq decode_def by (simp add: rrr assms split del: if_split)
qed

lemma decode_ENC_CLREX [simp]: "decode ENC_CLREX = Some CLREX"
  by (simp add: decode_def ENC_CLREX_def)

lemma decode_enc_neon_bic [simp]:
  "vd < 32 \<Longrightarrow> vn < 32 \<Longrightarrow> vm < 32 \<Longrightarrow> decode (enc_neon_bic vd vn vm) = Some (VBIC vd vn vm)"
  unfolding enc_neon_bic_def rrr_def [of "0x4E601C00" vm vn vd, symmetric] decode_def
  by (simp add: rrr split del: if_split)

lemma decode_enc_neon_eor [simp]:
  "vd < 32 \<Longrightarrow> vn < 32 \<Longrightarrow> vm < 32 \<Longrightarrow> decode (enc_neon_eor vd vn vm) = Some (VEOR vd vn vm)"
  unfolding enc_neon_eor_def rrr_def [of "0x6E201C00" vm vn vd, symmetric] decode_def
  by (simp add: rrr split del: if_split)

subsection \<open>Branches\<close>

lemma take_bit_ucast: "n \<le> 32 \<Longrightarrow> take_bit n (ucast (w :: u32) :: u64) = ucast (take_bit n w)"
  by (rule bit_word_eqI) (auto simp: bit_simps)

lemma signed_take_bit_ucast_cong:
  assumes "take_bit (Suc n) w = take_bit (Suc n) w'" and "n < 32"
  shows "signed_take_bit n (ucast (w :: u32) :: u64) = signed_take_bit n (ucast w')"
  using assms by (simp add: signed_take_bit_eq_iff_take_bit_eq take_bit_ucast)

lemma enc_b_op: "enc_b off AND 0xFC000000 = 0x14000000"
  by (rule u32_bitsI) (simp add: enc_b_def bit_simps)

lemma imm26_enc_b: "imm26 (enc_b off) = push_bit 2 (signed_take_bit 25 (ucast off))"
proof -
  have "take_bit 26 (enc_b off) = take_bit 26 off"
    by (rule u32_bitsI) (simp add: enc_b_def bit_simps)
  then show ?thesis
    using signed_take_bit_ucast_cong [of 25 "enc_b off" off] by (simp add: imm26_def)
qed

lemma decode_enc_b [simp]:
  "decode (enc_b off) = Some (B (push_bit 2 (signed_take_bit 25 (ucast off))))"
  unfolding decode_def
  by (simp add: mask_clash [OF enc_b_op] enc_b_op imm26_enc_b split del: if_split)

lemma enc_cbnz_w_op: "rt < 32 \<Longrightarrow> enc_cbnz_w rt off AND 0xFF000000 = 0x35000000"
  by (rule u32_bitsI) (simp add: enc_cbnz_w_def bit_simps bitfield)

lemma enc_cbnz_w_fields:
  assumes "rt < 32"
  shows "fld_rd (enc_cbnz_w rt off) = rt"
    and "imm19 (enc_cbnz_w rt off) = push_bit 2 (signed_take_bit 18 (ucast off))"
proof -
  show "fld_rd (enc_cbnz_w rt off) = rt"
    by (rule u32_bitsI) (simp add: enc_cbnz_w_def fields bit_simps bitfield assms)
  have "take_bit 19 (drop_bit 5 (enc_cbnz_w rt off)) = take_bit 19 off"
    by (rule u32_bitsI) (simp add: enc_cbnz_w_def bit_simps bitfield assms)
  then show "imm19 (enc_cbnz_w rt off) = push_bit 2 (signed_take_bit 18 (ucast off))"
    using signed_take_bit_ucast_cong [of 18 "drop_bit 5 (enc_cbnz_w rt off)" off]
    by (simp add: imm19_def)
qed

lemma decode_enc_cbnz_w [simp]:
  "rt < 32 \<Longrightarrow>
    decode (enc_cbnz_w rt off) = Some (CBNZ_W rt (push_bit 2 (signed_take_bit 18 (ucast off))))"
  unfolding decode_def
  by (simp add: mask_clash [OF enc_cbnz_w_op] enc_cbnz_w_op enc_cbnz_w_fields split del: if_split)

lemma decode_enc_b_cond_3_ne [simp]: "decode (enc_b_cond 3 COND_NE) = Some (B_cond COND_NE 12)"
  by (simp add: decode_def enc_b_cond_def COND_NE_def imm19_def signed_take_bit_eq_if_positive)

text \<open>A branch whose byte displacement passes the range check reaches its target.\<close>

lemma branch_displacement:
  assumes "d AND 3 = 0" and "- (2 ^ 27) \<le> sint d" and "sint d < 2 ^ 27"
  shows "push_bit 2 (signed_take_bit 25 (ucast (ucast (signed_drop_bit 2 d) :: u32))) = (d :: u64)"
proof (rule bit_word_eqI)
  fix n assume n: "n < LENGTH(64)"
  have "\<not> bit (d AND 3) 0" and "\<not> bit (d AND 3) 1" using assms(1) by simp_all
  then have low: "\<not> bit d 0" "\<not> bit d 1" by (simp_all add: bit_and_iff)
  have "signed_take_bit 27 (sint d) = sint d"
    using assms by (simp add: signed_take_bit_int_eq_self_iff)
  then have "bit (sint d) n = bit (sint d) (min n 27)"
    using bit_signed_take_bit_iff [of 27 "sint d" n] by (simp add: min.commute)
  then have high: "bit d n = bit d (min n 27)"
    using n by (cases "n \<le> 27") (simp_all add: bit_sint_iff min_def)
  show "bit (push_bit 2 (signed_take_bit 25 (ucast (ucast (signed_drop_bit 2 d) :: u32))) :: u64) n
      = bit d n"
  proof (cases "n < 2")
    case True
    then have "n = 0 \<or> n = 1" by auto
    then show ?thesis using low by (auto simp: bit_simps)
  next
    case False
    then obtain k where k: "n = k + 2" by (metis add.commute le_Suc_ex not_less)
    show ?thesis using n high by (cases "k < 25") (simp_all add: k bit_simps min_def)
  qed
qed

end
