(* ===== verification/Arm64_Machine.thy ===== *)
theory Arm64_Machine
  imports Arm64_Decode
begin

text \<open>
  The machine the emitted code runs on: registers, flags, byte memory, the exclusive monitor, and a
  step function over \<open>Arm64_Decode\<close>.  Memory ordering (acquire, release) has no effect on this
  sequential machine.  Other observers show up as the list \<open>interference\<close>: a store-exclusive
  fails, and the head of the list changes memory, until the list is empty.  Reaching a state is
  always stated with the number of steps it takes, so a theorem about emitted code includes that the
  code gets there.
\<close>

section \<open>State\<close>

type_synonym interferer = "memory \<Rightarrow> memory"

record cpu =
  xreg :: "u32 \<Rightarrow> u64"
  vreg :: "u32 \<Rightarrow> u128"
  sp :: u64
  pc :: u64
  nzcv :: "4 word"
  mem :: memory
  excl :: "(u64 \<times> u32) option"
  interference :: "interferer list"

text \<open>Register 31 reads as zero as data, and is the stack pointer as a base address.\<close>

definition get_x :: "cpu \<Rightarrow> u32 \<Rightarrow> u64" where
  "get_x s r = (if r = 31 then 0 else xreg s r)"

definition base_x :: "cpu \<Rightarrow> u32 \<Rightarrow> u64" where
  "base_x s r = (if r = 31 then sp s else xreg s r)"

definition set_x :: "u32 \<Rightarrow> u64 \<Rightarrow> cpu \<Rightarrow> cpu" where
  "set_x r v s = (if r = 31 then s else s\<lparr>xreg := (xreg s)(r := v)\<rparr>)"

definition set_v :: "u32 \<Rightarrow> u128 \<Rightarrow> cpu \<Rightarrow> cpu" where
  "set_v r v s = s\<lparr>vreg := (vreg s)(r := v)\<rparr>"

definition width :: "bool \<Rightarrow> u64 \<Rightarrow> u64" where
  "width is64 v = (if is64 then v else take_bit 32 v)"

definition nbytes :: "u32 \<Rightarrow> nat" where
  "nbytes sz = 2 ^ unat sz"

definition load :: "u32 \<Rightarrow> memory \<Rightarrow> u64 \<Rightarrow> u64" where
  "load sz m a = le_val (mem_read (nbytes sz) m a)"

definition store :: "u32 \<Rightarrow> memory \<Rightarrow> u64 \<Rightarrow> u64 \<Rightarrow> memory" where
  "store sz m a v = mem_write m a (le_bytes (nbytes sz) v)"

section \<open>Flags and conditions\<close>

definition flags_of_sub :: "'a::len word \<Rightarrow> 'a word \<Rightarrow> 4 word" where
  "flags_of_sub a b =
     (let r = a - b
      in push_bit 3 (of_bool (sint r < 0)) OR push_bit 2 (of_bool (r = 0))
         OR push_bit 1 (of_bool (b \<le> a)) OR of_bool (sint r \<noteq> sint a - sint b))"

definition cond_base :: "u32 \<Rightarrow> 4 word \<Rightarrow> bool" where
  "cond_base c f =
     (let n = bit f 3; z = bit f 2; c' = bit f 1; v = bit f 0
      in if c = 0 then z else if c = 1 then c' else if c = 2 then n else if c = 3 then v
         else if c = 4 then c' \<and> \<not> z else if c = 5 then n = v else if c = 6 then \<not> z \<and> n = v
         else True)"

definition cond_holds :: "u32 \<Rightarrow> 4 word \<Rightarrow> bool" where
  "cond_holds c f =
     (if bit c 0 \<and> c \<noteq> 15 then \<not> cond_base (drop_bit 1 c) f else cond_base (drop_bit 1 c) f)"

lemma flags_of_sub_bits:
  "bit (flags_of_sub a b) 3 \<longleftrightarrow> sint (a - b) < 0"
  "bit (flags_of_sub a b) 2 \<longleftrightarrow> a = b"
  "bit (flags_of_sub a b) (Suc 0) \<longleftrightarrow> b \<le> a"
  "bit (flags_of_sub a b) 0 \<longleftrightarrow> sint (a - b) \<noteq> sint a - sint b"
  by (simp_all add: flags_of_sub_def Let_def bit_simps)

lemma sint_diff_cases:
  fixes a b :: "'a::len word"
  defines "N \<equiv> 2 ^ LENGTH('a) :: int"
  shows "sint (a - b) \<in> {sint a - sint b, sint a - sint b - N, sint a - sint b + N}"
proof -
  let ?d = "sint a - sint b"
  have N: "N = 2 * 2 ^ (LENGTH('a) - 1)" "N > 0"
    using power_minus_mult [of "LENGTH('a)" "2 :: int"] by (simp_all add: N_def)
  define q where "q = - ((?d + 2 ^ (LENGTH('a) - 1)) div N)"
  have eq: "sint (a - b) = ?d + q * N"
    by (simp add: sint_word_diff signed_take_bit_eq_take_bit_shift take_bit_eq_mod
      N_def q_def minus_mult_div_eq_mod [symmetric] algebra_simps)
  have d: "- N < ?d" "?d < N" "- N \<le> 2 * sint (a - b)" "2 * sint (a - b) < N"
    using sint_ge [of a] sint_lt [of a] sint_ge [of b] sint_lt [of b]
      sint_ge [of "a - b"] sint_lt [of "a - b"] N by auto
  have "q < 2"
  proof (rule ccontr)
    assume "\<not> q < 2"
    then have "2 * N \<le> q * N" using N(2) by (intro mult_right_mono) simp_all
    then show False using d eq by linarith
  qed
  moreover have "- 2 < q"
  proof (rule ccontr)
    assume "\<not> - 2 < q"
    then have "q * N \<le> - 2 * N" using N(2) by (intro mult_right_mono) simp_all
    then show False using d eq by linarith
  qed
  ultimately have "q \<in> {-1, 0, 1}" by auto
  then show ?thesis using eq by auto
qed

lemma overflow_sign:
  "((sint (a - b) < 0) \<noteq> (sint (a - b) \<noteq> sint a - sint b)) \<longleftrightarrow> sint a < sint (b :: 'a::len word)"
proof -
  have N: "(2 :: int) ^ LENGTH('a) = 2 * 2 ^ (LENGTH('a) - 1)" "(2 :: int) ^ LENGTH('a) > 0"
    using power_minus_mult [of "LENGTH('a)" "2 :: int"] by simp_all
  show ?thesis
    using sint_diff_cases [of a b] sint_ge [of "a - b"] sint_lt [of "a - b"] N
      sint_ge [of a] sint_lt [of a] sint_ge [of b] sint_lt [of b]
    by (elim insertE emptyE) simp_all
qed

lemma cond_unsigned:
  "cond_holds COND_EQ (flags_of_sub a b) \<longleftrightarrow> a = b"
  "cond_holds COND_NE (flags_of_sub a b) \<longleftrightarrow> a \<noteq> b"
  "cond_holds COND_LO (flags_of_sub a b) \<longleftrightarrow> a < b"
  "cond_holds COND_HI (flags_of_sub a b) \<longleftrightarrow> b < a"
  by (auto simp add: cond_holds_def cond_base_def conds Let_def flags_of_sub_bits)

lemma cond_signed:
  "cond_holds COND_LT (flags_of_sub a b) \<longleftrightarrow> sint a < sint b"
  "cond_holds COND_GT (flags_of_sub a b) \<longleftrightarrow> sint b < sint a"
proof -
  have "cond_holds COND_LT (flags_of_sub a b) \<longleftrightarrow>
      (sint (a - b) < 0) \<noteq> (sint (a - b) \<noteq> sint a - sint b)"
    by (simp add: cond_holds_def cond_base_def conds Let_def flags_of_sub_bits)
  then show lt: "cond_holds COND_LT (flags_of_sub a b) \<longleftrightarrow> sint a < sint b"
    by (simp only: overflow_sign)
  have "cond_holds COND_GT (flags_of_sub a b) \<longleftrightarrow> a \<noteq> b \<and> \<not> cond_holds COND_LT (flags_of_sub a b)"
    by (simp add: cond_holds_def cond_base_def conds Let_def flags_of_sub_bits)
  then show "cond_holds COND_GT (flags_of_sub a b) \<longleftrightarrow> sint b < sint a"
    unfolding lt by (auto simp: not_less order.order_iff_strict dest: signed_word_eqI)
qed

section \<open>Execution\<close>

definition adv :: "cpu \<Rightarrow> cpu" where
  "adv s = s\<lparr>pc := pc s + 4\<rparr>"

definition flags_of_cmp :: "bool \<Rightarrow> u64 \<Rightarrow> u64 \<Rightarrow> 4 word" where
  "flags_of_cmp is64 a b =
     (if is64 then flags_of_sub a b else flags_of_sub (ucast a :: u32) (ucast b))"

text \<open>A store-exclusive succeeds when the monitor is set for its location and nobody interferes.\<close>

definition exec_stxr :: "u32 \<Rightarrow> u32 \<Rightarrow> u32 \<Rightarrow> u32 \<Rightarrow> cpu \<Rightarrow> cpu" where
  "exec_stxr sz rs rt rn s =
     (case interference s of
        [] \<Rightarrow> if excl s = Some (base_x s rn, sz)
              then set_x rs 0 (s\<lparr>mem := store sz (mem s) (base_x s rn) (get_x s rt), excl := None\<rparr>)
              else set_x rs 1 (s\<lparr>excl := None\<rparr>)
      | f # fs \<Rightarrow> set_x rs 1 (s\<lparr>mem := f (mem s), interference := fs, excl := None\<rparr>))"

text \<open>Register 31 is the stack pointer as the destination of an immediate addition too.\<close>

definition set_base :: "u32 \<Rightarrow> u64 \<Rightarrow> cpu \<Rightarrow> cpu" where
  "set_base r v s = (if r = 31 then s\<lparr>sp := v\<rparr> else s\<lparr>xreg := (xreg s)(r := v)\<rparr>)"

text \<open>A pair in memory, the first at the lower address.\<close>

definition store_pair :: "memory \<Rightarrow> u64 \<Rightarrow> u64 \<Rightarrow> u64 \<Rightarrow> memory" where
  "store_pair m a v w = store 3 (store 3 m a v) (a + 8) w"

definition load_pair :: "u32 \<Rightarrow> u32 \<Rightarrow> u64 \<Rightarrow> cpu \<Rightarrow> cpu" where
  "load_pair rt rt2 a s = set_x rt2 (load 3 (mem s) (a + 8)) (set_x rt (load 3 (mem s) a) s)"

fun exec :: "instr \<Rightarrow> cpu \<Rightarrow> cpu" where
  "exec (STR_pre rt) s = adv (s\<lparr>sp := sp s - 16, mem := store 3 (mem s) (sp s - 16) (get_x s rt)\<rparr>)"
| "exec (LDR_post rt) s = adv (set_x rt (load 3 (mem s) (sp s)) (s\<lparr>sp := sp s + 16\<rparr>))"
| "exec (MRS_NZCV rt) s = adv (set_x rt (push_bit 28 (ucast (nzcv s))) s)"
| "exec (MSR_NZCV rt) s = adv (s\<lparr>nzcv := ucast (drop_bit 28 (get_x s rt))\<rparr>)"
| "exec (LDXR sz rt rn) s =
     adv (set_x rt (load sz (mem s) (base_x s rn)) (s\<lparr>excl := Some (base_x s rn, sz)\<rparr>))"
| "exec (STXR sz rs rt rn) s = adv (exec_stxr sz rs rt rn s)"
| "exec (ADD is64 rd rn rm) s = adv (set_x rd (width is64 (get_x s rn + get_x s rm)) s)"
| "exec (BIC is64 rd rn rm) s = adv (set_x rd (width is64 (get_x s rn AND NOT (get_x s rm))) s)"
| "exec (EOR is64 rd rn rm) s = adv (set_x rd (width is64 (get_x s rn XOR get_x s rm)) s)"
| "exec (ORR is64 rd rn rm) s = adv (set_x rd (width is64 (get_x s rn OR get_x s rm)) s)"
| "exec (SUBS is64 rd rn rm) s =
     adv (set_x rd (width is64 (get_x s rn - get_x s rm))
       (s\<lparr>nzcv := flags_of_cmp is64 (get_x s rn) (get_x s rm)\<rparr>))"
| "exec (CSEL is64 rd rn rm cnd) s =
     adv (set_x rd (width is64 (if cond_holds cnd (nzcv s) then get_x s rn else get_x s rm)) s)"
| "exec (SXTB rd rn) s = adv (set_x rd (take_bit 32 (signed_take_bit 7 (get_x s rn))) s)"
| "exec (SXTH rd rn) s = adv (set_x rd (take_bit 32 (signed_take_bit 15 (get_x s rn))) s)"
| "exec (CBNZ_W rt off) s =
     (if take_bit 32 (get_x s rt) \<noteq> 0 then s\<lparr>pc := pc s + off\<rparr> else adv s)"
| "exec (B_cond cnd off) s = (if cond_holds cnd (nzcv s) then s\<lparr>pc := pc s + off\<rparr> else adv s)"
| "exec CLREX s = adv (s\<lparr>excl := None\<rparr>)"
| "exec (B off) s = s\<lparr>pc := pc s + off\<rparr>"
| "exec (BL off) s = set_x 30 (pc s + 4) s\<lparr>pc := pc s + off\<rparr>"
| "exec (VBIC vd vn vm) s = adv (set_v vd (vreg s vn AND NOT (vreg s vm)) s)"
| "exec (VEOR vd vn vm) s = adv (set_v vd (vreg s vn XOR vreg s vm) s)"
| "exec (STRQ_pre vt) s =
     adv (s\<lparr>sp := sp s - 16, mem := mem_write (mem s) (sp s - 16) (le_bytes 16 (vreg s vt))\<rparr>)"
| "exec (LDRQ_post vt) s = adv (set_v vt (le_val (mem_read 16 (mem s) (sp s))) (s\<lparr>sp := sp s + 16\<rparr>))"
| "exec (STP_off rt rt2 rn off) s =
     adv (s\<lparr>mem := store_pair (mem s) (base_x s rn + off) (get_x s rt) (get_x s rt2)\<rparr>)"
| "exec (LDP_off rt rt2 rn off) s = adv (load_pair rt rt2 (base_x s rn + off) s)"
| "exec (STP_pre rt rt2 rn off) s =
     adv (set_base rn (base_x s rn + off)
       (s\<lparr>mem := store_pair (mem s) (base_x s rn + off) (get_x s rt) (get_x s rt2)\<rparr>))"
| "exec (LDP_post rt rt2 rn off) s =
     adv (set_base rn (base_x s rn + off) (load_pair rt rt2 (base_x s rn) s))"
| "exec (STP_w_off rt rt2 rn off) s =
     adv (s\<lparr>mem := store 2 (store 2 (mem s) (base_x s rn + off) (get_x s rt)) (base_x s rn + off + 4) (get_x s rt2)\<rparr>)"
| "exec (STR_off rt rn off) s = adv (s\<lparr>mem := store 3 (mem s) (base_x s rn + off) (get_x s rt)\<rparr>)"
| "exec (LDR_off rt rn off) s = adv (set_x rt (load 3 (mem s) (base_x s rn + off)) s)"
| "exec (ADDI rd rn imm) s = adv (set_base rd (base_x s rn + imm) s)"
| "exec (SUBI rd rn imm) s = adv (set_base rd (base_x s rn - imm) s)"
| "exec (LDR_lit rt off) s = adv (set_x rt (load 3 (mem s) (pc s + off)) s)"
| "exec (MOVZ_W rd imm) s = adv (set_x rd imm s)"
| "exec (BR rn) s = s\<lparr>pc := get_x s rn\<rparr>"
| "exec (BLR rn) s = (set_x 30 (pc s + 4) s)\<lparr>pc := get_x s rn\<rparr>"
| "exec (RET rn) s = s\<lparr>pc := get_x s rn\<rparr>"
| "exec NOP s = adv s"

definition step :: "(u64 \<Rightarrow> u32) \<Rightarrow> cpu \<Rightarrow> cpu option" where
  "step code s = (case decode (code (pc s)) of None \<Rightarrow> None | Some i \<Rightarrow> Some (exec i s))"

fun run :: "(u64 \<Rightarrow> u32) \<Rightarrow> nat \<Rightarrow> cpu \<Rightarrow> cpu option" where
  "run code 0 s = Some s"
| "run code (Suc n) s = (case step code s of None \<Rightarrow> None | Some s' \<Rightarrow> run code n s')"

definition reaches :: "(u64 \<Rightarrow> u32) \<Rightarrow> cpu \<Rightarrow> cpu \<Rightarrow> bool" where
  "reaches code s s' \<longleftrightarrow> (\<exists>n. run code n s = Some s')"

lemma run_add: "run code (m + n) s = (case run code m s of None \<Rightarrow> None | Some s' \<Rightarrow> run code n s')"
  by (induction m arbitrary: s) (auto split: option.splits)

lemma reaches_refl [simp]: "reaches code s s"
  unfolding reaches_def by (rule exI [of _ 0]) simp

lemma reaches_trans [trans]:
  assumes "reaches code s t" and "reaches code t u"
  shows "reaches code s u"
proof -
  obtain m n where "run code m s = Some t" and "run code n t = Some u"
    using assms by (auto simp: reaches_def)
  then have "run code (m + n) s = Some u" by (simp add: run_add)
  then show ?thesis by (auto simp: reaches_def)
qed

lemma reaches_step: "decode (code (pc s)) = Some i \<Longrightarrow> reaches code s (exec i s)"
  unfolding reaches_def by (rule exI [of _ 1]) (simp add: step_def)

text \<open>A list of instructions without branches runs from its first to past its last one.\<close>

fun straight :: "instr \<Rightarrow> bool" where
  "straight (CBNZ_W _ _) = False"
| "straight (B_cond _ _) = False"
| "straight (B _) = False"
| "straight (BL _) = False"
| "straight (BR _) = False"
| "straight (BLR _) = False"
| "straight (RET _) = False"
| "straight _ = True"

fun code_at :: "(u64 \<Rightarrow> u32) \<Rightarrow> u64 \<Rightarrow> u32 list \<Rightarrow> bool" where
  "code_at code a [] = True"
| "code_at code a (w # ws) = (code a = w \<and> code_at code (a + 4) ws)"

lemma set_x_sel [simp]:
  "sp (set_x r v s) = sp s" "pc (set_x r v s) = pc s" "nzcv (set_x r v s) = nzcv s"
  "mem (set_x r v s) = mem s" "excl (set_x r v s) = excl s" "vreg (set_x r v s) = vreg s"
  "interference (set_x r v s) = interference s"
  by (simp_all add: set_x_def)

lemma xreg_set_x [simp]: "xreg (set_x r v s) = (if r = 31 then xreg s else (xreg s)(r := v))"
  by (simp add: set_x_def)

lemma adv_sel [simp]:
  "sp (adv s) = sp s" "pc (adv s) = pc s + 4" "nzcv (adv s) = nzcv s"
  "mem (adv s) = mem s" "excl (adv s) = excl s" "vreg (adv s) = vreg s"
  "interference (adv s) = interference s" "xreg (adv s) = xreg s"
  by (simp_all add: adv_def)

lemma exec_stxr_sel [simp]:
  "sp (exec_stxr sz rs rt rn s) = sp s" "pc (exec_stxr sz rs rt rn s) = pc s"
  "nzcv (exec_stxr sz rs rt rn s) = nzcv s" "vreg (exec_stxr sz rs rt rn s) = vreg s"
  by (simp_all add: exec_stxr_def split: list.split)

lemma set_v_sel [simp]:
  "sp (set_v r v s) = sp s" "pc (set_v r v s) = pc s" "nzcv (set_v r v s) = nzcv s"
  "mem (set_v r v s) = mem s" "excl (set_v r v s) = excl s" "xreg (set_v r v s) = xreg s"
  "interference (set_v r v s) = interference s" "vreg (set_v r v s) = (vreg s)(r := v)"
  by (simp_all add: set_v_def)

lemma set_base_sel [simp]:
  "pc (set_base r v s) = pc s" "nzcv (set_base r v s) = nzcv s" "mem (set_base r v s) = mem s"
  "excl (set_base r v s) = excl s" "vreg (set_base r v s) = vreg s"
  "interference (set_base r v s) = interference s"
  "sp (set_base r v s) = (if r = 31 then v else sp s)"
  "xreg (set_base r v s) = (if r = 31 then xreg s else (xreg s)(r := v))"
  by (simp_all add: set_base_def)

lemma load_pair_sel [simp]:
  "sp (load_pair r r2 a s) = sp s" "pc (load_pair r r2 a s) = pc s" "nzcv (load_pair r r2 a s) = nzcv s"
  "mem (load_pair r r2 a s) = mem s" "excl (load_pair r r2 a s) = excl s" "vreg (load_pair r r2 a s) = vreg s"
  "interference (load_pair r r2 a s) = interference s"
  by (simp_all add: load_pair_def)

lemma pc_exec_straight: "straight i \<Longrightarrow> pc (exec i s) = pc s + 4"
  by (cases i) simp_all

lemma reaches_straight:
  assumes "code_at code (pc s) ws" and "map decode ws = map Some is" and "list_all straight is"
  shows "reaches code s (fold exec is s)"
  using assms
proof (induction ws arbitrary: s "is")
  case Nil
  then show ?case by simp
next
  case (Cons w ws)
  then obtain i is' where [simp]: "is = i # is'" by (cases "is") auto
  have "reaches code s (exec i s)" using Cons.prems by (intro reaches_step) simp
  moreover have "reaches code (exec i s) (fold exec is' (exec i s))"
    using Cons.prems by (intro Cons.IH) (simp_all add: pc_exec_straight)
  ultimately show ?case by (simp add: reaches_trans)
qed

lemma pc_fold_straight:
  "list_all straight is \<Longrightarrow> pc (fold exec is s) = pc s + 4 * of_nat (length is)"
  by (induction "is" arbitrary: s) (simp_all add: pc_exec_straight)

lemma code_at_append:
  "code_at code a (xs @ ys) \<longleftrightarrow> code_at code a xs \<and> code_at code (a + 4 * of_nat (length xs)) ys"
  by (induction xs arbitrary: a) (simp_all add: algebra_simps)

lemma get_x_other [simp]:
  "get_x (adv s) r = get_x s r" "get_x (s\<lparr>nzcv := f\<rparr>) r = get_x s r" "set_x 31 v s = s"
  "get_x (s\<lparr>pc := a\<rparr>) r = get_x s r" "get_x (s\<lparr>mem := m\<rparr>) r = get_x s r"
  "r' \<noteq> r \<Longrightarrow> get_x (set_x r' v s) r = get_x s r"
  by (simp_all add: get_x_def set_x_def adv_def)

section \<open>Loads and stores\<close>

lemma nbytes_le:
  assumes "sz < 4" shows "nbytes sz \<le> 8 \<and> 0 < nbytes sz"
  using assms by (cases rule: size_cases) (simp_all add: nbytes_def)

lemma store_take_bit: "store sz m a (take_bit (8 * nbytes sz) v) = store sz m a v"
  by (simp add: store_def)

lemma store_cong: "take_bit (8 * nbytes sz) v = take_bit (8 * nbytes sz) v' \<Longrightarrow> store sz m a v = store sz m a v'"
  by (metis store_take_bit)

lemma load_take_bit: "take_bit (8 * nbytes sz) (load sz m a) = load sz m a"
  by (simp add: load_def le_val_take_bit)

lemma load_agree:
  "agree_outside b k m m' \<Longrightarrow> apart a (nbytes sz) b k \<Longrightarrow> sz < 4 \<Longrightarrow> load sz m a = load sz m' a"
  using nbytes_le [of sz] by (simp add: load_def mem_read_agree)

lemma store_agree: "agree_outside b k m m' \<Longrightarrow> agree_outside b k (store sz m a v) (store sz m' a v)"
  by (simp add: store_def mem_write_agree)

lemma nbytes_3 [simp]: "nbytes 3 = 8"
  by (simp add: nbytes_def)

lemma load_store_same [memory]: "load 3 (store 3 m a v) a = v"
  by (simp add: load_def store_def memory)

lemma load_store_apart [memory]:
  "apart a (nbytes sz) b (nbytes sz') \<Longrightarrow> sz < 4 \<Longrightarrow> load sz (store sz' m b v) a = load sz m a"
  using nbytes_le [of sz] by (simp add: load_def store_def mem_read_write_apart)

section \<open>Placing code\<close>

definition place :: "u64 \<Rightarrow> u32 list \<Rightarrow> (u64 \<Rightarrow> u32) \<Rightarrow> u64 \<Rightarrow> u32" where
  "place a ws code = (\<lambda>x. if unat (x - a) < 4 * length ws then ws ! (unat (x - a) div 4) else code x)"

lemma code_at_nth: "(\<And>i. i < length ws \<Longrightarrow> code (a + 4 * of_nat i) = ws ! i) \<Longrightarrow> code_at code a ws"
proof (induction ws arbitrary: a)
  case (Cons w ws)
  have "code a = w" using Cons.prems [of 0] by simp
  moreover have "code (a + 4 + 4 * of_nat i) = ws ! i" if "i < length ws" for i
    using Cons.prems [of "Suc i"] that by (simp add: algebra_simps)
  ultimately show ?case using Cons.IH by simp
qed simp

lemma code_at_place:
  assumes "length ws < 2 ^ 32"
  shows "code_at (place a ws code) a ws"
proof (rule code_at_nth)
  fix i assume i: "i < length ws"
  have "unat (4 * of_nat i :: u64) = 4 * i" using i assms by (simp add: unat_word_ariths unat_of_nat)
  then show "place a ws code (a + 4 * of_nat i) = ws ! i" using i by (simp add: place_def)
qed

lemma place_outside: "4 * length ws \<le> unat (x - a) \<Longrightarrow> place a ws code x = code x"
  by (simp add: place_def)

end
