(* ===== verification/Isa_Emul.thy ===== *)
theory Isa_Emul
  imports Arm64_Machine
begin

text \<open>
  \<open>src/isa_emul.c\<close>: atomics of the Large System Extension (ARMv8.1) and the \<open>BCAX\<close>
  instruction (ARMv8.2) are replaced by branches to islands of ARMv8.0 code.
\<close>

section \<open>Scratch registers\<close>

definition pick_scratch :: "u32 \<Rightarrow> u32" where
  "pick_scratch exclude_mask =
     (case find (\<lambda>r. exclude_mask AND push_bit (unat r) 1 = 0) [16, 15, 14, 13, 12, 11, 10, 9] of
        Some r \<Rightarrow> r
      | None \<Rightarrow>
        (case find (\<lambda>r. exclude_mask AND push_bit (unat r) 1 = 0)
                [17, 18, 19, 20, 21, 22, 23, 24, 25, 26, 27, 28] of
           Some r \<Rightarrow> r
         | None \<Rightarrow> 8))"

section \<open>Decoding\<close>

datatype lse_op =
    LSE_LDADD | LSE_LDCLR | LSE_LDEOR | LSE_LDSET
  | LSE_LDSMAX | LSE_LDSMIN | LSE_LDUMAX | LSE_LDUMIN
  | LSE_SWP | LSE_CAS | LSE_NONE

record lse_decoded =
  lse_op :: lse_op
  lse_size :: u32
  lse_acquire :: bool
  lse_release :: bool
  lse_rs :: u32
  lse_rt :: u32
  lse_rn :: u32

definition lse_opc :: "u32 \<Rightarrow> lse_op" where
  "lse_opc opc =
     (if opc = 0 then LSE_LDADD else if opc = 1 then LSE_LDCLR
      else if opc = 2 then LSE_LDEOR else if opc = 3 then LSE_LDSET
      else if opc = 4 then LSE_LDSMAX else if opc = 5 then LSE_LDSMIN
      else if opc = 6 then LSE_LDUMAX else LSE_LDUMIN)"

definition decode_lse :: "u32 \<Rightarrow> lse_decoded option" where
  "decode_lse instr =
     (if instr AND 0x3F200C00 = 0x38200000 then
        let o3 = drop_bit 15 instr AND 1;
            opc = drop_bit 12 instr AND 7
        in Some \<lparr>lse_op = (if o3 = 1 then LSE_SWP else lse_opc opc),
                 lse_size = drop_bit 30 instr AND 3,
                 lse_acquire = (drop_bit 23 instr AND 1 = 1),
                 lse_release = (drop_bit 22 instr AND 1 = 1),
                 lse_rs = drop_bit 16 instr AND 0x1F,
                 lse_rt = instr AND 0x1F,
                 lse_rn = drop_bit 5 instr AND 0x1F\<rparr>
      else if instr AND 0x3FA07C00 = 0x08A07C00 then
        Some \<lparr>lse_op = LSE_CAS,
              lse_size = drop_bit 30 instr AND 3,
              lse_acquire = (drop_bit 23 instr AND 1 = 1),
              lse_release = (drop_bit 15 instr AND 1 = 1),
              lse_rs = drop_bit 16 instr AND 0x1F,
              lse_rt = instr AND 0x1F,
              lse_rn = drop_bit 5 instr AND 0x1F\<rparr>
      else None)"

section \<open>Island emission\<close>

text \<open>
  An island is the list of words stored from its address on.  The word offset of a branch at
  \<open>from\<close> to \<open>target\<close> is the difference of the two \<open>uint32_t\<close> pointers, cut to an
  \<open>int32_t\<close>.
\<close>

definition word_offset :: "u64 \<Rightarrow> u64 \<Rightarrow> u32" where
  "word_offset target from = ucast (signed_drop_bit 2 (target - from))"

definition one_shl :: "u32 \<Rightarrow> u32" where
  "one_shl r = push_bit (unat r) 1"

text \<open>The instructions between the load-exclusive and the store-exclusive.\<close>

definition emit_compute :: "lse_decoded \<Rightarrow> u32 \<Rightarrow> u32 \<Rightarrow> u32 \<Rightarrow> u32 list" where
  "emit_compute d load_reg new_val_reg status_reg =
     (let is_x = (lse_size d = 3); rs = lse_rs d in
      case lse_op d of
        LSE_LDADD \<Rightarrow> [enc_add is_x new_val_reg load_reg rs]
      | LSE_LDCLR \<Rightarrow> [enc_bic is_x new_val_reg load_reg rs]
      | LSE_LDEOR \<Rightarrow> [enc_eor is_x new_val_reg load_reg rs]
      | LSE_LDSET \<Rightarrow> [enc_orr is_x new_val_reg load_reg rs]
      | LSE_SWP \<Rightarrow> [enc_mov is_x new_val_reg rs]
      | LSE_CAS \<Rightarrow> []
      | LSE_NONE \<Rightarrow> []
      | _ \<Rightarrow>
        (if lse_op d = LSE_LDSMAX \<or> lse_op d = LSE_LDSMIN then
           let t1 = new_val_reg; t2 = status_reg in
           (if lse_size d < 2 then
              [if lse_size d = 0 then enc_sxtb t1 load_reg else enc_sxth t1 load_reg,
               if lse_size d = 0 then enc_sxtb t2 rs else enc_sxth t2 rs,
               enc_cmp False t1 t2]
            else [enc_cmp is_x load_reg rs]) @
           [enc_csel is_x new_val_reg rs load_reg
              (if lse_op d = LSE_LDSMAX then COND_LT else COND_GT)]
         else
           [enc_cmp is_x load_reg rs,
            enc_csel is_x new_val_reg rs load_reg
              (if lse_op d = LSE_LDUMAX then COND_LO else COND_HI)]))"

definition emit_cas :: "lse_decoded \<Rightarrow> u64 \<Rightarrow> u64 \<Rightarrow> u32 list" where
  "emit_cas d island orig_addr =
     (let is_x = (lse_size d = 3);
          mask = one_shl 31 OR one_shl (lse_rs d) OR one_shl (lse_rt d) OR one_shl (lse_rn d);
          s1 = pick_scratch mask;
          mask = mask OR one_shl s1;
          s2 = pick_scratch mask;
          head = [enc_str_pre s1, enc_str_pre s2, enc_mrs_nzcv s1, enc_str_pre s1];
          loop = [enc_ldxr (lse_size d) (lse_acquire d) s2 (lse_rn d),
                  enc_cmp is_x s2 (lse_rs d),
                  enc_b_cond 3 COND_NE,
                  enc_stxr (lse_size d) (lse_release d) s1 (lse_rt d) (lse_rn d),
                  enc_cbnz_w s1 (- 4)];
          tail = [ENC_CLREX]
                 @ (if lse_rs d \<noteq> 31 then [enc_mov is_x (lse_rs d) s2] else [])
                 @ [enc_ldr_post s1, enc_msr_nzcv s1, enc_ldr_post s2, enc_ldr_post s1];
          code = head @ loop @ tail
      in code @ [enc_b (word_offset (orig_addr + 4) (island + 4 * of_nat (length code)))])"

definition emit_rmw :: "lse_decoded \<Rightarrow> u64 \<Rightarrow> u64 \<Rightarrow> u32 list" where
  "emit_rmw d island orig_addr =
     (let is_x = (lse_size d = 3);
          mask = one_shl 31 OR one_shl (lse_rs d) OR one_shl (lse_rn d);
          mask = (if lse_rt d \<noteq> 31 then mask OR one_shl (lse_rt d) else mask);
          s1 = pick_scratch mask;
          mask = mask OR one_shl s1;
          s2 = pick_scratch mask;
          mask = mask OR one_shl s2;
          s3 = pick_scratch mask;
          head = [enc_str_pre s1, enc_str_pre s2, enc_str_pre s3, enc_mrs_nzcv s1, enc_str_pre s1];
          body = [enc_ldxr (lse_size d) (lse_acquire d) s1 (lse_rn d)]
                 @ emit_compute d s1 s2 s3
                 @ [enc_stxr (lse_size d) (lse_release d) s3 s2 (lse_rn d)];
          loop = body @ [enc_cbnz_w s3 (- of_nat (length body))];
          tail = (if lse_rt d \<noteq> 31 then [enc_mov is_x (lse_rt d) s1] else [])
                 @ [enc_ldr_post s1, enc_msr_nzcv s1,
                    enc_ldr_post s3, enc_ldr_post s2, enc_ldr_post s1];
          code = head @ loop @ tail
      in code @ [enc_b (word_offset (orig_addr + 4) (island + 4 * of_nat (length code)))])"

definition emit_island :: "lse_decoded \<Rightarrow> u64 \<Rightarrow> u64 \<Rightarrow> u32 list" where
  "emit_island d island orig_addr =
     (if lse_op d = LSE_CAS then emit_cas d island orig_addr else emit_rmw d island orig_addr)"

section \<open>BCAX\<close>

definition decode_bcax :: "u32 \<Rightarrow> (u32 \<times> u32 \<times> u32 \<times> u32) option" where
  "decode_bcax instr =
     (if instr AND 0xFFE08000 \<noteq> 0xCE200000 then None
      else let vd = instr AND 0x1F;
               vn = drop_bit 5 instr AND 0x1F;
               va = drop_bit 10 instr AND 0x1F;
               vm = drop_bit 16 instr AND 0x1F
           in Some (vd, vn, vm, va))"

definition pick_vtmp :: "u32 \<Rightarrow> u32" where
  "pick_vtmp used =
     (case find (\<lambda>r. used AND push_bit (unat r) 1 = 0) (map of_nat (rev [0..<32])) of
        Some r \<Rightarrow> r
      | None \<Rightarrow> 31)"

definition emit_bcax_island :: "u32 \<Rightarrow> u32 \<Rightarrow> u32 \<Rightarrow> u32 \<Rightarrow> u64 \<Rightarrow> u64 \<Rightarrow> u32 list" where
  "emit_bcax_island vd vn vm va island orig_addr =
     (let code =
        (if va = vd then [enc_neon_bic vd vm vd, enc_neon_eor vd vn vd]
         else
           let used = one_shl vd OR one_shl vn OR one_shl vm OR one_shl va;
               vtmp = pick_vtmp used
           in [enc_str_q_pre vtmp, enc_neon_bic vtmp vm va, enc_neon_eor vd vn vtmp,
               enc_ldr_q_post vtmp])
      in code @ [enc_b (word_offset (orig_addr + 4) (island + 4 * of_nat (length code)))])"

section \<open>Patching a text section\<close>

text \<open>The words reserved for the islands of a text section, in bytes.\<close>

fun pool_words :: "u32 list \<Rightarrow> nat" where
  "pool_words [] = 0"
| "pool_words (w # ws) =
     (case decode_lse w of
        Some d \<Rightarrow> 24
      | None \<Rightarrow> (case decode_bcax w of Some _ \<Rightarrow> 5 | None \<Rightarrow> 0)) + pool_words ws"

definition isa_emul_estimate_pool_size :: "u32 list \<Rightarrow> nat" where
  "isa_emul_estimate_pool_size code = pool_words code * 4"

text \<open>
  The patching loop over the words from address \<open>addr\<close> on: the patched words, the words written
  to the pool from \<open>island\<close> on, and the number of patches.  A pool that is too small ends the
  loop; an island out of branch range leaves the instruction as it is.
\<close>

definition out_of_b_range :: "u64 \<Rightarrow> u64 \<Rightarrow> bool" where
  "out_of_b_range island addr =
     (let offset = sint (signed_drop_bit 2 (island - addr))
      in offset > 0x01FFFFFF \<or> offset < - 0x02000000)"

definition island_for :: "u32 \<Rightarrow> u64 \<Rightarrow> u64 \<Rightarrow> (nat \<times> u32 list) option" where
  "island_for w island addr =
     (case decode_lse w of
        Some d \<Rightarrow> Some (24, emit_island d island addr)
      | None \<Rightarrow>
        (case decode_bcax w of
           Some (vd, vn, vm, va) \<Rightarrow> Some (5, emit_bcax_island vd vn vm va island addr)
         | None \<Rightarrow> None))"

fun isa_emul_patch_from ::
  "u64 \<Rightarrow> u32 list \<Rightarrow> u64 \<Rightarrow> u64 \<Rightarrow> u32 list \<times> u32 list \<times> nat" where
  "isa_emul_patch_from addr [] island pool_end = ([], [], 0)"
| "isa_emul_patch_from addr (w # ws) island pool_end =
     (case island_for w island addr of
        Some (reserve, words) \<Rightarrow>
          (if island + 4 * of_nat reserve > pool_end then (w # ws, [], 0)
           else if out_of_b_range island addr then
             (case isa_emul_patch_from (addr + 4) ws island pool_end of
                (code', pool, n) \<Rightarrow> (w # code', pool, n))
           else
             (case isa_emul_patch_from (addr + 4) ws (island + 4 * of_nat (length words)) pool_end of
                (code', pool, n) \<Rightarrow> (enc_b (word_offset island addr) # code', words @ pool, Suc n)))
      | None \<Rightarrow>
          (case isa_emul_patch_from (addr + 4) ws island pool_end of
             (code', pool, n) \<Rightarrow> (w # code', pool, n)))"

definition isa_emul_patch :: "u64 \<Rightarrow> u32 list \<Rightarrow> u64 \<Rightarrow> u64 \<Rightarrow> u32 list \<times> u32 list \<times> u64 \<times> nat" where
  "isa_emul_patch code_addr code pool_ptr pool_end =
     (case isa_emul_patch_from code_addr code pool_ptr pool_end of
        (code', pool, n) \<Rightarrow> (code', pool, pool_ptr + 4 * of_nat (length pool), n))"

section \<open>Scratch registers avoid the operands\<close>

lemma bit_one_shl: "r < 32 \<Longrightarrow> bit (one_shl r) n \<longleftrightarrow> n = unat r"
proof -
  assume "r < 32"
  then have "unat r < 32" by unat_arith
  then show ?thesis by (auto simp: one_shl_def bit_simps)
qed

lemma and_one_shl_zero:
  assumes "unat r < 32"
  shows "m AND push_bit (unat r) 1 = 0 \<longleftrightarrow> \<not> bit (m :: u32) (unat r)"
proof -
  have "bit (m AND push_bit (unat r) 1) n \<longleftrightarrow> bit m (unat r) \<and> n = unat r" for n
    using assms by (auto simp: bit_simps)
  then show ?thesis by (metis bit_0_eq bit_word_eqI bot_apply bot_bool_def)
qed

lemma find_Some_iff_free:
  assumes "find P xs = Some r" shows "P r" and "r \<in> set xs"
  using assms by (auto simp: find_Some_iff)

definition first_choice :: "u32 list" where
  "first_choice = [16, 15, 14, 13, 12, 11, 10, 9]"

lemma pick_scratch_free:
  fixes m :: u32 and L :: "u32 list"
  assumes "\<And>n. bit m n \<Longrightarrow> n \<in> unat ` set L" and "length L < 8"
  shows "\<not> bit m (unat (pick_scratch m))"
    and "pick_scratch m \<in> set first_choice"
proof -
  let ?P = "\<lambda>r. m AND push_bit (unat r) 1 = 0"
  have lt: "unat r < 32" if "r \<in> set first_choice" for r
    using that by (auto simp: first_choice_def)
  have "find ?P first_choice \<noteq> None"
  proof
    assume "find ?P first_choice = None"
    then have "\<forall>r \<in> set first_choice. \<not> ?P r" unfolding find_None_iff by blast
    then have "\<forall>r \<in> set first_choice. bit m (unat r)" using and_one_shl_zero lt by blast
    then have "unat ` set first_choice \<subseteq> unat ` set L" using assms(1) by blast
    then have "set first_choice \<subseteq> set L"
      by (simp add: inj_image_subset_iff inj_def word_unat_eq_iff)
    then have "card (set first_choice) \<le> card (set L)" by (intro card_mono) auto
    also have "\<dots> < 8" using assms(2) card_length [of L] by simp
    finally show False by (simp add: first_choice_def)
  qed
  then obtain r where r: "find ?P first_choice = Some r" by auto
  then have "pick_scratch m = r" by (simp add: pick_scratch_def first_choice_def)
  then show "\<not> bit m (unat (pick_scratch m))" "pick_scratch m \<in> set first_choice"
    using find_Some_iff_free [OF r] lt and_one_shl_zero [of r m] by blast+
qed

lemma first_choice_reg: "r \<in> set first_choice \<Longrightarrow> r < 32 \<and> r \<noteq> 31"
  by (auto simp: first_choice_def)

lemma pick_scratch_mask:
  fixes m :: u32 and L :: "u32 list"
  assumes "\<And>n. bit m n \<longleftrightarrow> n \<in> unat ` set L" and "length L < 8"
  shows "pick_scratch m < 32" and "pick_scratch m \<notin> set L"
    and "\<And>n. bit (m OR one_shl (pick_scratch m)) n \<longleftrightarrow> n \<in> unat ` set (pick_scratch m # L)"
  using pick_scratch_free [of m L] assms first_choice_reg [of "pick_scratch m"]
  by (auto simp: bit_or_iff bit_one_shl)


text \<open>The three scratch registers of a read-modify-write island.\<close>

lemma scratch_three:
  fixes ra rb rc :: u32
  assumes "ra < 32" "rb < 32" "rc < 32"
    and "m = (let m = one_shl 31 OR one_shl ra OR one_shl rb in if rc \<noteq> 31 then m OR one_shl rc else m)"
    and "s1 = pick_scratch m" and "s2 = pick_scratch (m OR one_shl s1)"
    and "s3 = pick_scratch ((m OR one_shl s1) OR one_shl s2)"
  shows "s1 < 32" "s2 < 32" "s3 < 32" "distinct [s1, s2, s3, 31]" "{s1, s2, s3} \<inter> {ra, rb, rc} = {}"
proof -
  have m: "bit m n \<longleftrightarrow> n \<in> unat ` set [31, ra, rb, rc]" for n
    using assms(1-4) by (auto simp: bit_or_iff bit_one_shl Let_def split: if_splits)
  note p1 = pick_scratch_mask [OF m, simplified, folded assms(5)]
  show "s1 < 32" using p1(1) .
  have m2: "bit (m OR one_shl s1) n \<longleftrightarrow> n \<in> unat ` set [s1, 31, ra, rb, rc]" for n
    using p1(3) by simp
  note p2 = pick_scratch_mask [OF m2, simplified, folded assms(6)]
  show "s2 < 32" using p2(1) .
  have m3: "bit ((m OR one_shl s1) OR one_shl s2) n \<longleftrightarrow> n \<in> unat ` set [s2, s1, 31, ra, rb, rc]" for n
    using p2(3) by simp
  note p3 = pick_scratch_mask [OF m3, simplified, folded assms(7)]
  show "s3 < 32" using p3(1) .
  show "distinct [s1, s2, s3, 31]" using p1(2) p2(2) p3(2) by auto
  show "{s1, s2, s3} \<inter> {ra, rb, rc} = {}" using p1(2) p2(2) p3(2) by auto
qed

end
