(* ===== verification/Lse_Loop.thy ===== *)
theory Lse_Loop
  imports Isa_Emul
begin

text \<open>
  What the atomics mean, and the load-exclusive/store-exclusive loop that stands for them.  The
  locale \<open>rmw_sequence\<close> is the interface between the loop and the instructions between the two
  exclusives; its lemmas show that the loop, entered with any finite interference, stores the result
  of the operation on the memory that the interference leaves, and restores what the prologue saved.
\<close>

section \<open>What the instructions mean\<close>

definition lse_bits :: "lse_decoded \<Rightarrow> nat" where
  "lse_bits d = 8 * nbytes (lse_size d)"

definition sval :: "nat \<Rightarrow> u64 \<Rightarrow> int" where
  "sval n v = sint (signed_take_bit (n - 1) v)"

definition lse_result :: "lse_decoded \<Rightarrow> u64 \<Rightarrow> u64 \<Rightarrow> u64" where
  "lse_result d old v =
     (let n = lse_bits d in
      case lse_op d of
        LSE_LDADD \<Rightarrow> old + v
      | LSE_LDCLR \<Rightarrow> old AND NOT v
      | LSE_LDEOR \<Rightarrow> old XOR v
      | LSE_LDSET \<Rightarrow> old OR v
      | LSE_LDSMAX \<Rightarrow> if sval n old > sval n v then old else v
      | LSE_LDSMIN \<Rightarrow> if sval n old > sval n v then v else old
      | LSE_LDUMAX \<Rightarrow> if take_bit n old > take_bit n v then old else v
      | LSE_LDUMIN \<Rightarrow> if take_bit n old > take_bit n v then v else old
      | _ \<Rightarrow> v)"

definition lse_atomic :: "lse_decoded \<Rightarrow> cpu \<Rightarrow> cpu" where
  "lse_atomic d s =
     (let a = base_x s (lse_rn d);
          old = load (lse_size d) (mem s) a
      in adv
        (if lse_op d = LSE_CAS then
           set_x (lse_rs d) old
             (if old = take_bit (lse_bits d) (get_x s (lse_rs d))
              then s\<lparr>mem := store (lse_size d) (mem s) a (get_x s (lse_rt d))\<rparr> else s)
         else
           set_x (lse_rt d) old
             (s\<lparr>mem := store (lse_size d) (mem s) a (lse_result d old (get_x s (lse_rs d)))\<rparr>)))"

text \<open>
  The guest cannot tell two states apart: everything but the exclusive monitor and the 64 bytes
  below the stack pointer is the same.
\<close>

definition guest_equiv :: "cpu \<Rightarrow> cpu \<Rightarrow> bool" where
  "guest_equiv s t \<longleftrightarrow>
     pc s = pc t \<and> sp s = sp t \<and> nzcv s = nzcv t \<and> vreg s = vreg t \<and>
     (\<forall>r. r \<noteq> 31 \<longrightarrow> xreg s r = xreg t r) \<and> agree_outside (sp t - 64) 64 (mem s) (mem t)"

section \<open>The exclusive loop\<close>

text \<open>
  What a read-modify-write sequence promises the loop around it: its instructions run straight
  through, change only the two result registers and the flags, and leave the new value in the low
  bits of the first one.
\<close>

definition computes :: "lse_decoded \<Rightarrow> (u64 \<Rightarrow> u64 \<Rightarrow> u64) \<Rightarrow> (u64 \<Rightarrow> bool) \<Rightarrow> u32 \<Rightarrow> u32 \<Rightarrow> u32 \<Rightarrow> instr list \<Rightarrow> bool" where
  "computes d f adm s1 s2 s3 is \<longleftrightarrow>
     list_all straight is \<and>
     (\<forall>s. let s' = fold exec is s in
        sp s' = sp s \<and> mem s' = mem s \<and> excl s' = excl s \<and> vreg s' = vreg s \<and>
        interference s' = interference s \<and>
        (\<forall>r. r \<notin> {s2, s3} \<longrightarrow> xreg s' r = xreg s r) \<and>
        (take_bit (lse_bits d) (xreg s s1) = xreg s s1 \<longrightarrow> adm (get_x s (lse_rs d)) \<longrightarrow>
           take_bit (lse_bits d) (xreg s' s2)
             = take_bit (lse_bits d) (f (xreg s s1) (get_x s (lse_rs d)))))"

definition lse_regs :: "lse_decoded \<Rightarrow> u32 \<Rightarrow> u32 \<Rightarrow> u32 \<Rightarrow> bool" where
  "lse_regs d s1 s2 s3 \<longleftrightarrow>
     s1 < 32 \<and> s2 < 32 \<and> s3 < 32 \<and> distinct [s1, s2, s3, 31] \<and>
     {s1, s2, s3} \<inter> {lse_rs d, lse_rn d, lse_rt d} = {} \<and>
     lse_rs d < 32 \<and> lse_rt d < 32 \<and> lse_rn d < 32 \<and> lse_size d < 4"

text \<open>The stack area of an island: the 64 bytes below the stack pointer, in four slots.\<close>

definition slots :: "u64 \<Rightarrow> memory \<Rightarrow> u64 list" where
  "slots t m = [load 3 m (t - 16), load 3 m (t - 32), load 3 m (t - 48), load 3 m (t - 64)]"

lemma slot_apart:
  assumes "apart a n (t - 64) 64" and "k \<in> {16, 32, 48, 64}"
  shows "apart (t - k) 8 a n"
proof -
  obtain j where eq: "t - k = t - 64 + of_nat j" and "j + 8 \<le> 64"
    using assms(2) by (elim insertE emptyE) (rule that [of 48] that [of 32] that [of 16] that [of 0]; simp)+
  then have "apart a n (t - 64 + of_nat j) 8" by (intro apart_subrange [OF assms(1)]) simp_all
  then show ?thesis unfolding eq by (rule apart_sym)
qed

lemma slots_store:
  assumes "apart a (nbytes sz) (t - 64) 64" and "sz < 4"
  shows "slots t (store sz m a v) = slots t m"
  using slot_apart [OF assms(1)] assms(2) by (simp add: slots_def load_store_apart)

lemma slot_in_area:
  assumes "k \<in> {16, 32, 48, 64 :: u64}" and "i < 8"
  shows "in_range (t - 64) 64 (t - k + of_nat i)"
proof -
  have "t - k + of_nat i - (t - 64) = 64 - k + of_nat i" by simp
  moreover have "i \<in> {0,1,2,3,4,5,6,7}" using assms(2) by auto
  ultimately show ?thesis using assms(1) by (auto simp: in_range_def)
qed

lemma slots_foreign:
  assumes "foreign (t - 64) 64 f"
  shows "slots t (f m) = slots t m"
proof -
  have "load 3 (f m) (t - k) = load 3 m (t - k)" if "k \<in> {16, 32, 48, 64}" for k
    unfolding load_def using slot_in_area [OF that]
    by (subst mem_read_foreign [OF assms]) simp_all
  then show ?thesis by (simp add: slots_def)
qed

text \<open>
  The state inside the loop of an island entered in \<open>s0\<close>: registers other than the scratch
  registers are unchanged, the slots hold what was saved, and memory outside the stack area is
  \<open>m\<close>.
\<close>

definition in_island :: "cpu \<Rightarrow> u32 set \<Rightarrow> u64 list \<Rightarrow> memory \<Rightarrow> cpu \<Rightarrow> bool" where
  "in_island s0 scr vs m s \<longleftrightarrow>
     sp s = sp s0 - 64 \<and> vreg s = vreg s0 \<and> (\<forall>r. r \<notin> scr \<longrightarrow> xreg s r = xreg s0 r) \<and>
     slots (sp s0) (mem s) = vs \<and> agree_outside (sp s0 - 64) 64 (mem s) m"

text \<open>Memory after all pending interference.\<close>

definition settled :: "interferer list \<Rightarrow> memory \<Rightarrow> memory" where
  "settled fs m = fold (\<lambda>f. f) fs m"

lemma back_offset:
  assumes "2 \<le> k" and "k \<le> 8"
  shows "push_bit 2 (signed_take_bit 18 (ucast (- of_nat k :: u32))) = (- (4 * of_nat k) :: u64)"
proof -
  have "k \<in> {2, 3, 4, 5, 6, 7, 8}" using assms by auto
  then show ?thesis by (auto simp: signed_take_bit_def mask_numeral)
qed

lemma store_slot_agree:
  assumes "k \<in> {16, 32, 48, 64 :: u64}" and "agree_outside (t - 64) 64 m m'"
  shows "agree_outside (t - 64) 64 (store 3 m (t - k) v) m'"
proof -
  have "agree_outside (t - 64) 64 (store 3 m (t - k) v) m"
    unfolding store_def by (rule mem_write_inside) (simp add: slot_in_area [OF assms(1)])
  then show ?thesis using assms(2) by (rule agree_outside_trans)
qed

lemma nzcv_round_trip [simp]: "ucast (drop_bit 28 (push_bit 28 (ucast f :: u64))) = (f :: 4 word)"
  by (rule bit_word_eqI) (auto simp: bit_simps)

definition rmw_head :: "u32 \<Rightarrow> u32 \<Rightarrow> u32 \<Rightarrow> u32 list" where
  "rmw_head s1 s2 s3 =
     [enc_str_pre s1, enc_str_pre s2, enc_str_pre s3, enc_mrs_nzcv s1, enc_str_pre s1]"

definition rmw_tail :: "lse_decoded \<Rightarrow> u32 \<Rightarrow> u32 \<Rightarrow> u32 \<Rightarrow> u32 list" where
  "rmw_tail d s1 s2 s3 =
     (if lse_rt d \<noteq> 31 then [enc_mov (lse_size d = 3) (lse_rt d) s1] else [])
     @ [enc_ldr_post s1, enc_msr_nzcv s1, enc_ldr_post s3, enc_ldr_post s2, enc_ldr_post s1]"

definition saved_by :: "cpu \<Rightarrow> u32 \<Rightarrow> u32 \<Rightarrow> u32 \<Rightarrow> u64 list" where
  "saved_by s0 s1 s2 s3 = [xreg s0 s1, xreg s0 s2, xreg s0 s3, push_bit 28 (ucast (nzcv s0))]"

lemma head_reaches:
  assumes regs: "lse_regs d s1 s2 s3" and code: "code_at code (pc s0) (rmw_head s1 s2 s3)"
  obtains s where "reaches code s0 s" and "pc s = pc s0 + 20" and "interference s = interference s0"
    and "in_island s0 {s1, s2, s3} (saved_by s0 s1 s2 s3) (mem s0) s"
proof -
  let ?is = "[STR_pre s1, STR_pre s2, STR_pre s3, MRS_NZCV s1, STR_pre s1]"
  have rg: "s1 < 32" "s2 < 32" "s3 < 32" "distinct [s1, s2, s3, 31]"
    using regs by (simp_all add: lse_regs_def)
  have "map decode (rmw_head s1 s2 s3) = map Some ?is" using rg by (simp add: rmw_head_def)
  from reaches_straight [OF code this] have r: "reaches code s0 (fold exec ?is s0)" by simp
  have sub: "sp s0 - 16 - 16 = sp s0 - 32" "sp s0 - 32 - 16 = sp s0 - 48" "sp s0 - 48 - 16 = sp s0 - 64"
    by simp_all
  let ?m = "store 3 (store 3 (store 3 (store 3 (mem s0) (sp s0 - 16) (xreg s0 s1))
    (sp s0 - 32) (xreg s0 s2)) (sp s0 - 48) (xreg s0 s3)) (sp s0 - 64) (push_bit 28 (ucast (nzcv s0)))"
  have m: "mem (fold exec ?is s0) = ?m" using rg by (simp add: get_x_def sub)
  have "slots (sp s0) ?m = saved_by s0 s1 s2 s3"
    by (simp add: slots_def saved_by_def memory)
  moreover have "agree_outside (sp s0 - 64) 64 ?m (mem s0)"
    by (intro store_slot_agree) simp_all
  ultimately have "in_island s0 {s1, s2, s3} (saved_by s0 s1 s2 s3) (mem s0) (fold exec ?is s0)"
    unfolding in_island_def m using rg by (simp add: sub)
  then show thesis using rg by (intro that [OF r]) simp_all
qed

lemma width_small:
  assumes "lse_size d < 4" and "take_bit (lse_bits d) v = v"
  shows "width (lse_size d = 3) v = v"
proof (cases "lse_size d = 3")
  case False
  with assms(1) have "lse_bits d \<le> 32"
    by (cases rule: size_cases) (simp_all add: lse_bits_def nbytes_def)
  then have "take_bit 32 v = v" using assms(2) by (metis min.absorb2 take_bit_take_bit)
  then show ?thesis using False by (simp add: width_def)
qed (simp add: width_def)

lemma tail_reaches:
  assumes regs: "lse_regs d s1 s2 s3" and code: "code_at code (pc s) (rmw_tail d s1 s2 s3)"
    and inv: "in_island s0 {s1, s2, s3} (saved_by s0 s1 s2 s3) m s"
    and val: "take_bit (lse_bits d) (xreg s s1) = xreg s s1"
  obtains s' where "reaches code s s'"
    and "pc s' = pc s + 4 * of_nat (length (rmw_tail d s1 s2 s3))"
    and "interference s' = interference s" and "sp s' = sp s0" and "nzcv s' = nzcv s0" and "vreg s' = vreg s0"
    and "mem s' = mem s" and "\<forall>r. r \<noteq> 31 \<longrightarrow> xreg s' r = (if r = lse_rt d then xreg s s1 else xreg s0 r)"
proof -
  let ?ms = "if lse_rt d \<noteq> 31 then [ORR (lse_size d = 3) (lse_rt d) 31 s1] else []"
  let ?is = "?ms @ [LDR_post s1, MSR_NZCV s1, LDR_post s3, LDR_post s2, LDR_post s1]"
  have rg: "s1 < 32" "s2 < 32" "s3 < 32" "distinct [s1, s2, s3, 31]" "lse_rt d < 32" "lse_size d < 4"
    "lse_rt d \<noteq> s1" "lse_rt d \<noteq> s2" "lse_rt d \<noteq> s3"
    using regs by (auto simp: lse_regs_def)
  have dec: "map decode (rmw_tail d s1 s2 s3) = map Some ?is" using rg by (simp add: rmw_tail_def)
  have str: "list_all straight ?is" by simp
  have r: "reaches code s (fold exec ?is s)" using reaches_straight [OF code dec str] .
  have "width (lse_size d = 3) (xreg s s1) = xreg s s1"
    using width_small [of d "xreg s s1"] rg(6) val by simp
  moreover have sl: "sp s = sp s0 - 64" "load 3 (mem s) (sp s0 - 16) = xreg s0 s1" "load 3 (mem s) (sp s0 - 32) = xreg s0 s2"
     "load 3 (mem s) (sp s0 - 48) = xreg s0 s3" "load 3 (mem s) (sp s0 - 64) = push_bit 28 (ucast (nzcv s0))"
    using inv by (simp_all add: in_island_def slots_def saved_by_def)
  moreover have sub: "sp s0 - 64 + 16 = sp s0 - 48" "sp s0 - 48 + 16 = sp s0 - 32" "sp s0 - 32 + 16 = sp s0 - 16" by simp_all
  ultimately show thesis using pc_fold_straight [OF str, of s] inv rg dec
    by (intro that [OF r]) (simp_all add: get_x_def in_island_def rmw_tail_def)

qed
locale rmw_sequence =
  fixes emit :: "lse_decoded \<Rightarrow> u32 \<Rightarrow> u32 \<Rightarrow> u32 \<Rightarrow> u32 list"
    and result :: "lse_decoded \<Rightarrow> u64 \<Rightarrow> u64 \<Rightarrow> u64"
    and admissible :: "lse_decoded \<Rightarrow> u64 \<Rightarrow> bool"
  assumes emit_computes:
    "lse_regs d s1 s2 s3 \<Longrightarrow> lse_op d \<noteq> LSE_CAS \<Longrightarrow> lse_op d \<noteq> LSE_NONE \<Longrightarrow>
       \<exists>is. map decode (emit d s1 s2 s3) = map Some is \<and>
         computes d (result d) (admissible d) s1 s2 s3 is"
    and emit_length: "length (emit d s1 s2 s3) \<le> 4"
begin

definition rmw_body :: "lse_decoded \<Rightarrow> u32 \<Rightarrow> u32 \<Rightarrow> u32 \<Rightarrow> u32 list" where
  "rmw_body d s1 s2 s3 =
     [enc_ldxr (lse_size d) (lse_acquire d) s1 (lse_rn d)] @ emit d s1 s2 s3
     @ [enc_stxr (lse_size d) (lse_release d) s3 s2 (lse_rn d)]"

text \<open>
  The abbreviations of the following lemmas: the location, its old value in memory \<open>m\<close>, and
  memory after the operation.
\<close>

definition loc :: "lse_decoded \<Rightarrow> cpu \<Rightarrow> u64" where
  "loc d s0 = xreg s0 (lse_rn d)"

definition old_value :: "lse_decoded \<Rightarrow> cpu \<Rightarrow> memory \<Rightarrow> u64" where
  "old_value d s0 m = load (lse_size d) m (loc d s0)"

definition updated :: "lse_decoded \<Rightarrow> cpu \<Rightarrow> memory \<Rightarrow> memory" where
  "updated d s0 m =
     store (lse_size d) m (loc d s0) (result d (old_value d s0 m) (get_x s0 (lse_rs d)))"

definition pre_store :: "lse_decoded \<Rightarrow> cpu \<Rightarrow> u32 set \<Rightarrow> u32 \<Rightarrow> u32 \<Rightarrow> u64 list \<Rightarrow> memory \<Rightarrow> cpu \<Rightarrow> bool" where
  "pre_store d s0 scr s1 s2 vs m v \<longleftrightarrow>
     in_island s0 scr vs m v \<and> excl v = Some (loc d s0, lse_size d) \<and> xreg v s1 = old_value d s0 m \<and>
     base_x v (lse_rn d) = loc d s0 \<and>
     take_bit (lse_bits d) (xreg v s2)
       = take_bit (lse_bits d) (result d (old_value d s0 m) (get_x s0 (lse_rs d)))"

lemma body_compute:
  assumes regs: "lse_regs d s1 s2 s3" and op: "lse_op d \<noteq> LSE_CAS" "lse_op d \<noteq> LSE_NONE"
    and base: "lse_rn d \<noteq> 31" and adm: "admissible d (get_x s0 (lse_rs d))"
    and area: "apart (xreg s0 (lse_rn d)) (nbytes (lse_size d)) (sp s0 - 64) 64"
    and code: "code_at code (pc s) (rmw_body d s1 s2 s3)"
    and inv: "in_island s0 {s1, s2, s3} vs m s"
  obtains v where "reaches code s (exec (STXR (lse_size d) s3 s2 (lse_rn d)) v)"
    and "pc v + 4 = pc s + 4 * of_nat (length (rmw_body d s1 s2 s3))"
    and "interference v = interference s" and "pre_store d s0 {s1, s2, s3} s1 s2 vs m v"
proof -
  obtain cs where cs: "map decode (emit d s1 s2 s3) = map Some cs"
    and comp: "computes d (result d) (admissible d) s1 s2 s3 cs"
    using emit_computes [OF regs op] by blast
  define ins where "ins = LDXR (lse_size d) s1 (lse_rn d) # cs @ [STXR (lse_size d) s3 s2 (lse_rn d)]"
  define u where "u = exec (LDXR (lse_size d) s1 (lse_rn d)) s"
  define v where "v = fold exec cs u"
  have dec: "map decode (rmw_body d s1 s2 s3) = map Some ins"
    using regs cs by (simp add: rmw_body_def ins_def lse_regs_def)
  have str: "list_all straight ins" using comp by (simp add: computes_def ins_def)
  have fw: "fold exec ins s = exec (STXR (lse_size d) s3 s2 (lse_rn d)) v"
    by (simp add: ins_def u_def v_def)
  have r: "reaches code s (exec (STXR (lse_size d) s3 s2 (lse_rn d)) v)"
    using reaches_straight [OF code dec str] fw by simp
  have "length ins = length (rmw_body d s1 s2 s3)" using dec by (metis length_map)
  then have p: "pc v + 4 = pc s + 4 * of_nat (length (rmw_body d s1 s2 s3))"
    using pc_fold_straight [OF str, of s] fw by simp
  have rg: "distinct [s1, s2, s3, 31]" "{s1, s2, s3} \<inter> {lse_rs d, lse_rn d, lse_rt d} = {}" "lse_size d < 4"
    using regs by (simp_all add: lse_regs_def)
  have inv': "\<And>r. r \<notin> {s1, s2, s3} \<Longrightarrow> xreg s r = xreg s0 r" "agree_outside (sp s0 - 64) 64 (mem s) m"
    using inv by (simp_all add: in_island_def)
  have ba: "base_x s (lse_rn d) = loc d s0" using base inv' rg by (auto simp: base_x_def loc_def)
  have "load (lse_size d) (mem s) (loc d s0) = old_value d s0 m"
    using load_agree [OF inv'(2) area rg(3)] by (simp add: loc_def old_value_def)
  then have u: "u = adv (s\<lparr>xreg := (xreg s)(s1 := old_value d s0 m), excl := Some (loc d s0, lse_size d)\<rparr>)"
    using rg ba by (simp add: u_def set_x_def)
  have gu: "get_x u (lse_rs d) = get_x s0 (lse_rs d)" using inv' rg by (auto simp: get_x_def u)
  have "interference v = interference s" "pre_store d s0 {s1, s2, s3} s1 s2 vs m v"
    using comp inv rg gu adm base load_take_bit [of "lse_size d" m "loc d s0"]
    by (auto simp: computes_def v_def Let_def lse_bits_def u pre_store_def in_island_def old_value_def base_x_def loc_def)
  with r p show thesis by (rule that)
qed

lemma body_last:
  assumes regs: "lse_regs d s1 s2 s3" and op: "lse_op d \<noteq> LSE_CAS" "lse_op d \<noteq> LSE_NONE"
    and base: "lse_rn d \<noteq> 31" and adm: "admissible d (get_x s0 (lse_rs d))"
    and area: "apart (xreg s0 (lse_rn d)) (nbytes (lse_size d)) (sp s0 - 64) 64"
    and code: "code_at code (pc s) (rmw_body d s1 s2 s3)"
    and inv: "in_island s0 {s1, s2, s3} vs m s"
    and none: "interference s = []"
  obtains w where "reaches code s w" and "pc w = pc s + 4 * of_nat (length (rmw_body d s1 s2 s3))"
    and "xreg w s3 = 0" and "interference w = []" and "xreg w s1 = old_value d s0 m"
    and "in_island s0 {s1, s2, s3} vs (updated d s0 m) w"
proof -
  obtain v where v: "reaches code s (exec (STXR (lse_size d) s3 s2 (lse_rn d)) v)"
    "pc v + 4 = pc s + 4 * of_nat (length (rmw_body d s1 s2 s3))"
    "interference v = interference s" "pre_store d s0 {s1, s2, s3} s1 s2 vs m v"
    by (rule body_compute [OF regs op base adm area code inv])
  have rg: "distinct [s1, s2, s3, 31]" "lse_size d < 4" using regs by (simp_all add: lse_regs_def)
  let ?new = "result d (old_value d s0 m) (get_x s0 (lse_rs d))"
  have "store (lse_size d) (mem v) (loc d s0) (xreg v s2) = store (lse_size d) (mem v) (loc d s0) ?new"
    using v(4) by (intro store_cong) (simp add: lse_bits_def pre_store_def)
  then have "exec (STXR (lse_size d) s3 s2 (lse_rn d)) v =
      adv (set_x s3 0 (v\<lparr>mem := store (lse_size d) (mem v) (loc d s0) ?new, excl := None\<rparr>))"
    using v none rg by (simp add: exec_stxr_def pre_store_def get_x_def)
  moreover have "in_island s0 {s1, s2, s3} vs (updated d s0 m)
      (v\<lparr>mem := store (lse_size d) (mem v) (loc d s0) ?new\<rparr>)"
    using v(4) area rg slots_store [of "loc d s0" "lse_size d" "sp s0"] store_agree
    by (simp add: in_island_def pre_store_def updated_def loc_def)
  ultimately show thesis using v none rg
    by (intro that [OF v(1)]) (simp_all add: pre_store_def in_island_def)
qed

lemma body_retry:
  assumes regs: "lse_regs d s1 s2 s3" and op: "lse_op d \<noteq> LSE_CAS" "lse_op d \<noteq> LSE_NONE"
    and base: "lse_rn d \<noteq> 31" and adm: "admissible d (get_x s0 (lse_rs d))"
    and area: "apart (xreg s0 (lse_rn d)) (nbytes (lse_size d)) (sp s0 - 64) 64"
    and code: "code_at code (pc s) (rmw_body d s1 s2 s3)"
    and inv: "in_island s0 {s1, s2, s3} vs m s"
    and some: "interference s = f # fs" and frn: "foreign (sp s0 - 64) 64 f"
  obtains w where "reaches code s w" and "pc w = pc s + 4 * of_nat (length (rmw_body d s1 s2 s3))"
    and "xreg w s3 = 1" and "interference w = fs" and "in_island s0 {s1, s2, s3} vs (f m) w"
proof -
  obtain v where v: "reaches code s (exec (STXR (lse_size d) s3 s2 (lse_rn d)) v)"
    "pc v + 4 = pc s + 4 * of_nat (length (rmw_body d s1 s2 s3))"
    "interference v = interference s" "pre_store d s0 {s1, s2, s3} s1 s2 vs m v"
    by (rule body_compute [OF regs op base adm area code inv])
  have rg: "distinct [s1, s2, s3, 31]" using regs by (simp add: lse_regs_def)
  have "exec (STXR (lse_size d) s3 s2 (lse_rn d)) v =
      adv (set_x s3 1 (v\<lparr>mem := f (mem v), interference := fs, excl := None\<rparr>))"
    using v some by (simp add: exec_stxr_def)
  then show thesis
    using v rg slots_foreign [OF frn] foreign_agree [OF frn]
    by (intro that [OF v(1)]) (simp_all add: pre_store_def in_island_def)
qed

lemma loop_reaches:
  assumes regs: "lse_regs d s1 s2 s3" and op: "lse_op d \<noteq> LSE_CAS" "lse_op d \<noteq> LSE_NONE"
    and base: "lse_rn d \<noteq> 31" and adm: "admissible d (get_x s0 (lse_rs d))"
    and area: "apart (xreg s0 (lse_rn d)) (nbytes (lse_size d)) (sp s0 - 64) 64"
    and code: "code_at code a (rmw_body d s1 s2 s3
                 @ [enc_cbnz_w s3 (- of_nat (length (rmw_body d s1 s2 s3)))])"
    and "pc s = a" and "in_island s0 {s1, s2, s3} vs m s"
    and "list_all (foreign (sp s0 - 64) 64) (interference s)"
  shows "\<exists>s'. reaches code s s' \<and> pc s' = a + 4 * of_nat (length (rmw_body d s1 s2 s3) + 1) \<and>
     interference s' = [] \<and> xreg s' s1 = old_value d s0 (settled (interference s) m) \<and>
     in_island s0 {s1, s2, s3} vs (updated d s0 (settled (interference s) m)) s'"
  using assms(8-)
proof (induction "interference s" arbitrary: s m)
  case Nil
  let ?b = "rmw_body d s1 s2 s3"
  have cb: "code_at code (pc s) ?b"
    and cz: "code (a + 4 * of_nat (length ?b)) = enc_cbnz_w s3 (- of_nat (length ?b))"
    using code Nil.prems(1) by (simp_all add: code_at_append)
  have none: "interference s = []" using Nil.hyps by simp
  obtain w where w: "reaches code s w" "pc w = pc s + 4 * of_nat (length ?b)" "xreg w s3 = 0"
    "interference w = []" "xreg w s1 = old_value d s0 m"
    "in_island s0 {s1, s2, s3} vs (updated d s0 m) w"
    by (rule body_last [OF regs op base adm area cb Nil.prems(2) none])
  have "reaches code w (adv w)"
    using reaches_step [of code w] regs w cz Nil.prems(1) by (simp add: lse_regs_def get_x_def)
  then have "reaches code s (adv w)" using w(1) by (rule reaches_trans [rotated])
  then show ?case using w Nil.prems(1) none
    by (intro exI [of _ "adv w"]) (simp add: in_island_def settled_def algebra_simps)
next
  case (Cons f fs)
  let ?b = "rmw_body d s1 s2 s3"
  have cb: "code_at code (pc s) ?b"
    and cz: "code (a + 4 * of_nat (length ?b)) = enc_cbnz_w s3 (- of_nat (length ?b))"
    using code Cons.prems(1) by (simp_all add: code_at_append)
  have some: "interference s = f # fs" using Cons.hyps(2) by simp
  then have frn: "foreign (sp s0 - 64) 64 f" "list_all (foreign (sp s0 - 64) 64) fs"
    using Cons.prems(3) by simp_all
  obtain w where w: "reaches code s w" "pc w = pc s + 4 * of_nat (length ?b)"
    "xreg w s3 = 1" "interference w = fs" "in_island s0 {s1, s2, s3} vs (f m) w"
    by (rule body_retry [OF regs op base adm area cb Cons.prems(2) some frn(1)])
  define x where "x = w\<lparr>pc := a\<rparr>"
  have "2 \<le> length ?b" and "length ?b \<le> 8"
    using emit_length [of d s1 s2 s3] by (simp_all add: rmw_body_def)
  then have "reaches code w x"
    using reaches_step [of code w] regs w cz Cons.prems(1)
    by (simp add: lse_regs_def get_x_def back_offset x_def)
  then have sx: "reaches code s x" using w(1) by (rule reaches_trans [rotated])
  have "fs = interference x" "pc x = a" "in_island s0 {s1, s2, s3} vs (f m) x"
    "list_all (foreign (sp s0 - 64) 64) (interference x)"
    using w frn by (simp_all add: x_def in_island_def)
  from Cons.hyps(1) [OF this] show ?case
    using sx reaches_trans w(4) by (fastforce simp: x_def some settled_def)
qed

definition rmw_code :: "lse_decoded \<Rightarrow> u32 \<Rightarrow> u32 \<Rightarrow> u32 \<Rightarrow> u32 list" where
  "rmw_code d s1 s2 s3 =
     rmw_head s1 s2 s3
     @ (rmw_body d s1 s2 s3 @ [enc_cbnz_w s3 (- of_nat (length (rmw_body d s1 s2 s3)))])
     @ rmw_tail d s1 s2 s3"

lemma code_reaches:
  assumes regs: "lse_regs d s1 s2 s3" and op: "lse_op d \<noteq> LSE_CAS" "lse_op d \<noteq> LSE_NONE"
    and base: "lse_rn d \<noteq> 31" and adm: "admissible d (get_x s0 (lse_rs d))"
    and area: "apart (xreg s0 (lse_rn d)) (nbytes (lse_size d)) (sp s0 - 64) 64"
    and code: "code_at code (pc s0) (rmw_code d s1 s2 s3)"
    and frn: "list_all (foreign (sp s0 - 64) 64) (interference s0)"
    and M: "M = settled (interference s0) (mem s0)"
  shows "\<exists>s'. reaches code s0 s' \<and> pc s' = pc s0 + 4 * of_nat (length (rmw_code d s1 s2 s3)) \<and>
    interference s' = [] \<and> sp s' = sp s0 \<and> nzcv s' = nzcv s0 \<and> vreg s' = vreg s0 \<and>
    agree_outside (sp s0 - 64) 64 (mem s') (updated d s0 M) \<and>
    (\<forall>r. r \<noteq> 31 \<longrightarrow> xreg s' r = (if r = lse_rt d then old_value d s0 M else xreg s0 r))"
proof -
  let ?b = "rmw_body d s1 s2 s3"
  let ?loop = "?b @ [enc_cbnz_w s3 (- of_nat (length ?b))]"
  have ch: "code_at code (pc s0) (rmw_head s1 s2 s3)" and cl: "code_at code (pc s0 + 20) ?loop"
    and ct: "code_at code (pc s0 + 20 + 4 * of_nat (length ?b + 1)) (rmw_tail d s1 s2 s3)"
    using code by (simp_all add: rmw_code_def code_at_append rmw_head_def algebra_simps)
  obtain p where p: "reaches code s0 p" "pc p = pc s0 + 20" "interference p = interference s0"
    "in_island s0 {s1, s2, s3} (saved_by s0 s1 s2 s3) (mem s0) p"
    by (rule head_reaches [OF regs ch])
  obtain q where q: "reaches code p q" "pc q = pc s0 + 20 + 4 * of_nat (length ?b + 1)"
    "interference q = []" "xreg q s1 = old_value d s0 M"
    "in_island s0 {s1, s2, s3} (saved_by s0 s1 s2 s3) (updated d s0 M) q"
    using loop_reaches [OF regs op base adm area cl p(2,4)] frn p(3) M by auto
  have ct': "code_at code (pc q) (rmw_tail d s1 s2 s3)" using ct q(2) by simp
  have val: "take_bit (lse_bits d) (xreg q s1) = xreg q s1"
    using q(4) by (simp add: old_value_def lse_bits_def load_take_bit)
  obtain s' where s': "reaches code q s'" "pc s' = pc q + 4 * of_nat (length (rmw_tail d s1 s2 s3))"
    "interference s' = interference q" "sp s' = sp s0" "nzcv s' = nzcv s0" "vreg s' = vreg s0"
    "mem s' = mem q" "\<forall>r. r \<noteq> 31 \<longrightarrow> xreg s' r = (if r = lse_rt d then xreg q s1 else xreg s0 r)"
    by (rule tail_reaches [OF regs ct' q(5) val])
  have "reaches code s0 s'" using p(1) q(1) s'(1) reaches_trans by blast
  moreover have "pc s' = pc s0 + 4 * of_nat (length (rmw_code d s1 s2 s3))"
    using s'(2) q(2) by (simp add: rmw_code_def rmw_head_def algebra_simps)
  ultimately show ?thesis using s' q by (intro exI [of _ s']) (simp add: in_island_def)
qed

end

end
