(* ===== verification/Lse_Compute.thy ===== *)
theory Lse_Compute
  imports Lse_Loop
begin

text \<open>
  The instructions \<open>emit_island\<close> places between the exclusives compute the operation of the
  atomic: the interpretation of \<open>rmw_sequence\<close> on \<open>emit_compute\<close>.
\<close>

lemma lse_bits_cases:
  assumes "lse_size d < 4"
  obtains "lse_size d = 0" "lse_bits d = 8" | "lse_size d = 1" "lse_bits d = 16"
    | "lse_size d = 2" "lse_bits d = 32" | "lse_size d = 3" "lse_bits d = 64"
  using assms by (cases rule: size_cases) (simp_all add: lse_bits_def nbytes_def that)

lemma take_width:
  assumes "lse_size d < 4"
  shows "take_bit (lse_bits d) (width (lse_size d = 3) v) = take_bit (lse_bits d) v"
  using assms by (cases rule: lse_bits_cases) (simp_all add: width_def)

lemma sint_ucast_signed:
  assumes "k < 32"
  shows "sint (ucast (signed_take_bit k x) :: u32) = sint (signed_take_bit k (x :: u64))"
  using assms by (intro bit_eqI) (auto simp: bit_sint_iff bit_simps min_def not_le)

lemma sint_ucast_u32: "sint (ucast (x :: u64) :: u32) = sval 32 x"
proof -
  have "ucast x = (ucast (signed_take_bit 31 x) :: u32)"
    by (rule bit_word_eqI) (simp add: bit_simps min_absorb2)
  then show ?thesis using sint_ucast_signed [of 31 x] by (simp add: sval_def)
qed

lemma sval_eq: "0 < n \<Longrightarrow> sval n a = sval n b \<Longrightarrow> take_bit n a = take_bit n b"
  unfolding sval_def using signed_take_bit_eq_iff_take_bit_eq [of "n - 1" a b]
  by (auto dest: signed_word_eqI)

lemma sval_64: "sval 64 x = sint x"
proof -
  have "signed_take_bit 63 x = x"
    by (rule bit_word_eqI) (simp add: bit_signed_take_bit_iff min_absorb2)
  then show ?thesis by (simp add: sval_def)
qed

lemma cmp_unsigned:
  "cond_holds COND_LO (flags_of_cmp True a b) \<longleftrightarrow> a < b"
  "cond_holds COND_HI (flags_of_cmp True a b) \<longleftrightarrow> b < a"
  "cond_holds COND_LO (flags_of_cmp False a b) \<longleftrightarrow> take_bit 32 a < take_bit 32 b"
  "cond_holds COND_HI (flags_of_cmp False a b) \<longleftrightarrow> take_bit 32 b < take_bit 32 a"
  by (simp_all add: flags_of_cmp_def cond_unsigned word_less_nat_alt unsigned_ucast_eq unsigned_take_bit_eq)

lemma cmp_signed:
  "cond_holds COND_LT (flags_of_cmp True a b) \<longleftrightarrow> sval 64 a < sval 64 b"
  "cond_holds COND_GT (flags_of_cmp True a b) \<longleftrightarrow> sval 64 b < sval 64 a"
  "cond_holds COND_LT (flags_of_cmp False a b) \<longleftrightarrow> sval 32 a < sval 32 b"
  "cond_holds COND_GT (flags_of_cmp False a b) \<longleftrightarrow> sval 32 b < sval 32 a"
  by (simp_all add: flags_of_cmp_def cond_signed sint_ucast_u32 sval_64)

lemma sval_extended:
  assumes "0 < n" and "n \<le> 32"
  shows "sval 32 (take_bit 32 (signed_take_bit (n - 1) x)) = sval n x"
proof -
  have "ucast (take_bit 32 (signed_take_bit (n - 1) x)) = (ucast (signed_take_bit (n - 1) x) :: u32)"
    by (rule bit_word_eqI) (auto simp: bit_simps)
  then show ?thesis
    using sint_ucast_u32 [of "take_bit 32 (signed_take_bit (n - 1) x)"] sint_ucast_signed [of "n - 1" x] assms
    by (simp add: sval_def)
qed

definition narrow_ok :: "lse_decoded \<Rightarrow> u64 \<Rightarrow> bool" where
  "narrow_ok d v \<longleftrightarrow>
     (lse_op d \<in> {LSE_LDUMAX, LSE_LDUMIN, LSE_CAS} \<and> lse_size d < 2 \<longrightarrow>
        take_bit 32 v = take_bit (lse_bits d) v)"


lemma computes_one:
  assumes "lse_regs d s1 s2 s3" and "straight i"
    and "\<And>s. exec i s = adv (set_x s2 (width (lse_size d = 3) (f (xreg s s1) (get_x s (lse_rs d)))) s)"
  shows "computes d f adm s1 s2 s3 [i]"
  using assms by (simp add: computes_def lse_regs_def take_width)

lemma emit_compute_alu:
  assumes "lse_regs d s1 s2 s3" and "lse_op d \<in> {LSE_LDADD, LSE_LDCLR, LSE_LDEOR, LSE_LDSET, LSE_SWP}"
  shows "\<exists>is. map decode (emit_compute d s1 s2 s3) = map Some is \<and>
    computes d (lse_result d) (narrow_ok d) s1 s2 s3 is"
proof -
  define i where "i = (let x = (lse_size d = 3); r = lse_rs d in
      case lse_op d of LSE_LDADD \<Rightarrow> ADD x s2 s1 r | LSE_LDCLR \<Rightarrow> BIC x s2 s1 r
         | LSE_LDEOR \<Rightarrow> EOR x s2 s1 r | LSE_LDSET \<Rightarrow> ORR x s2 s1 r | _ \<Rightarrow> ORR x s2 31 r)"
  have r: "s1 < 32" "s2 < 32" "lse_rs d < 32" "s1 \<noteq> 31" using assms(1) by (simp_all add: lse_regs_def)
  have "map decode (emit_compute d s1 s2 s3) = map Some [i]"
    using assms(2) by (elim insertE emptyE) (simp_all add: emit_compute_def i_def r)
  moreover have "computes d (lse_result d) (narrow_ok d) s1 s2 s3 [i]"
    using assms(2) r(4)
    by (intro computes_one [OF assms(1)]; elim insertE emptyE)
      (simp_all add: i_def lse_result_def get_x_def [of _ s1] get_x_def [of _ 31])
  ultimately show ?thesis by blast
qed

text \<open>The selections between the old value and the operand.\<close>

lemma cmp_unsigned_bits:
  assumes "lse_size d < 4" and "take_bit (lse_bits d) a = a"
    and "lse_size d < 2 \<longrightarrow> take_bit 32 v = take_bit (lse_bits d) v"
  shows "cond_holds COND_LO (flags_of_cmp (lse_size d = 3) a v) \<longleftrightarrow> a < take_bit (lse_bits d) v"
    and "cond_holds COND_HI (flags_of_cmp (lse_size d = 3) a v) \<longleftrightarrow> take_bit (lse_bits d) v < a"
proof -
  have "take_bit 32 a = a" if "lse_size d \<noteq> 3"
    using assms(1,2) that by (cases rule: lse_bits_cases) (simp_all add: take_bit_wider)
  moreover have "take_bit 32 v = take_bit (lse_bits d) v" if "lse_size d \<noteq> 3"
    using assms(1,3) that by (cases rule: lse_bits_cases) simp_all
  moreover have "lse_bits d = 64" if "lse_size d = 3" using that by (simp add: lse_bits_def)
  ultimately show "cond_holds COND_LO (flags_of_cmp (lse_size d = 3) a v) \<longleftrightarrow> a < take_bit (lse_bits d) v"
    and "cond_holds COND_HI (flags_of_cmp (lse_size d = 3) a v) \<longleftrightarrow> take_bit (lse_bits d) v < a"
    by (cases "lse_size d = 3"; simp add: cmp_unsigned)+
qed

lemma select_unsigned:
  assumes "lse_size d < 4" and "lse_op d \<in> {LSE_LDUMAX, LSE_LDUMIN}"
    and "take_bit (lse_bits d) a = a" and "narrow_ok d v"
  shows "take_bit (lse_bits d)
      (if cond_holds (if lse_op d = LSE_LDUMAX then COND_LO else COND_HI)
            (flags_of_cmp (lse_size d = 3) a v) then v else a)
    = take_bit (lse_bits d) (lse_result d a v)"
proof -
  have "lse_size d < 2 \<longrightarrow> take_bit 32 v = take_bit (lse_bits d) v"
    using assms(2,4) by (auto simp: narrow_ok_def)
  note c = cmp_unsigned_bits [OF assms(1,3) this]
  from assms(2) consider "lse_op d = LSE_LDUMAX" | "lse_op d = LSE_LDUMIN" by blast
  then show ?thesis
    using assms(3) by cases (auto simp: c lse_result_def)
qed

lemma emit_compute_unsigned:
  assumes "lse_regs d s1 s2 s3" and "lse_op d \<in> {LSE_LDUMAX, LSE_LDUMIN}"
  shows "\<exists>is. map decode (emit_compute d s1 s2 s3) = map Some is \<and>
    computes d (lse_result d) (narrow_ok d) s1 s2 s3 is"
proof -
  let ?x = "lse_size d = 3" and ?r = "lse_rs d"
  let ?c = "if lse_op d = LSE_LDUMAX then COND_LO else COND_HI"
  let ?is = "[SUBS ?x 31 s1 ?r, CSEL ?x s2 ?r s1 ?c]"
  have r: "s1 < 32" "s2 < 32" "?r < 32" "s1 \<noteq> 31" "s2 \<noteq> 31" "s1 \<noteq> s2" "lse_size d < 4"
    using assms(1) by (simp_all add: lse_regs_def)
  have "map decode (emit_compute d s1 s2 s3) = map Some ?is"
    using assms(2) by (elim insertE emptyE) (simp_all add: emit_compute_def Let_def r)
  moreover have "computes d (lse_result d) (narrow_ok d) s1 s2 s3 ?is"
    using select_unsigned [OF r(7) assms(2)]
    by (simp add: computes_def Let_def r get_x_def [of _ s1] take_width split del: if_split cong: if_cong)
  ultimately show ?thesis by blast
qed

lemma cmp_signed_bits:
  assumes "lse_size d < 4" and "\<not> lse_size d < 2"
  shows "cond_holds COND_LT (flags_of_cmp (lse_size d = 3) a v) \<longleftrightarrow>
      sval (lse_bits d) a < sval (lse_bits d) v"
    and "cond_holds COND_GT (flags_of_cmp (lse_size d = 3) a v) \<longleftrightarrow>
      sval (lse_bits d) v < sval (lse_bits d) a"
proof -
  have "lse_bits d = (if lse_size d = 3 then 64 else 32)"
    using assms by (cases rule: lse_bits_cases) simp_all
  then show "cond_holds COND_LT (flags_of_cmp (lse_size d = 3) a v) \<longleftrightarrow>
      sval (lse_bits d) a < sval (lse_bits d) v"
    and "cond_holds COND_GT (flags_of_cmp (lse_size d = 3) a v) \<longleftrightarrow>
      sval (lse_bits d) v < sval (lse_bits d) a"
    by (simp_all add: cmp_signed)
qed

lemma cmp_signed_narrow:
  assumes "0 < n" and "n \<le> 32"
    and "a' = take_bit 32 (signed_take_bit (n - 1) a)" and "v' = take_bit 32 (signed_take_bit (n - 1) v)"
  shows "cond_holds COND_LT (flags_of_cmp False a' v') \<longleftrightarrow> sval n a < sval n v"
    and "cond_holds COND_GT (flags_of_cmp False a' v') \<longleftrightarrow> sval n v < sval n a"
  using sval_extended [OF assms(1,2)] by (simp_all add: cmp_signed assms(3,4))

lemma select_signed:
  assumes "lse_op d \<in> {LSE_LDSMAX, LSE_LDSMIN}" and "n = lse_bits d"
  shows "take_bit n
      (if (if lse_op d = LSE_LDSMAX then sval n a < sval n v else sval n v < sval n a) then v else a)
    = take_bit n (lse_result d a v)"
proof -
  have "0 < n" using assms(2) by (simp add: lse_bits_def nbytes_def)
  note eq = sval_eq [OF this, of a v]
  from assms(1) consider "lse_op d = LSE_LDSMAX" | "lse_op d = LSE_LDSMIN" by blast
  then show ?thesis
    using eq assms(2) by cases (auto simp: lse_result_def Let_def not_less)
qed

lemma emit_compute_signed_wide:
  assumes "lse_regs d s1 s2 s3" and "lse_op d \<in> {LSE_LDSMAX, LSE_LDSMIN}" and "\<not> lse_size d < 2"
  shows "\<exists>is. map decode (emit_compute d s1 s2 s3) = map Some is \<and>
    computes d (lse_result d) (narrow_ok d) s1 s2 s3 is"
proof -
  let ?x = "lse_size d = 3" and ?r = "lse_rs d"
  let ?c = "if lse_op d = LSE_LDSMAX then COND_LT else COND_GT"
  let ?is = "[SUBS ?x 31 s1 ?r, CSEL ?x s2 ?r s1 ?c]"
  have r: "s1 < 32" "s2 < 32" "?r < 32" "s1 \<noteq> 31" "s2 \<noteq> 31" "s1 \<noteq> s2" "lse_size d < 4"
    using assms(1) by (simp_all add: lse_regs_def)
  have "map decode (emit_compute d s1 s2 s3) = map Some ?is"
    using assms(2,3) by (elim insertE emptyE) (simp_all add: emit_compute_def Let_def r)
  moreover have "cond_holds ?c (flags_of_cmp ?x a v) \<longleftrightarrow>
      (if lse_op d = LSE_LDSMAX then sval (lse_bits d) a < sval (lse_bits d) v
       else sval (lse_bits d) v < sval (lse_bits d) a)" for a v
    by (simp add: cmp_signed_bits [OF r(7) assms(3)])
  then have "computes d (lse_result d) (narrow_ok d) s1 s2 s3 ?is"
    using select_signed [OF assms(2) refl]
    by (simp add: computes_def Let_def r get_x_def [of _ s1] take_width split del: if_split cong: if_cong)
  ultimately show ?thesis by blast
qed

lemma emit_compute_signed_narrow:
  assumes "lse_regs d s1 s2 s3" and "lse_op d \<in> {LSE_LDSMAX, LSE_LDSMIN}" and "lse_size d < 2"
  shows "\<exists>is. map decode (emit_compute d s1 s2 s3) = map Some is \<and>
    computes d (lse_result d) (narrow_ok d) s1 s2 s3 is"
proof -
  let ?r = "lse_rs d"
  let ?c = "if lse_op d = LSE_LDSMAX then COND_LT else COND_GT"
  let ?ext = "if lse_size d = 0 then SXTB else SXTH"
  let ?is = "[?ext s2 s1, ?ext s3 ?r, SUBS False 31 s2 s3, CSEL False s2 ?r s1 ?c]"
  have r: "s1 < 32" "s2 < 32" "s3 < 32" "?r < 32" "s1 \<noteq> 31" "s2 \<noteq> 31" "s3 \<noteq> 31" "s1 \<noteq> s2" "s1 \<noteq> s3" "s2 \<noteq> s3"
    "s2 \<noteq> ?r" "s3 \<noteq> ?r" "lse_size d < 4"
    using assms(1) by (auto simp: lse_regs_def)
  have n3: "lse_size d \<noteq> 3" using assms(3) by auto
  have "map decode (emit_compute d s1 s2 s3) = map Some ?is"
    using assms(2,3) n3 by (elim insertE emptyE) (simp_all add: emit_compute_def Let_def r)
  moreover have n: "0 < lse_bits d" "lse_bits d \<le> 32"
    "exec (?ext a b) s = adv (set_x a (take_bit 32 (signed_take_bit (lse_bits d - 1) (get_x s b))) s)"
    "straight (?ext a b)" for a b s
    using r(13) assms(3) by (cases rule: lse_bits_cases; simp)+
  have "cond_holds ?c (flags_of_cmp False (take_bit 32 (signed_take_bit (lse_bits d - Suc 0) a))
        (take_bit 32 (signed_take_bit (lse_bits d - Suc 0) v))) \<longleftrightarrow>
      (if lse_op d = LSE_LDSMAX then sval (lse_bits d) a < sval (lse_bits d) v
       else sval (lse_bits d) v < sval (lse_bits d) a)" for a v
    using cmp_signed_narrow [OF n(1,2), of _ a _ v] by simp
  then have "computes d (lse_result d) (narrow_ok d) s1 s2 s3 ?is"
    using select_signed [OF assms(2) refl] take_width [OF r(13)] n3
    by (simp add: computes_def Let_def r n(3,4) get_x_def [of _ s1] get_x_def [of _ s2] get_x_def [of _ s3] split del: if_split cong: if_cong)
  ultimately show ?thesis by blast
qed

lemma emit_compute_computes:
  assumes "lse_regs d s1 s2 s3" and "lse_op d \<noteq> LSE_CAS" and "lse_op d \<noteq> LSE_NONE"
  shows "\<exists>is. map decode (emit_compute d s1 s2 s3) = map Some is \<and>
    computes d (lse_result d) (narrow_ok d) s1 s2 s3 is"
proof -
  consider "lse_op d \<in> {LSE_LDADD, LSE_LDCLR, LSE_LDEOR, LSE_LDSET, LSE_SWP}"
    | "lse_op d \<in> {LSE_LDUMAX, LSE_LDUMIN}" | "lse_op d \<in> {LSE_LDSMAX, LSE_LDSMIN}"
    using assms(2,3) by (cases "lse_op d") simp_all
  then show ?thesis
    by cases (use emit_compute_alu emit_compute_unsigned emit_compute_signed_wide
      emit_compute_signed_narrow assms(1) in blast)+
qed

lemma emit_compute_length: "length (emit_compute d s1 s2 s3) \<le> 4"
  by (simp add: emit_compute_def Let_def split: lse_op.split)

interpretation lse: rmw_sequence emit_compute lse_result narrow_ok
  by unfold_locales (use emit_compute_computes emit_compute_length in blast)+

end
