(* ===== verification/Lse_Cas.thy ===== *)
theory Lse_Cas
  imports Lse_Compute
begin

text \<open>
  The compare-and-swap island: its loop either finds a different value and leaves, or stores, and
  retries on interference.
\<close>

definition cas_regs :: "lse_decoded \<Rightarrow> u32 \<Rightarrow> u32 \<Rightarrow> bool" where
  "cas_regs d s1 s2 \<longleftrightarrow>
     s1 < 32 \<and> s2 < 32 \<and> distinct [s1, s2, 31] \<and>
     {s1, s2} \<inter> {lse_rs d, lse_rn d, lse_rt d} = {} \<and>
     lse_rs d < 32 \<and> lse_rt d < 32 \<and> lse_rn d < 32 \<and> lse_size d < 4 \<and> lse_op d = LSE_CAS"

definition in_cas :: "cpu \<Rightarrow> u32 \<Rightarrow> u32 \<Rightarrow> memory \<Rightarrow> cpu \<Rightarrow> bool" where
  "in_cas s0 s1 s2 m s \<longleftrightarrow>
     sp s = sp s0 - 48 \<and> vreg s = vreg s0 \<and> (\<forall>r. r \<notin> {s1, s2} \<longrightarrow> xreg s r = xreg s0 r) \<and>
     take 3 (slots (sp s0) (mem s)) = [xreg s0 s1, xreg s0 s2, push_bit 28 (ucast (nzcv s0))] \<and>
     agree_outside (sp s0 - 64) 64 (mem s) m"

definition cas_head :: "u32 \<Rightarrow> u32 \<Rightarrow> u32 list" where
  "cas_head s1 s2 = [enc_str_pre s1, enc_str_pre s2, enc_mrs_nzcv s1, enc_str_pre s1]"

definition cas_loop :: "lse_decoded \<Rightarrow> u32 \<Rightarrow> u32 \<Rightarrow> u32 list" where
  "cas_loop d s1 s2 =
     [enc_ldxr (lse_size d) (lse_acquire d) s2 (lse_rn d),
      enc_cmp (lse_size d = 3) s2 (lse_rs d),
      enc_b_cond 3 COND_NE,
      enc_stxr (lse_size d) (lse_release d) s1 (lse_rt d) (lse_rn d),
      enc_cbnz_w s1 (- 4)]"

definition cas_tail :: "lse_decoded \<Rightarrow> u32 \<Rightarrow> u32 \<Rightarrow> u32 list" where
  "cas_tail d s1 s2 =
     [ENC_CLREX] @ (if lse_rs d \<noteq> 31 then [enc_mov (lse_size d = 3) (lse_rs d) s2] else [])
     @ [enc_ldr_post s1, enc_msr_nzcv s1, enc_ldr_post s2, enc_ldr_post s1]"

definition cas_old :: "lse_decoded \<Rightarrow> cpu \<Rightarrow> memory \<Rightarrow> u64" where
  "cas_old d s0 m = load (lse_size d) m (xreg s0 (lse_rn d))"

definition cas_matches :: "lse_decoded \<Rightarrow> cpu \<Rightarrow> memory \<Rightarrow> bool" where
  "cas_matches d s0 m \<longleftrightarrow> cas_old d s0 m = take_bit (lse_bits d) (get_x s0 (lse_rs d))"

definition cas_updated :: "lse_decoded \<Rightarrow> cpu \<Rightarrow> memory \<Rightarrow> memory" where
  "cas_updated d s0 m =
     (if cas_matches d s0 m
      then store (lse_size d) m (xreg s0 (lse_rn d)) (get_x s0 (lse_rt d)) else m)"

lemma cas_head_reaches:
  assumes regs: "cas_regs d s1 s2" and code: "code_at code (pc s0) (cas_head s1 s2)"
  obtains s where "reaches code s0 s" and "pc s = pc s0 + 16" and "interference s = interference s0"
    and "in_cas s0 s1 s2 (mem s0) s"
proof -
  let ?is = "[STR_pre s1, STR_pre s2, MRS_NZCV s1, STR_pre s1]"
  have rg: "s1 < 32" "s2 < 32" "distinct [s1, s2, 31]" using regs by (simp_all add: cas_regs_def)
  have "map decode (cas_head s1 s2) = map Some ?is" using rg by (simp add: cas_head_def)
  from reaches_straight [OF code this] have r: "reaches code s0 (fold exec ?is s0)" by simp
  have sub: "sp s0 - 16 - 16 = sp s0 - 32" "sp s0 - 32 - 16 = sp s0 - 48" by simp_all
  let ?m = "store 3 (store 3 (store 3 (mem s0) (sp s0 - 16) (xreg s0 s1))
    (sp s0 - 32) (xreg s0 s2)) (sp s0 - 48) (push_bit 28 (ucast (nzcv s0)))"
  have m: "mem (fold exec ?is s0) = ?m" using rg by (simp add: get_x_def sub)
  have "take 3 (slots (sp s0) ?m) = [xreg s0 s1, xreg s0 s2, push_bit 28 (ucast (nzcv s0))]"
    by (simp add: slots_def memory)
  moreover have "agree_outside (sp s0 - 64) 64 ?m (mem s0)" by (intro store_slot_agree) simp_all
  ultimately have "in_cas s0 s1 s2 (mem s0) (fold exec ?is s0)"
    unfolding in_cas_def m using rg by (simp add: sub)
  then show thesis using rg by (intro that [OF r]) simp_all
qed

lemma cmp_ne_bits:
  assumes "lse_size d < 4" and "take_bit (lse_bits d) a = a"
    and "lse_size d < 2 \<longrightarrow> take_bit 32 v = take_bit (lse_bits d) v"
  shows "cond_holds COND_NE (flags_of_cmp (lse_size d = 3) a v) \<longleftrightarrow> a \<noteq> take_bit (lse_bits d) v"
proof -
  have "cond_holds COND_NE (flags_of_cmp x a v) \<longleftrightarrow>
      cond_holds COND_LO (flags_of_cmp x a v) \<or> cond_holds COND_HI (flags_of_cmp x a v)" for x
    by (cases x) (auto simp: flags_of_cmp_def cond_unsigned)
  then show ?thesis using cmp_unsigned_bits [OF assms] by auto
qed

text \<open>Up to the conditional branch: the old value is loaded and compared.\<close>

lemma cas_compare:
  assumes regs: "cas_regs d s1 s2" and base: "lse_rn d \<noteq> 31"
    and narrow: "narrow_ok d (get_x s0 (lse_rs d))"
    and area: "apart (xreg s0 (lse_rn d)) (nbytes (lse_size d)) (sp s0 - 64) 64"
    and code: "code_at code (pc s) (cas_loop d s1 s2)" and inv: "in_cas s0 s1 s2 m s"
  obtains v where "reaches code s v" and "in_cas s0 s1 s2 m v" and "interference v = interference s"
    and "xreg v s2 = cas_old d s0 m"
    and "pc v = (if cas_matches d s0 m then pc s + 12 else pc s + 20)"
    and "excl v = Some (xreg s0 (lse_rn d), lse_size d)"
proof -
  let ?x = "lse_size d = 3" and ?L = "cas_old d s0 m" and ?V = "get_x s0 (lse_rs d)"
  let ?is = "[LDXR (lse_size d) s2 (lse_rn d), SUBS ?x 31 s2 (lse_rs d)]"
  have rg: "s1 < 32" "s2 < 32" "distinct [s1, s2, 31]" "lse_rs d \<notin> {s1, s2}" "lse_rn d \<notin> {s1, s2}"
    "lse_rs d < 32" "lse_rt d < 32" "lse_rn d < 32" "lse_size d < 4"
    using regs by (auto simp: cas_regs_def)
  have cs: "code_at code (pc s) [enc_ldxr (lse_size d) (lse_acquire d) s2 (lse_rn d), enc_cmp ?x s2 (lse_rs d)]"
    and cb: "code (pc s + 8) = enc_b_cond 3 COND_NE"
    using code by (simp_all add: cas_loop_def add.commute)
  have r: "reaches code s (fold exec ?is s)"
    by (rule reaches_straight [OF cs]) (simp_all add: rg)
  have i: "\<And>r. r \<notin> {s1, s2} \<Longrightarrow> xreg s r = xreg s0 r" "agree_outside (sp s0 - 64) 64 (mem s) m"
    using inv by (simp_all add: in_cas_def)
  have b: "base_x s (lse_rn d) = xreg s0 (lse_rn d)" using base i rg by (simp add: base_x_def)
  have "load (lse_size d) (mem s) (xreg s0 (lse_rn d)) = ?L"
    using load_agree [OF i(2) area rg(9)] by (simp add: cas_old_def)
  moreover define w where "w = s\<lparr>xreg := (xreg s)(s2 := ?L), nzcv := flags_of_cmp ?x ?L ?V,
      excl := Some (xreg s0 (lse_rn d), lse_size d), pc := pc s + 8\<rparr>"
  ultimately have "fold exec ?is s = w"
    using rg b i by (simp add: get_x_def set_x_def adv_def add.commute)
  with r have sw: "reaches code s w" by simp
  have ne: "cond_holds COND_NE (flags_of_cmp ?x ?L ?V) \<longleftrightarrow> \<not> cas_matches d s0 m"
    unfolding cas_matches_def using narrow regs
    by (intro cmp_ne_bits [OF rg(9)])
      (auto simp: cas_old_def lse_bits_def load_take_bit narrow_ok_def cas_regs_def)
  have "reaches code w (exec (B_cond COND_NE 12) w)"
    using cb by (intro reaches_step) (simp add: w_def)
  then have sv: "reaches code s (w\<lparr>pc := if cas_matches d s0 m then pc s + 12 else pc s + 20\<rparr>)"
    using sw ne by (auto simp: w_def adv_def add.commute intro: reaches_trans)
  then show thesis
    using inv rg by (intro that [OF sv]) (simp_all add: w_def in_cas_def)
qed

lemma cas_store:
  assumes regs: "cas_regs d s1 s2" and base: "lse_rn d \<noteq> 31" and match: "cas_matches d s0 m"
    and area: "apart (xreg s0 (lse_rn d)) (nbytes (lse_size d)) (sp s0 - 64) 64"
    and code: "code_at code a (cas_loop d s1 s2)" and pc: "pc v = a + 12"
    and inv: "in_cas s0 s1 s2 m v" and ex: "excl v = Some (xreg s0 (lse_rn d), lse_size d)"
    and frn: "list_all (foreign (sp s0 - 64) 64) (interference v)"
  obtains s' where "reaches code v s'" and "xreg s' s2 = xreg v s2"
    and "interference s' = tl (interference v)"
    and "interference v = [] \<Longrightarrow> pc s' = a + 20 \<and> in_cas s0 s1 s2 (cas_updated d s0 m) s'"
    and "\<And>f fs. interference v = f # fs \<Longrightarrow> pc s' = a \<and> in_cas s0 s1 s2 (f m) s'"
proof -
  let ?a = "xreg s0 (lse_rn d)" and ?sz = "lse_size d" and ?fs = "interference v"
  have rg: "s1 < 32" "s2 < 32" "distinct [s1, s2, 31]" "lse_rt d \<notin> {s1, s2}" "lse_rn d \<notin> {s1, s2}"
    "lse_rt d < 32" "lse_rn d < 32" "?sz < 4" "s2 \<noteq> s1"
    using regs by (auto simp: cas_regs_def)
  have i: "\<forall>r. r \<notin> {s1, s2} \<longrightarrow> xreg v r = xreg s0 r" using inv by (simp add: in_cas_def)
  have b: "base_x v (lse_rn d) = ?a" "get_x v (lse_rt d) = get_x s0 (lse_rt d)"
    using base i rg by (simp_all add: base_x_def get_x_def)
  define w where "w = (if ?fs = [] then v\<lparr>xreg := (xreg v)(s1 := 0), excl := None,
       mem := store ?sz (mem v) ?a (get_x s0 (lse_rt d)), pc := a + 16\<rparr>
     else v\<lparr>xreg := (xreg v)(s1 := 1), excl := None, mem := hd ?fs (mem v), interference := tl ?fs, pc := a + 16\<rparr>)"
  have "exec (STXR ?sz s1 (lse_rt d) (lse_rn d)) v = w"
    using rg b ex pc by (auto simp: w_def exec_stxr_def set_x_def adv_def add.commute split: list.split)
  moreover have c: "code (a + 12) = enc_stxr ?sz (lse_release d) s1 (lse_rt d) (lse_rn d)"
    "code (a + 16) = enc_cbnz_w s1 (- of_nat 4)"
    using code by (simp_all add: cas_loop_def add.commute)
  ultimately have "reaches code v w" using reaches_step [of code v] rg pc by auto
  moreover have "reaches code w (exec (CBNZ_W s1 (- (4 * of_nat 4))) w)"
    using c(2) rg back_offset [of 4] by (intro reaches_step) (simp add: w_def)
  ultimately have r: "reaches code v (exec (CBNZ_W s1 (- (4 * of_nat 4))) w)" by (rule reaches_trans)
  have last: "in_cas s0 s1 s2 (cas_updated d s0 m) (v\<lparr>mem := store ?sz (mem v) ?a (get_x s0 (lse_rt d))\<rparr>)"
    using inv match slots_store [OF area rg(8)] store_agree by (simp add: in_cas_def cas_updated_def)
  have retry: "in_cas s0 s1 s2 (f m) (v\<lparr>mem := f (mem v)\<rparr>)" if "?fs = f # fs" for f fs
  proof -
    have "foreign (sp s0 - 64) 64 f" using frn that by simp
    then show ?thesis using inv slots_foreign foreign_agree by (simp add: in_cas_def)
  qed
  show thesis
  proof (cases ?fs)
    case Nil
    then show thesis using rg last by (intro that [OF r]) (simp_all add: w_def get_x_def in_cas_def add.commute)
  next
    case (Cons f fs)
    then show thesis using rg retry by (intro that [OF r]) (simp_all add: w_def get_x_def in_cas_def)
  qed
qed

lemma cas_loop_reaches:
  assumes regs: "cas_regs d s1 s2" and base: "lse_rn d \<noteq> 31"
    and narrow: "narrow_ok d (get_x s0 (lse_rs d))"
    and area: "apart (xreg s0 (lse_rn d)) (nbytes (lse_size d)) (sp s0 - 64) 64"
    and code: "code_at code a (cas_loop d s1 s2)"
    and "pc s = a" and "in_cas s0 s1 s2 m s" and "list_all (foreign (sp s0 - 64) 64) (interference s)"
  shows "\<exists>s' fs. reaches code s s' \<and> pc s' = a + 20 \<and> interference s = fs @ interference s' \<and>
    xreg s' s2 = cas_old d s0 (settled fs m) \<and> in_cas s0 s1 s2 (cas_updated d s0 (settled fs m)) s'"
  using assms(6-)
proof (induction "length (interference s)" arbitrary: s m rule: less_induct)
  case (less s m)
  have rg: "s1 < 32" "s2 < 32" "distinct [s1, s2, 31]" "lse_rt d \<notin> {s1, s2}" "lse_rn d \<notin> {s1, s2}"
    "lse_rt d < 32" "lse_rn d < 32" "lse_size d < 4"
    using regs by (auto simp: cas_regs_def)
  have c: "code_at code (pc s) (cas_loop d s1 s2)" using code less.prems(1) by simp
  obtain v where v: "reaches code s v" "in_cas s0 s1 s2 m v" "interference v = interference s"
    "xreg v s2 = cas_old d s0 m" "pc v = (if cas_matches d s0 m then pc s + 12 else pc s + 20)"
    "excl v = Some (xreg s0 (lse_rn d), lse_size d)"
    by (rule cas_compare [OF regs base narrow area c less.prems(2)])
  show ?case
  proof (cases "cas_matches d s0 m")
    case False
    then show ?thesis using v less.prems(1)
      by (intro exI [of _ v] exI [of _ "[]"]) (simp add: settled_def cas_updated_def)
  next
    case True
    then have pc: "pc v = a + 12" using v(5) less.prems(1) by simp
    have frn: "list_all (foreign (sp s0 - 64) 64) (interference v)" using v(3) less.prems(3) by simp
    obtain w where w: "reaches code v w" "xreg w s2 = xreg v s2" "interference w = tl (interference v)"
      "interference v = [] \<Longrightarrow> pc w = a + 20 \<and> in_cas s0 s1 s2 (cas_updated d s0 m) w"
      "\<And>f fs. interference v = f # fs \<Longrightarrow> pc w = a \<and> in_cas s0 s1 s2 (f m) w"
      by (rule cas_store [OF regs base True area code pc v(2,6) frn]) blast
    have sw: "reaches code s w" using v(1) w(1) by (rule reaches_trans)
    show ?thesis
    proof (cases "interference s")
      case Nil
      then show ?thesis using sw w(2-4) v(3,4)
        by (intro exI [of _ w] exI [of _ "[]"]) (simp add: settled_def)
    next
      case (Cons f fs)
      then have "length (interference w) < length (interference s)" "pc w = a" "in_cas s0 s1 s2 (f m) w"
        "list_all (foreign (sp s0 - 64) 64) (interference w)"
        using w(3,5) v(3) frn by simp_all
      from less.hyps [OF this] obtain s' gs where "reaches code w s'" "pc s' = a + 20"
        "interference w = gs @ interference s'" "xreg s' s2 = cas_old d s0 (settled gs (f m))"
        "in_cas s0 s1 s2 (cas_updated d s0 (settled gs (f m))) s'" by blast
      then show ?thesis using sw Cons w(3) v(3) reaches_trans
        by (intro exI [of _ s'] exI [of _ "f # gs"]) (auto simp: settled_def)
    qed
  qed
qed

lemma cas_tail_reaches:
  assumes regs: "cas_regs d s1 s2" and code: "code_at code (pc s) (cas_tail d s1 s2)"
    and inv: "in_cas s0 s1 s2 m s" and val: "take_bit (lse_bits d) (xreg s s2) = xreg s s2"
  obtains s' where "reaches code s s'" and "pc s' = pc s + 4 * of_nat (length (cas_tail d s1 s2))"
    and "interference s' = interference s" and "sp s' = sp s0" and "nzcv s' = nzcv s0"
    and "vreg s' = vreg s0" and "mem s' = mem s"
    and "\<forall>r. r \<noteq> 31 \<longrightarrow> xreg s' r = (if r = lse_rs d then xreg s s2 else xreg s0 r)"
proof -
  let ?ms = "if lse_rs d \<noteq> 31 then [ORR (lse_size d = 3) (lse_rs d) 31 s2] else []"
  let ?is = "CLREX # ?ms @ [LDR_post s1, MSR_NZCV s1, LDR_post s2, LDR_post s1]"
  have rg: "s1 < 32" "s2 < 32" "distinct [s1, s2, 31]" "lse_rs d < 32" "lse_size d < 4"
    "lse_rs d \<noteq> s1" "lse_rs d \<noteq> s2"
    using regs by (auto simp: cas_regs_def)
  have dec: "map decode (cas_tail d s1 s2) = map Some ?is" using rg by (simp add: cas_tail_def)
  have str: "list_all straight ?is" by simp
  have r: "reaches code s (fold exec ?is s)" using reaches_straight [OF code dec str] .
  have "width (lse_size d = 3) (xreg s s2) = xreg s s2"
    using width_small [of d "xreg s s2"] rg val by simp
  moreover have "sp s = sp s0 - 48" "load 3 (mem s) (sp s0 - 16) = xreg s0 s1"
    "load 3 (mem s) (sp s0 - 32) = xreg s0 s2"
    "load 3 (mem s) (sp s0 - 48) = push_bit 28 (ucast (nzcv s0))"
    using inv by (simp_all add: in_cas_def slots_def)
  moreover have "sp s0 - 48 + 16 = sp s0 - 32" "sp s0 - 32 + 16 = sp s0 - 16" by simp_all
  ultimately show thesis using pc_fold_straight [OF str, of s] inv rg dec
    by (intro that [OF r]) (simp_all add: get_x_def in_cas_def cas_tail_def)
qed

lemma cas_code_reaches:
  assumes regs: "cas_regs d s1 s2" and base: "lse_rn d \<noteq> 31"
    and narrow: "narrow_ok d (get_x s0 (lse_rs d))"
    and area: "apart (xreg s0 (lse_rn d)) (nbytes (lse_size d)) (sp s0 - 64) 64"
    and code: "code_at code (pc s0) (cas_head s1 s2 @ cas_loop d s1 s2 @ cas_tail d s1 s2)"
    and frn: "list_all (foreign (sp s0 - 64) 64) (interference s0)"
  shows "\<exists>s' fs. reaches code s0 s' \<and>
    pc s' = pc s0 + 4 * of_nat (length (cas_head s1 s2 @ cas_loop d s1 s2 @ cas_tail d s1 s2)) \<and>
    interference s0 = fs @ interference s' \<and> sp s' = sp s0 \<and> nzcv s' = nzcv s0 \<and> vreg s' = vreg s0 \<and>
    agree_outside (sp s0 - 64) 64 (mem s') (cas_updated d s0 (settled fs (mem s0))) \<and>
    (\<forall>r. r \<noteq> 31 \<longrightarrow>
      xreg s' r = (if r = lse_rs d then cas_old d s0 (settled fs (mem s0)) else xreg s0 r))"
proof -
  have ch: "code_at code (pc s0) (cas_head s1 s2)" and cl: "code_at code (pc s0 + 16) (cas_loop d s1 s2)"
    and ct: "code_at code (pc s0 + 16 + 20) (cas_tail d s1 s2)"
    using code by (simp_all add: code_at_append cas_head_def cas_loop_def algebra_simps)
  obtain p where p: "reaches code s0 p" "pc p = pc s0 + 16" "interference p = interference s0"
    "in_cas s0 s1 s2 (mem s0) p"
    by (rule cas_head_reaches [OF regs ch])
  obtain q fs where q: "reaches code p q" "pc q = pc s0 + 16 + 20" "interference s0 = fs @ interference q"
    "xreg q s2 = cas_old d s0 (settled fs (mem s0))"
    "in_cas s0 s1 s2 (cas_updated d s0 (settled fs (mem s0))) q"
    using cas_loop_reaches [OF regs base narrow area cl p(2,4)] frn p(3) by auto
  have ct': "code_at code (pc q) (cas_tail d s1 s2)" using ct q(2) by simp
  have val: "take_bit (lse_bits d) (xreg q s2) = xreg q s2"
    using q(4) by (simp add: cas_old_def lse_bits_def load_take_bit)
  obtain s' where s': "reaches code q s'" "pc s' = pc q + 4 * of_nat (length (cas_tail d s1 s2))"
    "interference s' = interference q" "sp s' = sp s0" "nzcv s' = nzcv s0" "vreg s' = vreg s0"
    "mem s' = mem q" "\<forall>r. r \<noteq> 31 \<longrightarrow> xreg s' r = (if r = lse_rs d then xreg q s2 else xreg s0 r)"
    by (rule cas_tail_reaches [OF regs ct' q(5) val])
  have "reaches code s0 s'" using p(1) q(1) s'(1) reaches_trans by blast
  moreover have "pc s' = pc s0 + 4 * of_nat (length (cas_head s1 s2 @ cas_loop d s1 s2 @ cas_tail d s1 s2))"
    using s'(2) q(2) by (simp add: cas_head_def cas_loop_def algebra_simps)
  ultimately show ?thesis using s' q by (intro exI [of _ s'] exI [of _ fs]) (simp add: in_cas_def)
qed

end
