(* ===== verification/Lse_Island.thy ===== *)
theory Lse_Island
  imports Lse_Cas
begin

text \<open>
  A patched atomic: the branch at the original site, the island of \<open>emit_island\<close>, and the branch
  back.  The whole trip changes the guest's state exactly as the atomic would.
\<close>

lemma return_displacement:
  fixes island orig :: u64
  assumes "(island - orig) AND 3 = 0" and "- (2 ^ 27) \<le> sint (island - orig)"
    and "sint (island - orig) < 2 ^ 27 - 96" and "2 \<le> n" and "n \<le> 24"
    and "d = orig + 4 - (island + 4 * of_nat n)"
  shows "d AND 3 = 0" and "- (2 ^ 27) \<le> sint d" and "sint d < 2 ^ 27"
proof -
  define x where "x = island - orig"
  have "d = 4 - 4 * of_nat n - x" by (simp add: assms(6) x_def)
  also have "\<dots> = word_of_int (4 - 4 * int n - sint x)" by simp
  finally have dx: "d = word_of_int (4 - 4 * int n - sint x)" .
  have sd: "sint d = 4 - 4 * int n - sint x"
    unfolding dx using assms(2-5) by (intro sint_word_of_int) (simp_all add: x_def)
  then show "- (2 ^ 27) \<le> sint d" "sint d < 2 ^ 27" using assms(2-5) by (simp_all add: x_def)
  have "4 dvd x" using assms(1) by (simp add: x_def and_3_eq_0)
  then have "4 dvd (4 - 4 * of_nat n - x)" by (intro dvd_diff) simp_all
  then show "d AND 3 = 0" by (simp add: and_3_eq_0 assms(6) x_def algebra_simps)
qed
lemma decode_lse_wf:
  assumes "decode_lse w = Some d"
  shows "lse_rs d < 32" and "lse_rt d < 32" and "lse_rn d < 32" and "lse_size d < 4"
    and "lse_op d \<noteq> LSE_NONE"
  using assms by (auto simp: decode_lse_def Let_def lse_opc_def split: if_splits)

text \<open>The branch at the patched site, and the branch that ends an island.\<close>

lemma branch_taken:
  assumes "code a = enc_b (word_offset t a)" and "pc s = a"
    and "(t - a) AND 3 = 0" and "- (2 ^ 27) \<le> sint (t - a)" and "sint (t - a) < 2 ^ 27"
  shows "reaches code s (s\<lparr>pc := t\<rparr>)"
proof -
  have "decode (code (pc s)) = Some (B (t - a))"
    using branch_displacement [OF assms(3-5)] assms(1,2) by (simp add: word_offset_def)
  then show ?thesis using reaches_step [of code s "B (t - a)"] assms(2) by simp
qed

lemma scratch_two:
  fixes ra rb rc :: u32
  assumes "ra < 32" "rb < 32" "rc < 32"
    and "m = one_shl 31 OR one_shl ra OR one_shl rb OR one_shl rc"
    and "s1 = pick_scratch m" and "s2 = pick_scratch (m OR one_shl s1)"
  shows "s1 < 32" "s2 < 32" "distinct [s1, s2, 31]" "{s1, s2} \<inter> {ra, rb, rc} = {}"
proof -
  have m: "bit m n \<longleftrightarrow> n \<in> unat ` set [31, ra, rb, rc]" for n
    using assms(1-4) by (auto simp: bit_or_iff bit_one_shl)
  note p1 = pick_scratch_mask [OF m, simplified, folded assms(5)]
  have m2: "bit (m OR one_shl s1) n \<longleftrightarrow> n \<in> unat ` set [s1, 31, ra, rb, rc]" for n
    using p1(3) by simp
  note p2 = pick_scratch_mask [OF m2, simplified, folded assms(6)]
  show "s1 < 32" "s2 < 32" using p1(1) p2(1) .
  show "distinct [s1, s2, 31]" using p1(2) p2(2) by auto
  show "{s1, s2} \<inter> {ra, rb, rc} = {}" using p1(2) p2(2) by auto
qed

lemma emit_rmw_shape:
  assumes "decode_lse w = Some d"
  obtains s1 s2 s3 where "lse_regs d s1 s2 s3"
    and "emit_rmw d island orig = lse.rmw_code d s1 s2 s3
           @ [enc_b (word_offset (orig + 4) (island + 4 * of_nat (length (lse.rmw_code d s1 s2 s3))))]"
proof -
  define m where "m = (let m = one_shl 31 OR one_shl (lse_rs d) OR one_shl (lse_rn d)
    in if lse_rt d \<noteq> 31 then m OR one_shl (lse_rt d) else m)"
  define s1 where "s1 = pick_scratch m"
  define s2 where "s2 = pick_scratch (m OR one_shl s1)"
  define s3 where "s3 = pick_scratch ((m OR one_shl s1) OR one_shl s2)"
  note wf = decode_lse_wf [OF assms]
  have "lse_regs d s1 s2 s3"
    using scratch_three [OF wf(1,3,2) m_def s1_def s2_def s3_def] wf by (simp add: lse_regs_def)
  moreover have "emit_rmw d island orig = lse.rmw_code d s1 s2 s3
      @ [enc_b (word_offset (orig + 4) (island + 4 * of_nat (length (lse.rmw_code d s1 s2 s3))))]"
    unfolding s3_def s2_def s1_def m_def emit_rmw_def Let_def lse.rmw_code_def rmw_head_def
      lse.rmw_body_def rmw_tail_def by (simp split del: if_split)
  ultimately show thesis by (rule that)
qed

lemma emit_cas_shape:
  assumes "decode_lse w = Some d" and "lse_op d = LSE_CAS"
  obtains s1 s2 where "cas_regs d s1 s2"
    and "emit_cas d island orig = (cas_head s1 s2 @ cas_loop d s1 s2 @ cas_tail d s1 s2)
           @ [enc_b (word_offset (orig + 4)
                (island + 4 * of_nat (length (cas_head s1 s2 @ cas_loop d s1 s2 @ cas_tail d s1 s2))))]"
proof -
  define m where "m = one_shl 31 OR one_shl (lse_rs d) OR one_shl (lse_rt d) OR one_shl (lse_rn d)"
  define s1 where "s1 = pick_scratch m"
  define s2 where "s2 = pick_scratch (m OR one_shl s1)"
  note wf = decode_lse_wf [OF assms(1)]
  have "cas_regs d s1 s2"
    using scratch_two [OF wf(1,2,3) m_def s1_def s2_def] wf assms(2) by (auto simp: cas_regs_def)
  moreover have "emit_cas d island orig = (cas_head s1 s2 @ cas_loop d s1 s2 @ cas_tail d s1 s2)
      @ [enc_b (word_offset (orig + 4)
          (island + 4 * of_nat (length (cas_head s1 s2 @ cas_loop d s1 s2 @ cas_tail d s1 s2))))]"
    by (simp add: emit_cas_def Let_def cas_head_def cas_loop_def cas_tail_def
      m_def [symmetric] s1_def [symmetric] s2_def [symmetric])
  ultimately show thesis by (rule that)
qed

lemma rmw_code_length: "length (lse.rmw_code d s1 s2 s3) \<le> 18" "13 \<le> length (lse.rmw_code d s1 s2 s3)"
  using emit_compute_length [of d s1 s2 s3]
  by (simp_all add: lse.rmw_code_def rmw_head_def lse.rmw_body_def rmw_tail_def)

lemma cas_code_length:
  "length (cas_head s1 s2 @ cas_loop d s1 s2 @ cas_tail d s1 s2) \<le> 15"
  "14 \<le> length (cas_head s1 s2 @ cas_loop d s1 s2 @ cas_tail d s1 s2)"
  by (simp_all add: cas_head_def cas_loop_def cas_tail_def)

text \<open>Enough room for the way back: the island lies in branch range with 24 words to spare.\<close>

definition island_reachable :: "u64 \<Rightarrow> u64 \<Rightarrow> bool" where
  "island_reachable island orig \<longleftrightarrow>
     (island - orig) AND 3 = 0 \<and> - (2 ^ 27) \<le> sint (island - orig) \<and>
     sint (island - orig) < 2 ^ 27 - 96"

lemma island_round_trip:
  assumes "island_reachable island orig" and "code orig = enc_b (word_offset island orig)"
    and "code_at code island (ws @ [enc_b (word_offset (orig + 4) (island + 4 * of_nat (length ws)))])"
    and "2 \<le> length ws" and "length ws \<le> 24" and "pc s = orig"
    and run: "reaches code (s\<lparr>pc := island\<rparr>) t" and "pc t = island + 4 * of_nat (length ws)"
  shows "reaches code s (t\<lparr>pc := orig + 4\<rparr>)"
proof -
  have r: "(island - orig) AND 3 = 0" "- (2 ^ 27) \<le> sint (island - orig)"
    "sint (island - orig) < 2 ^ 27 - 96"
    using assms(1) unfolding island_reachable_def by blast+
  then have "sint (island - orig) < 2 ^ 27" by linarith
  then have "reaches code s (s\<lparr>pc := island\<rparr>)"
    using branch_taken [of code orig island s] assms(2,6) r(1,2) by blast
  also have "reaches code (s\<lparr>pc := island\<rparr>) t" by (rule run)
  also have "reaches code t (t\<lparr>pc := orig + 4\<rparr>)"
  proof -
    have c: "code (island + 4 * of_nat (length ws))
        = enc_b (word_offset (orig + 4) (island + 4 * of_nat (length ws)))"
      using assms(3) by (simp add: code_at_append)
    show ?thesis
      using branch_taken [of code _ "orig + 4" t, OF c assms(8)]
        return_displacement [OF r assms(4,5) refl] by blast
  qed
  finally show ?thesis .
qed

lemma rmw_island_atomic:
  assumes dec: "decode_lse w = Some d" and op: "lse_op d \<noteq> LSE_CAS"
    and base: "lse_rn d \<noteq> 31" and narrow: "narrow_ok d (get_x s (lse_rs d))"
    and area: "apart (xreg s (lse_rn d)) (nbytes (lse_size d)) (sp s - 64) 64"
    and frn: "list_all (foreign (sp s - 64) 64) (interference s)"
    and rng: "island_reachable island orig" and "code orig = enc_b (word_offset island orig)"
    and code: "code_at code island (emit_rmw d island orig)" and "pc s = orig"
  shows "\<exists>s'. reaches code s s' \<and> interference s' = [] \<and>
    guest_equiv s' (lse_atomic d (s\<lparr>mem := settled (interference s) (mem s)\<rparr>))"
proof -
  let ?M = "settled (interference s) (mem s)" and ?s = "s\<lparr>pc := island\<rparr>"
  obtain s1 s2 s3 where regs: "lse_regs d s1 s2 s3"
    and shape: "emit_rmw d island orig = lse.rmw_code d s1 s2 s3
      @ [enc_b (word_offset (orig + 4) (island + 4 * of_nat (length (lse.rmw_code d s1 s2 s3))))]"
    by (rule emit_rmw_shape [OF dec])
  let ?ws = "lse.rmw_code d s1 s2 s3"
  have "code_at code (pc ?s) ?ws" using code by (simp add: shape code_at_append)
  then obtain t where t: "reaches code ?s t" "pc t = island + 4 * of_nat (length ?ws)"
    "interference t = []" "sp t = sp s" "nzcv t = nzcv s" "vreg t = vreg s"
    "agree_outside (sp s - 64) 64 (mem t) (lse.updated d ?s ?M)"
    "\<forall>r. r \<noteq> 31 \<longrightarrow> xreg t r = (if r = lse_rt d then lse.old_value d ?s ?M else xreg s r)"
    using lse.code_reaches [OF regs op decode_lse_wf(5) [OF dec] base, of ?s code ?M] narrow area frn
    by (auto cong: if_cong)
  have "reaches code s (t\<lparr>pc := orig + 4\<rparr>)"
    using island_round_trip [OF rng _ _ _ _ _ t(1,2)] assms(8,10) code rmw_code_length [of d s1 s2 s3]
    by (simp add: shape)
  moreover have "guest_equiv (t\<lparr>pc := orig + 4\<rparr>) (lse_atomic d (s\<lparr>mem := ?M\<rparr>))"
    using t op base assms(10)
    by (simp add: guest_equiv_def lse_atomic_def Let_def lse.updated_def lse.old_value_def lse.loc_def
      base_x_def cong: if_cong)
  ultimately show ?thesis using t(3) by (intro exI [of _ "t\<lparr>pc := orig + 4\<rparr>"]) simp
qed

lemma cas_island_atomic:
  assumes dec: "decode_lse w = Some d" and op: "lse_op d = LSE_CAS"
    and base: "lse_rn d \<noteq> 31" and narrow: "narrow_ok d (get_x s (lse_rs d))"
    and area: "apart (xreg s (lse_rn d)) (nbytes (lse_size d)) (sp s - 64) 64"
    and frn: "list_all (foreign (sp s - 64) 64) (interference s)"
    and rng: "island_reachable island orig" and "code orig = enc_b (word_offset island orig)"
    and code: "code_at code island (emit_cas d island orig)" and "pc s = orig"
  shows "\<exists>s' fs. reaches code s s' \<and> interference s = fs @ interference s' \<and>
    guest_equiv s' (lse_atomic d (s\<lparr>mem := settled fs (mem s)\<rparr>))"
proof -
  let ?s = "s\<lparr>pc := island\<rparr>"
  obtain s1 s2 where regs: "cas_regs d s1 s2"
    and shape: "emit_cas d island orig = (cas_head s1 s2 @ cas_loop d s1 s2 @ cas_tail d s1 s2)
      @ [enc_b (word_offset (orig + 4)
           (island + 4 * of_nat (length (cas_head s1 s2 @ cas_loop d s1 s2 @ cas_tail d s1 s2))))]"
    by (rule emit_cas_shape [OF dec op])
  define ws where "ws = cas_head s1 s2 @ cas_loop d s1 s2 @ cas_tail d s1 s2"
  have c: "code_at code (pc ?s) ws"
    using code unfolding shape ws_def [symmetric] code_at_append by simp
  obtain t fs where t: "reaches code ?s t" "pc t = island + 4 * of_nat (length ws)"
    "interference s = fs @ interference t" "sp t = sp s" "nzcv t = nzcv s" "vreg t = vreg s"
    "agree_outside (sp s - 64) 64 (mem t) (cas_updated d ?s (settled fs (mem s)))"
    "\<forall>r. r \<noteq> 31 \<longrightarrow> xreg t r = (if r = lse_rs d then cas_old d ?s (settled fs (mem s)) else xreg s r)"
    using cas_code_reaches [OF regs base, of ?s code] narrow area frn c
    unfolding ws_def by (auto cong: if_cong)
  have "reaches code s (t\<lparr>pc := orig + 4\<rparr>)"
    using island_round_trip [OF rng assms(8) _ _ _ assms(10) t(1,2)] code
      cas_code_length [of s1 s2 d]
    unfolding shape ws_def by simp
  moreover have "guest_equiv (t\<lparr>pc := orig + 4\<rparr>) (lse_atomic d (s\<lparr>mem := settled fs (mem s)\<rparr>))"
    using t op base assms(10)
    by (cases "cas_matches d ?s (settled fs (mem s))"; cases "lse_rs d = 31")
      (simp_all add: guest_equiv_def lse_atomic_def Let_def cas_updated_def cas_old_def cas_matches_def
      base_x_def cong: if_cong)
  ultimately show ?thesis using t(3) by (intro exI [of _ "t\<lparr>pc := orig + 4\<rparr>"] exI [of _ fs]) simp
qed

lemma emit_island_length: "length (emit_island d island orig) \<le> 19"
  using le_trans [OF emit_compute_length [of d], of 5]
  by (simp add: emit_island_def emit_rmw_def emit_cas_def Let_def emit_compute_length)


definition example_cpu :: cpu where
  "example_cpu =
     \<lparr>xreg = (\<lambda>r. if r = 2 then 0x1000 else 5), vreg = (\<lambda>r. ucast r), sp = 0x8000, pc = 0x400000,
      nzcv = 6, mem = (\<lambda>a. ucast a), excl = None, interference = [\<lambda>m. m(0x1000 := 7)]\<rparr>"

definition example_ldadd :: lse_decoded where
  "example_ldadd =
     \<lparr>lse_op = LSE_LDADD, lse_size = 3, lse_acquire = True, lse_release = False,
      lse_rs = 0, lse_rt = 1, lse_rn = 2\<rparr>"

definition example_code :: "u64 \<Rightarrow> u32" where
  "example_code = place 0x500000 (emit_island example_ldadd 0x500000 0x400000)
     (\<lambda>_. enc_b (word_offset 0x500000 0x400000))"


end
