(* ===== verification/Isa_Patch.thy ===== *)
theory Isa_Patch
  imports Lse_Island
begin

text \<open>
  The islands of \<open>BCAX\<close>, and the loop of \<open>isa_emul_patch\<close> over a text section: the pool
  bound, the correspondence of patched sites and islands, and that the estimated pool suffices.
\<close>

section \<open>BCAX islands\<close>

definition bcax_atomic :: "u32 \<Rightarrow> u32 \<Rightarrow> u32 \<Rightarrow> u32 \<Rightarrow> cpu \<Rightarrow> cpu" where
  "bcax_atomic vd vn vm va s = adv (set_v vd (vreg s vn XOR (vreg s vm AND NOT (vreg s va))) s)"

lemma pick_vtmp_free:
  fixes m :: u32
  assumes "\<And>n. bit m n \<Longrightarrow> n \<in> unat ` set L" and "length L < 32"
  shows "\<not> bit m (unat (pick_vtmp m))" and "pick_vtmp m < 32"
proof -
  let ?rs = "map of_nat (rev [0..<32]) :: u32 list" and ?P = "\<lambda>r. m AND push_bit (unat r) 1 = 0"
  have un: "unat (of_nat k :: u32) = k" if "k < 32" for k using that by (simp add: unat_of_nat)
  have lt: "unat r < 32" if "r \<in> set ?rs" for r using that un by auto
  have im: "unat ` set ?rs = {0..<32}" using un by (force simp: image_iff)
  have "find ?P ?rs \<noteq> None"
  proof
    assume "find ?P ?rs = None"
    then have "\<forall>r \<in> set ?rs. \<not> ?P r" unfolding find_None_iff by blast
    then have "\<forall>r \<in> set ?rs. bit m (unat r)" using and_one_shl_zero lt by blast
    then have "unat ` set ?rs \<subseteq> unat ` set L" using assms(1) by blast
    then have "card {0..<32 :: nat} \<le> card (unat ` set L)" unfolding im by (intro card_mono) auto
    also have "\<dots> \<le> length L" using card_image_le [of "set L" unat] card_length [of L] by simp
    finally show False using assms(2) by simp
  qed
  then obtain r where r: "find ?P ?rs = Some r" by auto
  then have "pick_vtmp m = r" by (simp add: pick_vtmp_def)
  moreover have "r \<in> set ?rs" and "?P r" using find_Some_iff_free [OF r] by blast+
  ultimately show "\<not> bit m (unat (pick_vtmp m))" "pick_vtmp m < 32"
    using lt [of r] and_one_shl_zero [of r m] by (simp_all only: word_less_nat_alt) simp_all
qed

lemma vtmp_distinct:
  assumes "vd < 32" "vn < 32" "vm < 32" "va < 32"
    and "t = pick_vtmp (one_shl vd OR one_shl vn OR one_shl vm OR one_shl va)"
  shows "t < 32" and "t \<notin> {vd, vn, vm, va}"
proof -
  let ?m = "one_shl vd OR one_shl vn OR one_shl vm OR one_shl va"
  have b: "bit ?m n \<longleftrightarrow> n \<in> unat ` set [vd, vn, vm, va]" for n
    using assms(1-4) by (auto simp: bit_or_iff bit_one_shl)
  have "\<not> bit ?m (unat t)" "t < 32"
    using pick_vtmp_free [of ?m "[vd, vn, vm, va]"] b assms(5) by auto
  then show "t < 32" "t \<notin> {vd, vn, vm, va}" using b by auto
qed

lemma decode_bcax_wf:
  assumes "decode_bcax w = Some (vd, vn, vm, va)"
  shows "vd < 32" "vn < 32" "vm < 32" "va < 32"
  using assms by (auto simp: decode_bcax_def Let_def split: if_splits)

lemma bcax_body:
  assumes "vd < 32" "vn < 32" "vm < 32" "va < 32" and ne: "\<not> (va = vd \<and> vn = vd)"
  obtains ws "is" where
    "\<And>island orig. emit_bcax_island vd vn vm va island orig =
       ws @ [enc_b (word_offset (orig + 4) (island + 4 * of_nat (length ws)))]"
    and "map decode ws = map Some is" and "list_all straight is" and "2 \<le> length ws" and "length ws \<le> 4"
    and "\<And>s. let s' = fold exec is s in sp s' = sp s \<and> nzcv s' = nzcv s \<and> xreg s' = xreg s \<and>
       interference s' = interference s \<and> agree_outside (sp s - 64) 64 (mem s') (mem s) \<and>
       vreg s' = (vreg s)(vd := vreg s vn XOR (vreg s vm AND NOT (vreg s va)))"
proof (cases "va = vd")
  case True
  show thesis
  proof (rule that [of "[enc_neon_bic vd vm vd, enc_neon_eor vd vn vd]" "[VBIC vd vm vd, VEOR vd vn vd]"])
  qed (use True assms in \<open>simp_all add: emit_bcax_island_def Let_def fun_eq_iff\<close>)
next
  case False
  define t where "t = pick_vtmp (one_shl vd OR one_shl vn OR one_shl vm OR one_shl va)"
  have t: "t < 32" "t \<noteq> vd" "t \<noteq> vn" "t \<noteq> vm" "t \<noteq> va" "vn \<noteq> t" "vd \<noteq> t"
    using vtmp_distinct [OF assms(1-4) t_def] by auto
  have ag: "agree_outside (p - 64) 64 (mem_write m (p - 16) (le_bytes 16 (v :: u128))) m" for p m v
  proof (rule mem_write_inside)
    fix i assume "i < length (le_bytes 16 v)"
    then have "i < 16" by simp
    have "p - 16 + of_nat i - (p - 64) = of_nat (48 + i)" by simp
    then show "in_range (p - 64) 64 (p - 16 + of_nat i)"
      using \<open>i < 16\<close> by (simp add: in_range_def unat_of_nat del: of_nat_add)
  qed
  have rd: "le_val (mem_read 16 (mem_write m a (le_bytes 16 (v :: u128))) a) = v" for m a v
    using take_bit_length_eq [of v] by (simp add: memory)
  show thesis
  proof (rule that [of "[enc_str_q_pre t, enc_neon_bic t vm va, enc_neon_eor vd vn t, enc_ldr_q_post t]"
        "[STRQ_pre t, VBIC t vm va, VEOR vd vn t, LDRQ_post t]"])
  qed (use False t assms ag rd in \<open>simp_all add: emit_bcax_island_def Let_def fun_eq_iff t_def [symmetric]\<close>)
qed


lemma emit_bcax_length: "length (emit_bcax_island vd vn vm va island orig) \<le> 5"
  by (simp add: emit_bcax_island_def Let_def)

text \<open>
  C2.  A patched \<open>BCAX\<close> behaves as the instruction, unless its destination is both the first
  and the last source.
\<close>

theorem bcax_island_equiv:
  assumes "decode_bcax w = Some (vd, vn, vm, va)" and "\<not> (va = vd \<and> vn = vd)"
    and "island_reachable island orig" and "code orig = enc_b (word_offset island orig)"
    and "code_at code island (emit_bcax_island vd vn vm va island orig)" and "pc s = orig"
  shows "\<exists>s'. reaches code s s' \<and> guest_equiv s' (bcax_atomic vd vn vm va s)"
proof -
  obtain ws "is" where eq: "\<And>island orig. emit_bcax_island vd vn vm va island orig =
       ws @ [enc_b (word_offset (orig + 4) (island + 4 * of_nat (length ws)))]"
    and dec: "map decode ws = map Some is" and str: "list_all straight is" and len: "2 \<le> length ws" "length ws \<le> 4"
    and ef: "\<And>s. let s' = fold exec is s in sp s' = sp s \<and> nzcv s' = nzcv s \<and> xreg s' = xreg s \<and>
       interference s' = interference s \<and> agree_outside (sp s - 64) 64 (mem s') (mem s) \<and>
       vreg s' = (vreg s)(vd := vreg s vn XOR (vreg s vm AND NOT (vreg s va)))"
    by (rule bcax_body [OF decode_bcax_wf [OF assms(1)] assms(2)]) blast
  let ?s = "s\<lparr>pc := island\<rparr>"
  define t where "t = fold exec is ?s"
  have "code_at code (pc ?s) ws" using assms(5) by (simp add: eq code_at_append)
  from reaches_straight [OF this dec str] have r: "reaches code ?s t" by (simp add: t_def)
  have "length is = length ws" using dec by (metis length_map)
  then have p: "pc t = island + 4 * of_nat (length ws)"
    using pc_fold_straight [OF str, of ?s] by (simp add: t_def)
  have "reaches code s (t\<lparr>pc := orig + 4\<rparr>)"
    using island_round_trip [OF assms(3,4) _ len(1) _ assms(6) r p] assms(5) len by (simp add: eq)
  moreover have "guest_equiv (t\<lparr>pc := orig + 4\<rparr>) (bcax_atomic vd vn vm va s)"
    using ef [of ?s] assms(6) by (simp add: guest_equiv_def bcax_atomic_def t_def Let_def)
  ultimately show ?thesis by blast
qed

definition example_bcax_code :: "u64 \<Rightarrow> u32" where
  "example_bcax_code = place 0x500000 (emit_bcax_island 0 1 2 3 0x500000 0x400000)
     (\<lambda>_. enc_b (word_offset 0x500000 0x400000))"

theorem bcax_island_equiv_witness:
  "\<exists>s'. reaches example_bcax_code example_cpu s' \<and> guest_equiv s' (bcax_atomic 0 1 2 3 example_cpu)"
proof (rule bcax_island_equiv)
  show "decode_bcax 0xCE220C20 = Some (0, 1, 2, 3)" by (simp add: decode_bcax_def)
  have l: "length (emit_bcax_island 0 1 2 3 0x500000 0x400000) \<le> 5" by (rule emit_bcax_length)
  then show "code_at example_bcax_code 0x500000 (emit_bcax_island 0 1 2 3 0x500000 0x400000)"
    unfolding example_bcax_code_def by (intro code_at_place) simp
  show "example_bcax_code 0x400000 = enc_b (word_offset 0x500000 0x400000)"
    unfolding example_bcax_code_def using l by (subst place_outside) simp_all
  show "island_reachable 0x500000 0x400000" by (simp add: island_reachable_def)
qed (simp_all add: example_cpu_def)

section \<open>The patching loop\<close>

lemma island_for_fits:
  assumes "island_for w island addr = Some (r, words)"
  shows "length words \<le> r" and "r \<le> 24"
  using assms le_trans [OF emit_island_length, of 24]
  by (auto simp: island_for_def emit_bcax_length split: option.splits)

text \<open>One step of the loop, by what happens to the first word.\<close>

lemma isa_emul_patch_from_cases:
  assumes "isa_emul_patch_from addr (w # ws) island pool_end = (code', pool, n)"
  obtains (plain) c where "island_for w island addr = None" and "code' = w # c"
      and "isa_emul_patch_from (addr + 4) ws island pool_end = (c, pool, n)"
  | (full) r words where "island_for w island addr = Some (r, words)"
      and "island + 4 * of_nat r > pool_end" and "code' = w # ws" and "pool = []" and "n = 0"
  | (far) r words c where "island_for w island addr = Some (r, words)"
      and "\<not> island + 4 * of_nat r > pool_end" and "out_of_b_range island addr" and "code' = w # c"
      and "isa_emul_patch_from (addr + 4) ws island pool_end = (c, pool, n)"
  | (patched) r words c p k where "island_for w island addr = Some (r, words)"
      and "\<not> island + 4 * of_nat r > pool_end" and "\<not> out_of_b_range island addr"
      and "code' = enc_b (word_offset island addr) # c" and "pool = words @ p" and "n = Suc k"
      and "isa_emul_patch_from (addr + 4) ws (island + 4 * of_nat (length words)) pool_end = (c, p, k)"
  using assms by (auto split: option.splits prod.splits if_splits)

lemma unat_pool_ptr:
  assumes "unat island \<le> unat pool_end" and "unat pool_end < 2 ^ 63" and "k \<le> 24"
  shows "unat (island + 4 * of_nat k :: u64) = unat island + 4 * k"
proof -
  have "unat (4 * of_nat k :: u64) = 4 * k" using assms(3) by (simp add: unat_word_ariths unat_of_nat)
  then show ?thesis using assms by (subst unat_add_lem [THEN iffD1]) auto
qed

text \<open>
  C3.  The islands written never run past the end of the pool.
\<close>

theorem isa_emul_patch_pool_bound:
  assumes "isa_emul_patch_from addr code island pool_end = (code', pool, n)"
    and "unat island \<le> unat pool_end" and "unat pool_end < 2 ^ 63"
  shows "unat island + 4 * length pool \<le> unat pool_end"
  using assms(1,2)
proof (induction code arbitrary: addr island code' pool n)
  case Nil
  then show ?case by simp
next
  case (Cons w ws)
  note ptr = unat_pool_ptr [OF Cons.prems(2) assms(3)]
  from Cons.prems(1) show ?case
  proof (cases rule: isa_emul_patch_from_cases)
    case (patched r words c p k)
    note fit = island_for_fits [OF patched(1)]
    have "unat island + 4 * r \<le> unat pool_end"
      using patched(2) ptr fit by (simp add: word_le_nat_alt not_less)
    then show ?thesis using Cons.IH [OF patched(7)] ptr [of "length words"] fit patched(5) by simp
  qed (use Cons in \<open>auto\<close>)
qed

definition example_patch :: "u32 list \<times> u32 list \<times> nat" where
  "example_patch = isa_emul_patch_from 0x400000 [ENC_NOP, 0xF8A00041] 0x500000 0x500060"

theorem isa_emul_patch_pool_bound_witness:
  "unat (0x500000 :: u64) + 4 * length (fst (snd example_patch)) \<le> unat (0x500060 :: u64)"
  by (rule isa_emul_patch_pool_bound [of "0x400000" "[ENC_NOP, 0xF8A00041]" _ _ "fst example_patch" _
        "snd (snd example_patch)"]) (simp_all add: example_patch_def)

text \<open>The site at index \<open>i\<close> was replaced by a branch to an island that the pool holds.\<close>

definition patched_site :: "u64 \<Rightarrow> u32 list \<Rightarrow> u64 \<Rightarrow> u32 list \<Rightarrow> u32 list \<Rightarrow> nat \<Rightarrow> bool" where
  "patched_site addr code island code' pool i \<longleftrightarrow>
     (\<exists>k r words. island_for (code ! i) (island + 4 * of_nat k) (addr + 4 * of_nat i) = Some (r, words) \<and>
        decode (code' ! i) = Some (B ((island + 4 * of_nat k) - (addr + 4 * of_nat i))) \<and>
        k + length words \<le> length pool \<and> take (length words) (drop k pool) = words)"

lemma patched_site_shift:
  assumes "patched_site (addr + 4) ws (island + 4 * of_nat (length words)) c p i"
  shows "patched_site addr (w # ws) island (w' # c) (words @ p) (Suc i)"
proof -
  obtain k r wds where "island_for (ws ! i) (island + 4 * of_nat (length words + k)) (addr + 4 * of_nat (Suc i)) = Some (r, wds)"
    "decode (c ! i) = Some (B ((island + 4 * of_nat (length words + k)) - (addr + 4 * of_nat (Suc i))))"
    "k + length wds \<le> length p" "take (length wds) (drop k p) = wds"
    using assms by (auto simp: patched_site_def algebra_simps)
  then show ?thesis unfolding patched_site_def by - (rule exI [of _ "length words + k"], auto)
qed

text \<open>The range check of the loop is the one that makes the branch decode to its displacement.\<close>

lemma decode_site_branch:
  assumes "\<not> out_of_b_range island addr" and "(island - addr) AND 3 = 0"
  shows "decode (enc_b (word_offset island addr)) = Some (B (island - addr))"
proof -
  let ?d = "island - addr"
  have "- 33554432 \<le> sint ?d div 4" "sint ?d div 4 \<le> 33554431"
    using assms(1) by (auto simp: out_of_b_range_def Let_def sint_signed_drop_bit_eq drop_bit_eq_div)
  then have "- 134217728 \<le> sint ?d" and "sint ?d < 134217728" by presburger+
  then show ?thesis using branch_displacement [OF assms(2)] by (simp add: word_offset_def)
qed

lemma word_aligned_step:
  "((a :: u64) - b) AND 3 = 0 \<Longrightarrow> ((a + 4 * x) - (b + 4 * y)) AND 3 = 0"
proof -
  assume "(a - b) AND 3 = 0"
  then have "4 dvd (a - b) + 4 * (x - y)" by (simp add: and_3_eq_0)
  moreover have "(a + 4 * x) - (b + 4 * y) = (a - b) + 4 * (x - y)" by (simp add: algebra_simps)
  ultimately show ?thesis by (simp only: and_3_eq_0)
qed

lemma isa_emul_patch_from_length:
  "isa_emul_patch_from addr code island pool_end = (code', pool, n) \<Longrightarrow> length code' = length code"
proof (induction code arbitrary: addr island code' pool n)
  case (Cons w ws)
  from Cons.prems show ?case
    by (cases rule: isa_emul_patch_from_cases) (use Cons.IH in auto)
qed simp

text \<open>
  C4.  Patching keeps the length of the text, and every word is either left as it was or replaced by
  an instruction that branches exactly to an island in the pool that was emitted for that word at that
  address.
\<close>

theorem isa_emul_patch_sites:
  assumes "isa_emul_patch_from addr code island pool_end = (code', pool, n)" and "i < length code"
    and "(island - addr) AND 3 = 0"
  shows "length code' = length code \<and>
    (code' ! i = code ! i \<or> patched_site addr code island code' pool i)"
  using assms
proof (induction code arbitrary: addr island code' pool n i)
  case Nil
  then show ?case by simp
next
  case (Cons w ws)
  have al: "(island - (addr + 4)) AND 3 = 0" using word_aligned_step [OF Cons.prems(3), of 0 1] by simp
  from Cons.prems(1) show ?case
  proof (cases rule: isa_emul_patch_from_cases)
    case (plain c)
    then show ?thesis
      using Cons.IH [OF plain(3) _ al] patched_site_shift [of addr ws island "[]" c pool] Cons.prems(2)
      by (cases i) (auto simp: isa_emul_patch_from_length)
  next
    case (far r words c)
    then show ?thesis
      using Cons.IH [OF far(5) _ al] patched_site_shift [of addr ws island "[]" c pool] Cons.prems(2)
      by (cases i) (auto simp: isa_emul_patch_from_length)
  next
    case (patched r words c p k)
    have "patched_site addr (w # ws) island code' pool 0"
      using patched decode_site_branch [OF patched(3) Cons.prems(3)] unfolding patched_site_def
      by - (rule exI [of _ 0], auto)
    then show ?thesis
      using Cons.IH [OF patched(7) _ word_aligned_step [OF Cons.prems(3), of _ 1, simplified]] patched_site_shift [of addr ws island words c p] patched
        Cons.prems(2)
      by (cases i) (auto simp: isa_emul_patch_from_length)
  qed simp
qed

theorem isa_emul_patch_sites_witness:
  "length (fst example_patch) = 2 \<and>
    patched_site 0x400000 [ENC_NOP, 0xF8A00041] 0x500000 (fst example_patch) (fst (snd example_patch)) 1"
proof -
  have "fst example_patch ! 1 \<noteq> 0xF8A00041" by code_simp
  then show ?thesis
    using isa_emul_patch_sites [of "0x400000" "[ENC_NOP, 0xF8A00041]" "0x500000" "0x500060"
      "fst example_patch" "fst (snd example_patch)" "snd (snd example_patch)" 1]
    by (simp add: example_patch_def)
qed

lemma island_for_None: "island_for w a b = None \<longleftrightarrow> decode_lse w = None \<and> decode_bcax w = None"
  by (auto simp: island_for_def split: option.splits)

lemma pool_words_Cons:
  "island_for w a b = Some (r, words) \<Longrightarrow> pool_words (w # ws) = r + pool_words ws"
  by (auto simp: island_for_def split: option.splits)

text \<open>
  C5.  A pool of the estimated size is large enough: when every site is in branch range of the whole
  pool, each instruction of the text that has an island is patched.
\<close>

theorem isa_emul_estimate_suffices:
  assumes "isa_emul_patch_from addr code island pool_end = (code', pool, n)"
    and "unat island + isa_emul_estimate_pool_size code \<le> unat pool_end" and "unat pool_end < 2 ^ 63"
    and "\<And>i k. i < length code \<Longrightarrow> k \<le> pool_words code \<Longrightarrow>
          \<not> out_of_b_range (island + 4 * of_nat k) (addr + 4 * of_nat i)"
  shows "n = length (filter (\<lambda>w. decode_lse w \<noteq> None \<or> decode_bcax w \<noteq> None) code)"
  using assms(1,2,4)
proof (induction code arbitrary: addr island code' pool n)
  case Nil
  then show ?case by simp
next
  case (Cons w ws)
  note est = Cons.prems(2) [unfolded isa_emul_estimate_pool_size_def]
  have ptr: "unat (island + 4 * of_nat k) = unat island + 4 * k" if "k \<le> 24" for k
    using est assms(3) that by (intro unat_pool_ptr [of _ pool_end]) auto
  from Cons.prems(1) show ?case
  proof (cases rule: isa_emul_patch_from_cases)
    case (plain c)
    have "\<not> out_of_b_range (island + 4 * of_nat k) (addr + 4 + 4 * of_nat i)"
      if "i < length ws" "k \<le> pool_words ws" for i k
      using Cons.prems(3) [of "Suc i" k] that by (simp add: algebra_simps)
    from Cons.IH [OF plain(3) _ this] plain(1) est show ?thesis
      by (simp add: island_for_None isa_emul_estimate_pool_size_def)
  next
    case (full r words)
    then show ?thesis
      using est pool_words_Cons [OF full(1)] island_for_fits [OF full(1)] ptr [of r]
      by (simp add: word_less_nat_alt)
  next
    case (far r words c)
    then show ?thesis using Cons.prems(3) [of 0 0] by simp
  next
    case (patched r words c p k)
    note fit = island_for_fits [OF patched(1)] and pw = pool_words_Cons [OF patched(1)]
    have "\<not> out_of_b_range (island + 4 * of_nat (length words) + 4 * of_nat j) (addr + 4 + 4 * of_nat i)"
      if "i < length ws" "j \<le> pool_words ws" for i j
      using Cons.prems(3) [of "Suc i" "length words + j"] that fit pw by (simp add: algebra_simps)
    from Cons.IH [OF patched(7) _ this] show ?thesis
      using est fit pw ptr [of "length words"] patched(1,6) island_for_None [of w island addr]
      by (auto simp: isa_emul_estimate_pool_size_def)
  qed
qed

theorem isa_emul_estimate_suffices_witness:
  "snd (snd example_patch)
     = length (filter (\<lambda>w. decode_lse w \<noteq> None \<or> decode_bcax w \<noteq> None) [ENC_NOP, 0xF8A00041])"
proof (rule isa_emul_estimate_suffices)
  show "isa_emul_patch_from 0x400000 [ENC_NOP, 0xF8A00041] 0x500000 0x500060 =
      (fst example_patch, fst (snd example_patch), snd (snd example_patch))"
    by (simp add: example_patch_def)
  have w: "pool_words [ENC_NOP, 0xF8A00041] = 24"
    by (simp add: ENC_NOP_def decode_lse_def decode_bcax_def)
  then show "unat (0x500000 :: u64) + isa_emul_estimate_pool_size [ENC_NOP, 0xF8A00041] \<le> unat (0x500060 :: u64)"
    by (simp add: isa_emul_estimate_pool_size_def)
  fix i k :: nat assume "i < length [ENC_NOP, 0xF8A00041 :: u32]" and "k \<le> pool_words [ENC_NOP, 0xF8A00041]"
  then have "i \<in> {0, 1}" and "k \<in> set [0..<25]" using w by auto
  then show "\<not> out_of_b_range (0x500000 + 4 * of_nat k) (0x400000 + 4 * of_nat i)"
    by (auto simp: out_of_b_range_def upt_rec)
qed simp

section \<open>Where the islands differ from the instructions\<close>

text \<open>
  \<open>BCAX Vd, Vd, Vm, Vd\<close>: the first instruction of the island overwrites the register the second
  still needs, and the result is zero.
\<close>

lemma bcax_island_clobbers:
  assumes "vd < 32" and "vm < 32"
  shows "map decode (emit_bcax_island vd vd vm vd island orig)
      = map Some [VBIC vd vm vd, VEOR vd vd vd]
        @ [decode (enc_b (word_offset (orig + 4) (island + 8)))]"
    and "vreg (fold exec [VBIC vd vm vd, VEOR vd vd vd] s) vd = 0"
    and "vreg (bcax_atomic vd vd vm vd s) vd = vreg s vd XOR (vreg s vm AND NOT (vreg s vd))"
  using assms by (simp_all add: emit_bcax_island_def Let_def bcax_atomic_def)

text \<open>
  An island at the far end of the accepted range: the patch is made, but the way back from the
  island does not lead to the instruction after the original.
\<close>

lemma far_island_loses_return:
  "\<not> out_of_b_range 0x17FFFFFC 0x10000000"
  "length (emit_island example_ldadd 0x17FFFFFC 0x10000000) = 16"
  "decode (emit_island example_ldadd 0x17FFFFFC 0x10000000 ! 15) = Some (B 0x7FFFFCC)"
  "(0x17FFFFFC :: u64) + 4 * 15 + 0x7FFFFCC \<noteq> 0x10000000 + 4"
  by code_simp+

text \<open>
  With the stack pointer as base register the load-exclusive reads below the address the atomic
  names, since the prologue has moved the stack pointer.
\<close>

lemma sp_base_moves:
  assumes "in_island s0 scr vs m s"
  shows "exec (LDXR sz rt 31) s = adv (set_x rt (load sz (mem s) (sp s0 - 64)) (s\<lparr>excl := Some (sp s0 - 64, sz)\<rparr>))"
  using assms by (simp add: base_x_def in_island_def)

end
