(* ===== verification/Errno.thy ===== *)
theory Errno
  imports Prelude
begin

text \<open>
  The error number translations of the system call gate: \<open>syscall_range_000_099.c\<close>,
  \<open>syscall_range_100_199.c\<close>, \<open>syscall_range_200_399.c\<close> and
  \<open>syscall_range_400_plus.c\<close> each have their own table from Linux to Darwin numbers.  The
  left-hand names are the values of the Linux headers for aarch64.
\<close>

section \<open>Error numbers\<close>

abbreviation (input) EPERM :: int where "EPERM \<equiv> 1"
abbreviation (input) ENOENT :: int where "ENOENT \<equiv> 2"
abbreviation (input) ESRCH :: int where "ESRCH \<equiv> 3"
abbreviation (input) EINTR :: int where "EINTR \<equiv> 4"
abbreviation (input) EIO :: int where "EIO \<equiv> 5"
abbreviation (input) ENXIO :: int where "ENXIO \<equiv> 6"
abbreviation (input) E2BIG :: int where "E2BIG \<equiv> 7"
abbreviation (input) ENOEXEC :: int where "ENOEXEC \<equiv> 8"
abbreviation (input) EBADF :: int where "EBADF \<equiv> 9"
abbreviation (input) ECHILD :: int where "ECHILD \<equiv> 10"
abbreviation (input) EAGAIN :: int where "EAGAIN \<equiv> 11"
abbreviation (input) ENOMEM :: int where "ENOMEM \<equiv> 12"
abbreviation (input) EACCES :: int where "EACCES \<equiv> 13"
abbreviation (input) EFAULT :: int where "EFAULT \<equiv> 14"
abbreviation (input) ENOTBLK :: int where "ENOTBLK \<equiv> 15"
abbreviation (input) EBUSY :: int where "EBUSY \<equiv> 16"
abbreviation (input) EEXIST :: int where "EEXIST \<equiv> 17"
abbreviation (input) EXDEV :: int where "EXDEV \<equiv> 18"
abbreviation (input) ENODEV :: int where "ENODEV \<equiv> 19"
abbreviation (input) ENOTDIR :: int where "ENOTDIR \<equiv> 20"
abbreviation (input) EISDIR :: int where "EISDIR \<equiv> 21"
abbreviation (input) EINVAL :: int where "EINVAL \<equiv> 22"
abbreviation (input) ENFILE :: int where "ENFILE \<equiv> 23"
abbreviation (input) EMFILE :: int where "EMFILE \<equiv> 24"
abbreviation (input) ENOTTY :: int where "ENOTTY \<equiv> 25"
abbreviation (input) ETXTBSY :: int where "ETXTBSY \<equiv> 26"
abbreviation (input) EFBIG :: int where "EFBIG \<equiv> 27"
abbreviation (input) ENOSPC :: int where "ENOSPC \<equiv> 28"
abbreviation (input) ESPIPE :: int where "ESPIPE \<equiv> 29"
abbreviation (input) EROFS :: int where "EROFS \<equiv> 30"
abbreviation (input) EMLINK :: int where "EMLINK \<equiv> 31"
abbreviation (input) EPIPE :: int where "EPIPE \<equiv> 32"
abbreviation (input) EDOM :: int where "EDOM \<equiv> 33"
abbreviation (input) ERANGE :: int where "ERANGE \<equiv> 34"
abbreviation (input) EDEADLK :: int where "EDEADLK \<equiv> 35"
abbreviation (input) ENAMETOOLONG :: int where "ENAMETOOLONG \<equiv> 36"
abbreviation (input) ENOLCK :: int where "ENOLCK \<equiv> 37"
abbreviation (input) ENOSYS :: int where "ENOSYS \<equiv> 38"
abbreviation (input) ENOTEMPTY :: int where "ENOTEMPTY \<equiv> 39"
abbreviation (input) ELOOP :: int where "ELOOP \<equiv> 40"
abbreviation (input) ENOMSG :: int where "ENOMSG \<equiv> 42"
abbreviation (input) EIDRM :: int where "EIDRM \<equiv> 43"
abbreviation (input) ENOSTR :: int where "ENOSTR \<equiv> 60"
abbreviation (input) ENODATA :: int where "ENODATA \<equiv> 61"
abbreviation (input) ETIME :: int where "ETIME \<equiv> 62"
abbreviation (input) ENOSR :: int where "ENOSR \<equiv> 63"
abbreviation (input) EREMOTE :: int where "EREMOTE \<equiv> 66"
abbreviation (input) ENOLINK :: int where "ENOLINK \<equiv> 67"
abbreviation (input) EPROTO :: int where "EPROTO \<equiv> 71"
abbreviation (input) EMULTIHOP :: int where "EMULTIHOP \<equiv> 72"
abbreviation (input) EBADMSG :: int where "EBADMSG \<equiv> 74"
abbreviation (input) EOVERFLOW :: int where "EOVERFLOW \<equiv> 75"
abbreviation (input) EILSEQ :: int where "EILSEQ \<equiv> 84"
abbreviation (input) EUSERS :: int where "EUSERS \<equiv> 87"
abbreviation (input) ENOTSOCK :: int where "ENOTSOCK \<equiv> 88"
abbreviation (input) EDESTADDRREQ :: int where "EDESTADDRREQ \<equiv> 89"
abbreviation (input) EMSGSIZE :: int where "EMSGSIZE \<equiv> 90"
abbreviation (input) EPROTOTYPE :: int where "EPROTOTYPE \<equiv> 91"
abbreviation (input) ENOPROTOOPT :: int where "ENOPROTOOPT \<equiv> 92"
abbreviation (input) EPROTONOSUPPORT :: int where "EPROTONOSUPPORT \<equiv> 93"
abbreviation (input) ESOCKTNOSUPPORT :: int where "ESOCKTNOSUPPORT \<equiv> 94"
abbreviation (input) ENOTSUP :: int where "ENOTSUP \<equiv> 95"
abbreviation (input) EPFNOSUPPORT :: int where "EPFNOSUPPORT \<equiv> 96"
abbreviation (input) EAFNOSUPPORT :: int where "EAFNOSUPPORT \<equiv> 97"
abbreviation (input) EADDRINUSE :: int where "EADDRINUSE \<equiv> 98"
abbreviation (input) EADDRNOTAVAIL :: int where "EADDRNOTAVAIL \<equiv> 99"
abbreviation (input) ENETDOWN :: int where "ENETDOWN \<equiv> 100"
abbreviation (input) ENETUNREACH :: int where "ENETUNREACH \<equiv> 101"
abbreviation (input) ENETRESET :: int where "ENETRESET \<equiv> 102"
abbreviation (input) ECONNABORTED :: int where "ECONNABORTED \<equiv> 103"
abbreviation (input) ECONNRESET :: int where "ECONNRESET \<equiv> 104"
abbreviation (input) ENOBUFS :: int where "ENOBUFS \<equiv> 105"
abbreviation (input) EISCONN :: int where "EISCONN \<equiv> 106"
abbreviation (input) ENOTCONN :: int where "ENOTCONN \<equiv> 107"
abbreviation (input) ESHUTDOWN :: int where "ESHUTDOWN \<equiv> 108"
abbreviation (input) ETOOMANYREFS :: int where "ETOOMANYREFS \<equiv> 109"
abbreviation (input) ETIMEDOUT :: int where "ETIMEDOUT \<equiv> 110"
abbreviation (input) ECONNREFUSED :: int where "ECONNREFUSED \<equiv> 111"
abbreviation (input) EHOSTDOWN :: int where "EHOSTDOWN \<equiv> 112"
abbreviation (input) EHOSTUNREACH :: int where "EHOSTUNREACH \<equiv> 113"
abbreviation (input) EALREADY :: int where "EALREADY \<equiv> 114"
abbreviation (input) EINPROGRESS :: int where "EINPROGRESS \<equiv> 115"
abbreviation (input) ESTALE :: int where "ESTALE \<equiv> 116"
abbreviation (input) EDQUOT :: int where "EDQUOT \<equiv> 122"
abbreviation (input) ECANCELED :: int where "ECANCELED \<equiv> 125"
abbreviation (input) EOWNERDEAD :: int where "EOWNERDEAD \<equiv> 130"
abbreviation (input) ENOTRECOVERABLE :: int where "ENOTRECOVERABLE \<equiv> 131"

abbreviation (input) DARWIN_EPERM :: int where "DARWIN_EPERM \<equiv> 1"
abbreviation (input) DARWIN_ENOENT :: int where "DARWIN_ENOENT \<equiv> 2"
abbreviation (input) DARWIN_ESRCH :: int where "DARWIN_ESRCH \<equiv> 3"
abbreviation (input) DARWIN_EINTR :: int where "DARWIN_EINTR \<equiv> 4"
abbreviation (input) DARWIN_EIO :: int where "DARWIN_EIO \<equiv> 5"
abbreviation (input) DARWIN_ENXIO :: int where "DARWIN_ENXIO \<equiv> 6"
abbreviation (input) DARWIN_E2BIG :: int where "DARWIN_E2BIG \<equiv> 7"
abbreviation (input) DARWIN_ENOEXEC :: int where "DARWIN_ENOEXEC \<equiv> 8"
abbreviation (input) DARWIN_EBADF :: int where "DARWIN_EBADF \<equiv> 9"
abbreviation (input) DARWIN_ECHILD :: int where "DARWIN_ECHILD \<equiv> 10"
abbreviation (input) DARWIN_EDEADLK :: int where "DARWIN_EDEADLK \<equiv> 11"
abbreviation (input) DARWIN_ENOMEM :: int where "DARWIN_ENOMEM \<equiv> 12"
abbreviation (input) DARWIN_EACCES :: int where "DARWIN_EACCES \<equiv> 13"
abbreviation (input) DARWIN_EFAULT :: int where "DARWIN_EFAULT \<equiv> 14"
abbreviation (input) DARWIN_EBUSY :: int where "DARWIN_EBUSY \<equiv> 16"
abbreviation (input) DARWIN_EEXIST :: int where "DARWIN_EEXIST \<equiv> 17"
abbreviation (input) DARWIN_EXDEV :: int where "DARWIN_EXDEV \<equiv> 18"
abbreviation (input) DARWIN_ENODEV :: int where "DARWIN_ENODEV \<equiv> 19"
abbreviation (input) DARWIN_ENOTDIR :: int where "DARWIN_ENOTDIR \<equiv> 20"
abbreviation (input) DARWIN_EISDIR :: int where "DARWIN_EISDIR \<equiv> 21"
abbreviation (input) DARWIN_EINVAL :: int where "DARWIN_EINVAL \<equiv> 22"
abbreviation (input) DARWIN_ENFILE :: int where "DARWIN_ENFILE \<equiv> 23"
abbreviation (input) DARWIN_EMFILE :: int where "DARWIN_EMFILE \<equiv> 24"
abbreviation (input) DARWIN_ENOTTY :: int where "DARWIN_ENOTTY \<equiv> 25"
abbreviation (input) DARWIN_EFBIG :: int where "DARWIN_EFBIG \<equiv> 27"
abbreviation (input) DARWIN_ENOSPC :: int where "DARWIN_ENOSPC \<equiv> 28"
abbreviation (input) DARWIN_ESPIPE :: int where "DARWIN_ESPIPE \<equiv> 29"
abbreviation (input) DARWIN_EROFS :: int where "DARWIN_EROFS \<equiv> 30"
abbreviation (input) DARWIN_EMLINK :: int where "DARWIN_EMLINK \<equiv> 31"
abbreviation (input) DARWIN_EPIPE :: int where "DARWIN_EPIPE \<equiv> 32"
abbreviation (input) DARWIN_EDOM :: int where "DARWIN_EDOM \<equiv> 33"
abbreviation (input) DARWIN_ERANGE :: int where "DARWIN_ERANGE \<equiv> 34"
abbreviation (input) DARWIN_EAGAIN :: int where "DARWIN_EAGAIN \<equiv> 35"
abbreviation (input) DARWIN_EINPROGRESS :: int where "DARWIN_EINPROGRESS \<equiv> 36"
abbreviation (input) DARWIN_EALREADY :: int where "DARWIN_EALREADY \<equiv> 37"
abbreviation (input) DARWIN_ENOTSOCK :: int where "DARWIN_ENOTSOCK \<equiv> 38"
abbreviation (input) DARWIN_EDESTADDRREQ :: int where "DARWIN_EDESTADDRREQ \<equiv> 39"
abbreviation (input) DARWIN_EMSGSIZE :: int where "DARWIN_EMSGSIZE \<equiv> 40"
abbreviation (input) DARWIN_EPROTOTYPE :: int where "DARWIN_EPROTOTYPE \<equiv> 41"
abbreviation (input) DARWIN_ENOPROTOOPT :: int where "DARWIN_ENOPROTOOPT \<equiv> 42"
abbreviation (input) DARWIN_EPROTONOSUPPORT :: int where "DARWIN_EPROTONOSUPPORT \<equiv> 43"
abbreviation (input) DARWIN_ENOTSUP :: int where "DARWIN_ENOTSUP \<equiv> 45"
abbreviation (input) DARWIN_EAFNOSUPPORT :: int where "DARWIN_EAFNOSUPPORT \<equiv> 47"
abbreviation (input) DARWIN_EADDRINUSE :: int where "DARWIN_EADDRINUSE \<equiv> 48"
abbreviation (input) DARWIN_EADDRNOTAVAIL :: int where "DARWIN_EADDRNOTAVAIL \<equiv> 49"
abbreviation (input) DARWIN_ENETDOWN :: int where "DARWIN_ENETDOWN \<equiv> 50"
abbreviation (input) DARWIN_ENETUNREACH :: int where "DARWIN_ENETUNREACH \<equiv> 51"
abbreviation (input) DARWIN_ENETRESET :: int where "DARWIN_ENETRESET \<equiv> 52"
abbreviation (input) DARWIN_ECONNABORTED :: int where "DARWIN_ECONNABORTED \<equiv> 53"
abbreviation (input) DARWIN_ECONNRESET :: int where "DARWIN_ECONNRESET \<equiv> 54"
abbreviation (input) DARWIN_ENOBUFS :: int where "DARWIN_ENOBUFS \<equiv> 55"
abbreviation (input) DARWIN_EISCONN :: int where "DARWIN_EISCONN \<equiv> 56"
abbreviation (input) DARWIN_ENOTCONN :: int where "DARWIN_ENOTCONN \<equiv> 57"
abbreviation (input) DARWIN_ESHUTDOWN :: int where "DARWIN_ESHUTDOWN \<equiv> 58"
abbreviation (input) DARWIN_ETIMEDOUT :: int where "DARWIN_ETIMEDOUT \<equiv> 60"
abbreviation (input) DARWIN_ECONNREFUSED :: int where "DARWIN_ECONNREFUSED \<equiv> 61"
abbreviation (input) DARWIN_ELOOP :: int where "DARWIN_ELOOP \<equiv> 62"
abbreviation (input) DARWIN_ENAMETOOLONG :: int where "DARWIN_ENAMETOOLONG \<equiv> 63"
abbreviation (input) DARWIN_EHOSTUNREACH :: int where "DARWIN_EHOSTUNREACH \<equiv> 65"
abbreviation (input) DARWIN_ENOTEMPTY :: int where "DARWIN_ENOTEMPTY \<equiv> 66"
abbreviation (input) DARWIN_EDQUOT :: int where "DARWIN_EDQUOT \<equiv> 69"
abbreviation (input) DARWIN_ESTALE :: int where "DARWIN_ESTALE \<equiv> 70"
abbreviation (input) DARWIN_ENOLCK :: int where "DARWIN_ENOLCK \<equiv> 77"
abbreviation (input) DARWIN_ENOSYS :: int where "DARWIN_ENOSYS \<equiv> 78"
abbreviation (input) DARWIN_EOVERFLOW :: int where "DARWIN_EOVERFLOW \<equiv> 84"
abbreviation (input) DARWIN_ECANCELED :: int where "DARWIN_ECANCELED \<equiv> 89"
abbreviation (input) DARWIN_EILSEQ :: int where "DARWIN_EILSEQ \<equiv> 92"

section \<open>The tables\<close>

definition errno_table_000 :: "(int \<times> int) list" where
  "errno_table_000 =
     [(0, DARWIN_EIO), (EAGAIN, DARWIN_EAGAIN), (EDEADLK, DARWIN_EDEADLK),
      (ENOSYS, DARWIN_ENOSYS), (ENOTSUP, DARWIN_ENOTSUP),
      (EAFNOSUPPORT, DARWIN_EAFNOSUPPORT), (ENAMETOOLONG, DARWIN_ENAMETOOLONG)]"

definition darwin_errno_from_linux_000 :: "int \<Rightarrow> int" where
  "darwin_errno_from_linux_000 err =
     (case map_of errno_table_000 err of Some darwin_errno \<Rightarrow> darwin_errno | None \<Rightarrow> err)"

definition errno_table_100 :: "(int \<times> int) list" where
  "errno_table_100 =
     [(0, 0), (EPERM, DARWIN_EPERM), (ENOENT, DARWIN_ENOENT), (ESRCH, DARWIN_ESRCH),
      (EINTR, DARWIN_EINTR), (EIO, DARWIN_EIO), (ENXIO, DARWIN_ENXIO), (E2BIG, DARWIN_E2BIG),
      (ENOEXEC, DARWIN_ENOEXEC), (EBADF, DARWIN_EBADF), (ECHILD, DARWIN_ECHILD),
      (EDEADLK, DARWIN_EDEADLK), (ENOMEM, DARWIN_ENOMEM), (EACCES, DARWIN_EACCES),
      (EFAULT, DARWIN_EFAULT), (EBUSY, DARWIN_EBUSY), (EEXIST, DARWIN_EEXIST),
      (EXDEV, DARWIN_EXDEV), (ENODEV, DARWIN_ENODEV), (ENOTDIR, DARWIN_ENOTDIR),
      (EISDIR, DARWIN_EISDIR), (EINVAL, DARWIN_EINVAL), (ENFILE, DARWIN_ENFILE),
      (EMFILE, DARWIN_EMFILE), (ENOTTY, DARWIN_ENOTTY), (EFBIG, DARWIN_EFBIG),
      (ENOSPC, DARWIN_ENOSPC), (ESPIPE, DARWIN_ESPIPE), (EROFS, DARWIN_EROFS),
      (EMLINK, DARWIN_EMLINK), (EPIPE, DARWIN_EPIPE), (EDOM, DARWIN_EDOM),
      (ERANGE, DARWIN_ERANGE), (EAGAIN, DARWIN_EAGAIN), (EINPROGRESS, DARWIN_EINPROGRESS),
      (EALREADY, DARWIN_EALREADY), (ENOTSOCK, DARWIN_ENOTSOCK),
      (EDESTADDRREQ, DARWIN_EDESTADDRREQ), (EMSGSIZE, DARWIN_EMSGSIZE),
      (EPROTOTYPE, DARWIN_EPROTOTYPE), (ENOPROTOOPT, DARWIN_ENOPROTOOPT),
      (EPROTONOSUPPORT, DARWIN_EPROTONOSUPPORT), (ENOTSUP, DARWIN_ENOTSUP),
      (EAFNOSUPPORT, DARWIN_EAFNOSUPPORT), (EADDRINUSE, DARWIN_EADDRINUSE),
      (EADDRNOTAVAIL, DARWIN_EADDRNOTAVAIL), (ENETDOWN, DARWIN_ENETDOWN),
      (ENETUNREACH, DARWIN_ENETUNREACH), (ENETRESET, DARWIN_ENETRESET),
      (ECONNABORTED, DARWIN_ECONNABORTED), (ECONNRESET, DARWIN_ECONNRESET),
      (ENOBUFS, DARWIN_ENOBUFS), (EISCONN, DARWIN_EISCONN), (ENOTCONN, DARWIN_ENOTCONN),
      (ESHUTDOWN, DARWIN_ESHUTDOWN), (ETIMEDOUT, DARWIN_ETIMEDOUT),
      (ECONNREFUSED, DARWIN_ECONNREFUSED), (ELOOP, DARWIN_ELOOP),
      (ENAMETOOLONG, DARWIN_ENAMETOOLONG), (EHOSTUNREACH, DARWIN_EHOSTUNREACH),
      (ENOTEMPTY, DARWIN_ENOTEMPTY), (EDQUOT, DARWIN_EDQUOT), (ESTALE, DARWIN_ESTALE),
      (ENOLCK, DARWIN_ENOLCK), (ENOSYS, DARWIN_ENOSYS), (EOVERFLOW, DARWIN_EOVERFLOW),
      (ECANCELED, DARWIN_ECANCELED), (EILSEQ, DARWIN_EILSEQ)]"

definition darwin_errno_from_linux_100 :: "int \<Rightarrow> int" where
  "darwin_errno_from_linux_100 err =
     (case map_of errno_table_100 err of Some darwin_errno \<Rightarrow> darwin_errno | None \<Rightarrow> DARWIN_EINVAL)"

definition errno_table_200 :: "(int \<times> int) list" where
  "errno_table_200 =
     [(EPERM, 1), (ENOENT, 2), (ESRCH, 3), (EINTR, 4), (EIO, 5), (ENXIO, 6), (E2BIG, 7),
      (ENOEXEC, 8), (EBADF, 9), (ECHILD, 10), (EDEADLK, 11), (ENOMEM, 12), (EACCES, 13),
      (EFAULT, 14), (EBUSY, 16), (EEXIST, 17), (EXDEV, 18), (ENODEV, 19), (ENOTDIR, 20),
      (EISDIR, 21), (EINVAL, 22), (ENFILE, 23), (EMFILE, 24), (ENOTTY, 25), (ETXTBSY, 26),
      (EFBIG, 27), (ENOSPC, 28), (ESPIPE, 29), (EROFS, 30), (EMLINK, 31), (EPIPE, 32),
      (EDOM, 33), (ERANGE, 34), (EAGAIN, 35), (EINPROGRESS, 36), (EALREADY, 37),
      (ENOTSOCK, 38), (EDESTADDRREQ, 39), (EMSGSIZE, 40), (EPROTOTYPE, 41),
      (ENOPROTOOPT, 42), (EPROTONOSUPPORT, 43), (ESOCKTNOSUPPORT, 44), (ENOTSUP, 45),
      (EPFNOSUPPORT, 46), (EAFNOSUPPORT, 47), (EADDRINUSE, 48), (EADDRNOTAVAIL, 49),
      (ENETDOWN, 50), (ENETUNREACH, 51), (ENETRESET, 52), (ECONNABORTED, 53),
      (ECONNRESET, 54), (ENOBUFS, 55), (EISCONN, 56), (ENOTCONN, 57), (ESHUTDOWN, 58),
      (ETOOMANYREFS, 59), (ETIMEDOUT, 60), (ECONNREFUSED, 61), (ELOOP, 62),
      (ENAMETOOLONG, 63), (EHOSTDOWN, 64), (EHOSTUNREACH, 65), (ENOTEMPTY, 66), (EDQUOT, 69),
      (ESTALE, 70), (EREMOTE, 71), (ENOLCK, 77), (ENOSYS, DARWIN_ENOSYS), (EOVERFLOW, 84),
      (ECANCELED, 89), (EIDRM, 90), (ENOMSG, 91), (EILSEQ, 92), (EBADMSG, 94),
      (EMULTIHOP, 95), (ENODATA, 96), (ENOLINK, 97), (ENOSR, 98), (ENOSTR, 99),
      (EPROTO, 100), (ETIME, 101), (ENOTRECOVERABLE, 104), (EOWNERDEAD, 105)]"

definition errno_to_darwin :: "int \<Rightarrow> int" where
  "errno_to_darwin err =
     (case map_of errno_table_200 err of Some darwin_errno \<Rightarrow> darwin_errno | None \<Rightarrow> err)"

definition errno_table_400 :: "(int \<times> int) list" where
  "errno_table_400 =
     [(EPERM, 1), (ENOENT, 2), (ESRCH, 3), (EINTR, 4), (EIO, 5), (ENXIO, 6), (E2BIG, 7),
      (ENOEXEC, 8), (EBADF, 9), (ECHILD, 10), (EAGAIN, 35), (EDEADLK, 11), (ENOMEM, 12),
      (EACCES, 13), (EFAULT, 14), (ENOTBLK, 15), (EBUSY, 16), (EEXIST, 17), (EXDEV, 18),
      (ENODEV, 19), (ENOTDIR, 20), (EISDIR, 21), (EINVAL, 22), (ENFILE, 23), (EMFILE, 24),
      (ENOTTY, 25), (ETXTBSY, 26), (EFBIG, 27), (ENOSPC, 28), (ESPIPE, 29), (EROFS, 30),
      (EMLINK, 31), (EPIPE, 32), (EDOM, 33), (ERANGE, 34), (EINPROGRESS, 36), (EALREADY, 37),
      (ENOTSOCK, 38), (EDESTADDRREQ, 39), (EMSGSIZE, 40), (EPROTOTYPE, 41),
      (ENOPROTOOPT, 42), (EPROTONOSUPPORT, 43), (ESOCKTNOSUPPORT, 44), (ENOTSUP, 45),
      (EPFNOSUPPORT, 46), (EAFNOSUPPORT, 47), (EADDRINUSE, 48), (EADDRNOTAVAIL, 49),
      (ENETDOWN, 50), (ENETUNREACH, 51), (ENETRESET, 52), (ECONNABORTED, 53),
      (ECONNRESET, 54), (ENOBUFS, 55), (EISCONN, 56), (ENOTCONN, 57), (ESHUTDOWN, 58),
      (ETOOMANYREFS, 59), (ETIMEDOUT, 60), (ECONNREFUSED, 61), (ELOOP, 62),
      (ENAMETOOLONG, 63), (EHOSTDOWN, 64), (EHOSTUNREACH, 65), (ENOTEMPTY, 66), (EUSERS, 68),
      (EDQUOT, 69), (ESTALE, 70), (EREMOTE, 71), (ENOLCK, 77), (ENOSYS, DARWIN_ENOSYS)]"

definition linux_errno_to_darwin :: "int \<Rightarrow> int" where
  "linux_errno_to_darwin err =
     (case map_of errno_table_400 err of Some darwin_errno \<Rightarrow> darwin_errno | None \<Rightarrow> DARWIN_EIO)"

section \<open>Agreement\<close>

lemma errno_tables_distinct:
  "distinct (map fst errno_table_100)" "distinct (map fst errno_table_200)"
  "distinct (map fst errno_table_400)"
  by code_simp+

lemma table_100_in_200: "list_all (\<lambda>(e, d). e = 0 \<or> errno_to_darwin e = d) errno_table_100"
  by code_simp

lemma table_400_in_200:
  "list_all (\<lambda>(e, d). errno_to_darwin e = d \<or> e \<in> {ENOTBLK, EUSERS}) errno_table_400"
  by code_simp

text \<open>
  C6.  Where the table of system calls 100 to 199 names an error, the table of system calls 200 to
  399 translates it to the same Darwin number.
\<close>

theorem errno_100_agrees_200:
  assumes "map_of errno_table_100 err = Some d" and "err \<noteq> 0"
  shows "darwin_errno_from_linux_100 err = d \<and> errno_to_darwin err = d"
proof -
  have "(err, d) \<in> set errno_table_100" using assms(1) by (rule map_of_SomeD)
  then show ?thesis
    using table_100_in_200 assms by (auto simp: list_all_iff darwin_errno_from_linux_100_def)
qed

theorem errno_100_agrees_200_witness:
  "darwin_errno_from_linux_100 EAGAIN = DARWIN_EAGAIN \<and> errno_to_darwin EAGAIN = DARWIN_EAGAIN"
  by (rule errno_100_agrees_200) code_simp+

text \<open>
  C7.  The translation of system calls from 400 on yields a Darwin error number for every input:
  between 1 and 78, and no two Linux errors of its table share one.
\<close>

theorem linux_errno_to_darwin_range:
  "1 \<le> linux_errno_to_darwin err \<and> linux_errno_to_darwin err \<le> DARWIN_ENOSYS \<and>
     distinct (map snd errno_table_400)"
proof -
  have t: "list_all (\<lambda>(e, d). 1 \<le> d \<and> d \<le> DARWIN_ENOSYS) errno_table_400" by code_simp
  have "distinct (map snd errno_table_400)" by code_simp
  then show ?thesis using t map_of_SomeD [of errno_table_400 err]
    by (fastforce simp: linux_errno_to_darwin_def list_all_iff split: option.split)
qed

text \<open>
  The table of system calls 0 to 99 names seven errors only, and hands every other Linux number on:
  a refused connection or a directory that is not empty reaches the guest under a number that means
  something else to it.
\<close>

lemma errno_000_passes_on:
  "darwin_errno_from_linux_000 ECONNREFUSED = 111" "errno_to_darwin ECONNREFUSED = 61"
  "darwin_errno_from_linux_000 ENOTEMPTY = 39" "errno_to_darwin ENOTEMPTY = 66"
  by code_simp+

end
