(* ===== verification/Gate_State.thy ===== *)
theory Gate_State
  imports Errno
begin

text \<open>
  \<open>struct syscall_gate_state\<close> (\<open>syscall_gate.h\<close>), the way handlers report a result, and the
  world a handler works on: the guest's registers, its memory, and the kernel behind the calls.  The
  kernel is a parameter of every handler that uses it.
\<close>

record gate_state =
  g_x :: "nat \<Rightarrow> u64"
  g_x30 :: u64
  g_nzcv :: u64
  g_pc :: u64

abbreviation (input) DARWIN_CARRY :: u64 where "DARWIN_CARRY \<equiv> 0x20000000"

definition set_success :: "u64 \<Rightarrow> gate_state \<Rightarrow> gate_state" where
  "set_success result state =
     state\<lparr>g_x := (g_x state)(0 := result), g_nzcv := g_nzcv state AND NOT DARWIN_CARRY\<rparr>"

definition set_failure :: "int \<Rightarrow> gate_state \<Rightarrow> gate_state" where
  "set_failure err state =
     state\<lparr>g_x := (g_x state)(0 := word_of_int err), g_nzcv := g_nzcv state OR DARWIN_CARRY\<rparr>"

text \<open>What the guest reads off after the gate returns.\<close>

definition carry_set :: "gate_state \<Rightarrow> bool" where
  "carry_set state \<longleftrightarrow> bit (g_nzcv state) 29"

lemma carry_results [simp]:
  "\<not> carry_set (set_success r s)" "carry_set (set_failure e s)"
  by (simp_all add: carry_set_def set_success_def set_failure_def bit_simps)

lemma result_registers [simp]:
  "g_x (set_success r s) 0 = r" "g_x (set_failure e s) 0 = word_of_int e"
  by (simp_all add: set_success_def set_failure_def)

text \<open>
  A system call of the kernel returns a C \<open>long\<close>, negative with \<open>errno\<close> set, or not.
  \<open>finish_syscall_result\<close> of the four ranges and of the gate itself.
\<close>

definition errno_or_eio :: "int \<Rightarrow> int" where
  "errno_or_eio err = (if err \<noteq> 0 then err else EIO)"

definition finish_syscall_result_000 :: "int \<Rightarrow> int \<Rightarrow> gate_state \<Rightarrow> gate_state" where
  "finish_syscall_result_000 err result state =
     (if result < 0 then set_failure (darwin_errno_from_linux_000 err) state
      else set_success (word_of_int result) state)"

definition finish_syscall_result_200 :: "int \<Rightarrow> int \<Rightarrow> gate_state \<Rightarrow> gate_state" where
  "finish_syscall_result_200 err result state =
     (if result < 0 then set_failure (errno_to_darwin (errno_or_eio err)) state
      else set_success (word_of_int result) state)"

definition finish_syscall_result_gate :: "int \<Rightarrow> int \<Rightarrow> gate_state \<Rightarrow> gate_state" where
  "finish_syscall_result_gate err result state =
     (if result < 0 then set_failure (errno_or_eio err) state
      else set_success (word_of_int result) state)"

end
