(* ===== verification/Gate_Island.thy ===== *)
theory Gate_Island
  imports Arm64_Machine Gate_State
begin

text \<open>
  The island of a patched system call (\<open>emit_island\<close> of \<open>syscall_gate.c\<close>).  It saves the
  registers into a \<open>struct syscall_gate_state\<close> on the guest's stack, calls the dispatcher with its
  address, restores the registers from it and continues after the call site.  The words it is made of
  run on the machine of \<open>Arm64_Machine\<close>; the dispatcher, which is native code, is any
  computation that keeps the calling convention.
\<close>

section \<open>Encoders\<close>

definition enc_stp_sp :: "u32 \<Rightarrow> u32 \<Rightarrow> u32 \<Rightarrow> u32" where
  "enc_stp_sp rt rt2 offset = 0xA9000000 OR push_bit 15 (offset div 8) OR push_bit 10 rt2 OR push_bit 5 31 OR rt"

definition enc_ldp_sp :: "u32 \<Rightarrow> u32 \<Rightarrow> u32 \<Rightarrow> u32" where
  "enc_ldp_sp rt rt2 offset = 0xA9400000 OR push_bit 15 (offset div 8) OR push_bit 10 rt2 OR push_bit 5 31 OR rt"

definition enc_str_sp :: "u32 \<Rightarrow> u32 \<Rightarrow> u32" where
  "enc_str_sp rt offset = 0xF9000000 OR push_bit 10 (offset div 8) OR push_bit 5 31 OR rt"

definition enc_ldr_sp :: "u32 \<Rightarrow> u32 \<Rightarrow> u32" where
  "enc_ldr_sp rt offset = 0xF9400000 OR push_bit 10 (offset div 8) OR push_bit 5 31 OR rt"

definition enc_sub_sp :: "u32 \<Rightarrow> u32" where
  "enc_sub_sp imm = 0xD10003FF OR push_bit 10 imm"

definition enc_add_sp :: "u32 \<Rightarrow> u32" where
  "enc_add_sp imm = 0x910003FF OR push_bit 10 imm"

definition enc_add_x0_sp_0 :: u32 where
  "enc_add_x0_sp_0 = 0x910003E0"

definition enc_ldr_literal :: "u32 \<Rightarrow> u64 \<Rightarrow> u64 \<Rightarrow> u32" where
  "enc_ldr_literal rt instr literal =
     0x58000000 OR push_bit 5 (ucast (signed_drop_bit 2 (literal - instr)) AND 0x7FFFF) OR rt"

definition enc_blr :: "u32 \<Rightarrow> u32" where
  "enc_blr rn = 0xD63F0000 OR push_bit 5 rn"

definition enc_br :: "u32 \<Rightarrow> u32" where
  "enc_br rn = 0xD61F0000 OR push_bit 5 rn"

abbreviation (input) SYSCALL_GATE_ISLAND_WORDS :: nat where "SYSCALL_GATE_ISLAND_WORDS \<equiv> 96"

section \<open>The island\<close>

definition gate_save :: "u64 \<Rightarrow> u32 list" where
  "gate_save island =
     [enc_sub_sp 192, enc_stp_sp 0 1 0, enc_stp_sp 2 3 16, enc_stp_sp 4 5 32, enc_stp_sp 6 7 48,
      enc_stp_sp 8 9 64, enc_stp_sp 10 11 80, enc_stp_sp 12 13 96, enc_stp_sp 14 15 112,
      enc_stp_sp 16 17 128, enc_str_sp 18 144, enc_str_sp 30 152, enc_mrs_nzcv 16, enc_str_sp 16 160,
      enc_ldr_literal 16 (island + 4 * 14) (island + 4 * 94), enc_str_sp 16 168, enc_add_x0_sp_0,
      enc_ldr_literal 16 (island + 4 * 17) (island + 4 * 92)]"

definition gate_restore :: "u32 list" where
  "gate_restore =
     [enc_ldp_sp 1 2 8, enc_ldp_sp 3 4 24, enc_ldp_sp 5 6 40, enc_ldp_sp 7 8 56, enc_ldp_sp 9 10 72,
      enc_ldp_sp 11 12 88, enc_ldp_sp 13 14 104, enc_ldr_sp 15 120, enc_ldr_sp 17 136, enc_ldr_sp 18 144,
      enc_ldr_sp 30 152, enc_ldr_sp 16 160, enc_msr_nzcv 16, enc_ldr_sp 0 0, enc_ldr_sp 16 168,
      enc_add_sp 192]"

text \<open>An eight-byte literal in the code, and the whole island.\<close>

definition literal_words :: "u64 \<Rightarrow> u32 list" where
  "literal_words v = [ucast v, ucast (drop_bit 32 v)]"

definition gate_emit_island :: "u64 \<Rightarrow> u64 \<Rightarrow> u64 \<Rightarrow> u32 list" where
  "gate_emit_island dispatcher island original =
     (let body = gate_save island @ [enc_blr 16] @ gate_restore @ [enc_br 16]
      in body @ replicate (SYSCALL_GATE_ISLAND_WORDS - 4 - length body) ENC_NOP
           @ literal_words dispatcher @ literal_words (original + 4))"

lemma gate_save_words:
  "gate_save island =
     [0xD10303FF, 0xA90007E0, 0xA9010FE2, 0xA90217E4, 0xA9031FE6, 0xA90427E8, 0xA9052FEA, 0xA90637EC,
      0xA9073FEE, 0xA90847F0, 0xF9004BF2, 0xF9004FFE, 0xD53B4210, 0xF90053F0, 0x58000A10, 0xF90057F0,
      0x910003E0, 0x58000970]"
  by (simp add: gate_save_def enc_sub_sp_def enc_stp_sp_def enc_str_sp_def enc_mrs_nzcv_def enc_ldr_literal_def
      enc_add_x0_sp_0_def)

lemma gate_lengths [simp]:
  "length (gate_save island) = 18" "length gate_restore = 16" "length (literal_words v) = 2"
  by (simp_all add: gate_save_def gate_restore_def literal_words_def)

lemma gate_emit_length [simp]: "length (gate_emit_island d i orig) = SYSCALL_GATE_ISLAND_WORDS"
  by (simp add: gate_emit_island_def)

lemma gate_save_decode:
  "map decode (gate_save island) = map Some
     [SUBI 31 31 192, STP_off 0 1 31 0, STP_off 2 3 31 16, STP_off 4 5 31 32, STP_off 6 7 31 48,
      STP_off 8 9 31 64, STP_off 10 11 31 80, STP_off 12 13 31 96, STP_off 14 15 31 112,
      STP_off 16 17 31 128, STR_off 18 31 144, STR_off 30 31 152, MRS_NZCV 16, STR_off 16 31 160,
      LDR_lit 16 320, STR_off 16 31 168, ADDI 0 31 0, LDR_lit 16 300]"
  unfolding gate_save_words by code_simp

lemma gate_restore_decode:
  "map decode gate_restore = map Some
     [LDP_off 1 2 31 8, LDP_off 3 4 31 24, LDP_off 5 6 31 40, LDP_off 7 8 31 56, LDP_off 9 10 31 72,
      LDP_off 11 12 31 88, LDP_off 13 14 31 104, LDR_off 15 31 120, LDR_off 17 31 136, LDR_off 18 31 144,
      LDR_off 30 31 152, LDR_off 16 31 160, MSR_NZCV 16, LDR_off 0 31 0, LDR_off 16 31 168, ADDI 31 31 192]"
  by code_simp

lemma gate_branch_decode: "decode (enc_blr 16) = Some (BLR 16)" "decode (enc_br 16) = Some (BR 16)"
  by code_simp+

section \<open>Running it\<close>

text \<open>A \<open>struct syscall_gate_state\<close> in memory.\<close>

definition gate_state_at :: "memory \<Rightarrow> u64 \<Rightarrow> gate_state" where
  "gate_state_at m a =
     \<lparr>g_x = (\<lambda>i. if i < 19 then load 3 m (a + 8 * of_nat i) else 0), g_x30 = load 3 m (a + 152),
      g_nzcv = load 3 m (a + 160), g_pc = load 3 m (a + 168)\<rparr>"

text \<open>The state the dispatcher is to see.\<close>

definition saved_state :: "cpu \<Rightarrow> u64 \<Rightarrow> gate_state" where
  "saved_state s resume =
     \<lparr>g_x = (\<lambda>i. if i < 19 then xreg s (of_nat i) else 0), g_x30 = xreg s 30,
      g_nzcv = push_bit 28 (ucast (nzcv s)), g_pc = resume\<rparr>"

lemma store_append:
  assumes "k = of_nat (length bs)" and "length bs < 2 ^ 60"
  shows "store 3 (mem_write m a bs) (a + k) v = mem_write m a (bs @ le_bytes 8 v)"
  using assms by (simp add: store_def mem_write_append)

lemma load_part:
  assumes "k = of_nat i" and "take 8 (drop i bs) = le_bytes 8 v" and "i + 8 \<le> length bs" and "length bs < 2 ^ 64"
  shows "load 3 (mem_write m a bs) (a + k) = v"
  using assms by (simp add: load_def mem_read_part memory)

definition frame_bytes :: "u64 list \<Rightarrow> u8 list" where
  "frame_bytes vs = concat (map (le_bytes 8) vs)"

lemma frame_bytes_length [simp]: "length (frame_bytes vs) = 8 * length vs"
  by (induction vs) (simp_all add: frame_bytes_def)

lemma frame_bytes_take: "i < length vs \<Longrightarrow> take 8 (drop (8 * i) (frame_bytes vs)) = le_bytes 8 (vs ! i)"
  by (induction vs arbitrary: i) (auto simp: frame_bytes_def less_Suc_eq_0_disj)

lemma load_frame:
  assumes "i < length vs" and "length vs < 2 ^ 32"
  shows "load 3 (mem_write m a (frame_bytes vs)) (a + 8 * of_nat i) = vs ! i"
proof (rule load_part [where i = "8 * i"])
  show "8 * of_nat i = (of_nat (8 * i) :: u64)" by simp
qed (use assms frame_bytes_take in auto)

text \<open>The words of the saved state, in the order of the structure.\<close>

definition state_words :: "gate_state \<Rightarrow> u64 list" where
  "state_words st = map (g_x st) [0..<19] @ [g_x30 st, g_nzcv st, g_pc st]"

lemma state_words_length [simp]: "length (state_words st) = 22"
  by (simp add: state_words_def)

lemma gate_state_at_frame:
  assumes "\<And>i. 19 \<le> i \<Longrightarrow> g_x st i = 0"
  shows "gate_state_at (mem_write m a (frame_bytes (state_words st))) a = st"
proof -
  have l: "load 3 (mem_write m a (frame_bytes (state_words st))) (a + 8 * of_nat i) = state_words st ! i" if "i < 22" for i
    using load_frame [of i "state_words st"] that by simp
  have "(if i < 19 then load 3 (mem_write m a (frame_bytes (state_words st))) (a + 8 * of_nat i) else 0) = g_x st i" for i
    using l [of i] assms [of i] by (auto simp: state_words_def nth_append)
  moreover have "state_words st ! 19 = g_x30 st" "state_words st ! 20 = g_nzcv st" "state_words st ! 21 = g_pc st"
    by (simp_all add: state_words_def nth_append)
  ultimately show ?thesis using l [of 19] l [of 20] l [of 21] by (simp add: gate_state_at_def)
qed

text \<open>Stores below the stack pointer change memory only.\<close>

lemma exec_frame:
  "exec (STP_off rt rt2 31 off) (s\<lparr>mem := m, pc := p\<rparr>) =
     s\<lparr>mem := store_pair m (sp s + off) (get_x s rt) (get_x s rt2), pc := p + 4\<rparr>"
  "exec (STR_off rt 31 off) (s\<lparr>mem := m, pc := p\<rparr>) =
     s\<lparr>mem := store 3 m (sp s + off) (get_x s rt), pc := p + 4\<rparr>"
  by (simp_all add: base_x_def get_x_def adv_def)

definition gate_stores :: "instr list" where
  "gate_stores =
     [STP_off 0 1 31 0, STP_off 2 3 31 16, STP_off 4 5 31 32, STP_off 6 7 31 48,
      STP_off 8 9 31 64, STP_off 10 11 31 80, STP_off 12 13 31 96, STP_off 14 15 31 112,
      STP_off 16 17 31 128, STR_off 18 31 144, STR_off 30 31 152]"

lemma gate_stores_frame:
  "fold exec gate_stores s =
     s\<lparr>mem := mem_write (mem s) (sp s) (frame_bytes (take 20 (state_words (saved_state s r)))), pc := pc s + 44\<rparr>"
proof -
  have "fold exec gate_stores (s\<lparr>mem := m, pc := p\<rparr>) =
     s\<lparr>mem := mem_write m (sp s) (frame_bytes (take 20 (state_words (saved_state s r)))), pc := p + 44\<rparr>" for m p
    by (simp add: gate_stores_def exec_frame store_pair_def store_def mem_write_append mem_write_append_left upt_rec
        saved_state_def state_words_def frame_bytes_def get_x_def
        del: exec.simps)
  from this [of "pc s" "mem s"] show ?thesis by simp
qed

lemma frame_bytes_snoc: "frame_bytes (vs @ [v]) = frame_bytes vs @ le_bytes 8 v"
  by (simp add: frame_bytes_def)

lemma gate_saved:
  fixes s :: cpu
  defines "a \<equiv> sp s - 192"
  assumes lit: "load 3 (mem s) (pc s + 376) = resume" "load 3 (mem s) (pc s + 368) = dispatcher"
    and ap: "apart (pc s + 368) 16 a 192"
  shows "fold exec (SUBI 31 31 192 # gate_stores @
      [MRS_NZCV 16, STR_off 16 31 160, LDR_lit 16 320, STR_off 16 31 168, ADDI 0 31 0, LDR_lit 16 300]) s =
    s\<lparr>mem := mem_write (mem s) a (frame_bytes (state_words (saved_state s resume))), pc := pc s + 72, sp := a,
      xreg := (xreg s)(0 := a, 16 := dispatcher)\<rparr>"
proof -
  define ws where "ws = state_words (saved_state s resume)"
  have ws: "ws = take 21 ws @ [resume]" "take 21 ws = take 20 ws @ [push_bit 28 (ucast (nzcv s))]"
    by (simp_all add: ws_def state_words_def saved_state_def take_map)
  define s1 where "s1 = s\<lparr>sp := a, pc := pc s + 4\<rparr>"
  have sub: "exec (SUBI 31 31 192) s = s1" by (simp add: s1_def a_def base_x_def set_base_def adv_def)
  have sv: "saved_state s1 resume = saved_state s resume" by (simp add: saved_state_def s1_def cong: if_cong)
  define m20 where "m20 = mem_write (mem s) a (frame_bytes (take 20 ws))"
  have s2: "fold exec gate_stores s1 = s\<lparr>sp := a, mem := m20, pc := pc s + 48\<rparr>"
    unfolding gate_stores_frame [of s1 resume] sv ws_def [symmetric] m20_def by (simp add: s1_def)
  have ap1: "apart (pc s + 368) 8 a 192" "apart (pc s + 376) 8 a 192"
    using apart_subrange [OF apart_sym [OF ap], of 0 8] apart_subrange [OF apart_sym [OF ap], of 8 8]
    by (simp_all add: apart_sym add.commute)
  have load_lit: "load 3 (mem_write (mem s) a bs) p = load 3 (mem s) p"
    if "apart p 8 a 192" "length bs \<le> 192" for bs p
    by (rule load_agree [OF write_agree_outside [OF that(2)]]) (simp_all add: that)
  have len: "length ws = 22" by (simp add: ws_def)
  have m21: "store 3 m20 (a + 160) (push_bit 28 (ucast (nzcv s))) = mem_write (mem s) a (frame_bytes (take 21 ws))"
    unfolding ws(2) frame_bytes_snoc m20_def by (rule store_append) (simp_all add: len)
  have m22: "store 3 (mem_write (mem s) a (frame_bytes (take 21 ws))) (a + 168) resume = mem_write (mem s) a (frame_bytes ws)"
    by (subst (2) ws(1), unfold frame_bytes_snoc, rule store_append) (simp_all add: len)
  have lits: "load 3 (mem_write (mem s) a (frame_bytes (take 21 ws))) (pc s + 376) = resume"
    "load 3 (mem_write (mem s) a (frame_bytes ws)) (pc s + 368) = dispatcher"
    using lit ap1 by (simp_all add: load_lit len)
  note lits' = lits [unfolded add.commute [of "pc s"]]
  have "fold exec [MRS_NZCV 16, STR_off 16 31 160, LDR_lit 16 320, STR_off 16 31 168, ADDI 0 31 0, LDR_lit 16 300]
      (s\<lparr>sp := a, mem := m20, pc := pc s + 48\<rparr>) =
    s\<lparr>mem := mem_write (mem s) a (frame_bytes ws), pc := pc s + 72, sp := a,
      xreg := (xreg s)(0 := a, 16 := dispatcher)\<rparr>"
    by (simp add: base_x_def get_x_def set_x_def set_base_def adv_def m21 m22 lits lits' fun_upd_twist)
  then show ?thesis unfolding ws_def [symmetric] fold_append fold_simps comp_apply sub s2 .
qed

text \<open>The registers a native routine leaves as they were.\<close>

definition callee_saved :: "u32 set" where
  "callee_saved = {19, 20, 21, 22, 23, 24, 25, 26, 27, 28, 29}"

text \<open>Loads from the frame change registers only.\<close>

lemma exec_loads:
  "rt \<noteq> 31 \<Longrightarrow> rt2 \<noteq> 31 \<Longrightarrow> exec (LDP_off rt rt2 31 off) (s\<lparr>xreg := f, pc := p\<rparr>) =
     s\<lparr>xreg := f(rt := load 3 (mem s) (sp s + off), rt2 := load 3 (mem s) (sp s + (off + 8))), pc := p + 4\<rparr>"
  "rt \<noteq> 31 \<Longrightarrow> exec (LDR_off rt 31 off) (s\<lparr>xreg := f, pc := p\<rparr>) =
     s\<lparr>xreg := f(rt := load 3 (mem s) (sp s + off)), pc := p + 4\<rparr>"
  by (simp_all add: base_x_def load_pair_def set_x_def adv_def add.assoc)

definition gate_loads :: "instr list" where
  "gate_loads =
     [LDP_off 1 2 31 8, LDP_off 3 4 31 24, LDP_off 5 6 31 40, LDP_off 7 8 31 56, LDP_off 9 10 31 72,
      LDP_off 11 12 31 88, LDP_off 13 14 31 104, LDR_off 15 31 120, LDR_off 17 31 136, LDR_off 18 31 144,
      LDR_off 30 31 152, LDR_off 16 31 160]"

lemma gate_restored:
  fixes s :: cpu
  defines "st \<equiv> gate_state_at (mem s) (sp s)"
  shows "fold exec (gate_loads @ [MSR_NZCV 16, LDR_off 0 31 0, LDR_off 16 31 168, ADDI 31 31 192]) s =
    s\<lparr>xreg := (xreg s)(1 := g_x st 1, 2 := g_x st 2, 3 := g_x st 3, 4 := g_x st 4, 5 := g_x st 5,
      6 := g_x st 6, 7 := g_x st 7, 8 := g_x st 8, 9 := g_x st 9, 10 := g_x st 10, 11 := g_x st 11,
      12 := g_x st 12, 13 := g_x st 13, 14 := g_x st 14, 15 := g_x st 15, 17 := g_x st 17, 18 := g_x st 18,
      30 := g_x30 st, 0 := g_x st 0, 16 := g_pc st),
      nzcv := ucast (drop_bit 28 (g_nzcv st)), sp := sp s + 192, pc := pc s + 64\<rparr>"
proof -
  define f where "f = (xreg s)(1 := g_x st 1, 2 := g_x st 2, 3 := g_x st 3, 4 := g_x st 4, 5 := g_x st 5,
      6 := g_x st 6, 7 := g_x st 7, 8 := g_x st 8, 9 := g_x st 9, 10 := g_x st 10, 11 := g_x st 11,
      12 := g_x st 12, 13 := g_x st 13, 14 := g_x st 14, 15 := g_x st 15, 17 := g_x st 17, 18 := g_x st 18,
      30 := g_x30 st, 16 := g_nzcv st)"
  have "fold exec gate_loads (s\<lparr>xreg := g, pc := p\<rparr>) = s\<lparr>xreg := g(1 := g_x st 1, 2 := g_x st 2, 3 := g_x st 3, 4 := g_x st 4, 5 := g_x st 5,
      6 := g_x st 6, 7 := g_x st 7, 8 := g_x st 8, 9 := g_x st 9, 10 := g_x st 10, 11 := g_x st 11,
      12 := g_x st 12, 13 := g_x st 13, 14 := g_x st 14, 15 := g_x st 15, 17 := g_x st 17, 18 := g_x st 18,
      30 := g_x30 st, 16 := g_nzcv st), pc := p + 48\<rparr>" for g p
    unfolding gate_loads_def
    by (simp add: exec_loads st_def gate_state_at_def del: exec.simps)
  from this [of "pc s" "xreg s"] have "fold exec gate_loads s = s\<lparr>xreg := f, pc := pc s + 48\<rparr>" by (simp add: f_def)
  moreover have "fold exec [MSR_NZCV 16, LDR_off 0 31 0, LDR_off 16 31 168, ADDI 31 31 192] (s\<lparr>xreg := f, pc := pc s + 48\<rparr>) =
     s\<lparr>xreg := f(0 := g_x st 0, 16 := g_pc st), nzcv := ucast (drop_bit 28 (g_nzcv st)), sp := sp s + 192, pc := pc s + 64\<rparr>"
    by (simp add: base_x_def get_x_def set_x_def set_base_def adv_def st_def gate_state_at_def f_def)
  ultimately show ?thesis unfolding fold_append comp_apply f_def by simp
qed

text \<open>Words of code in memory, and the literals among them.\<close>

definition words_at :: "memory \<Rightarrow> u64 \<Rightarrow> u32 list \<Rightarrow> bool" where
  "words_at m a ws \<longleftrightarrow> mem_read (4 * length ws) m a = concat (map (le_bytes 4) ws)"

lemma literal_bytes: "concat (map (le_bytes 4) (literal_words v)) = le_bytes 8 v"
proof -
  have "le_bytes 4 (ucast v :: u32) = map (\<lambda>i. ucast (drop_bit (8 * i) v)) [0..<4]"
    unfolding le_bytes_def by (intro map_cong refl bit_word_eqI) (auto simp: bit_simps)
  moreover have "le_bytes 4 (ucast (drop_bit 32 v) :: u32) = map (\<lambda>i. ucast (drop_bit (8 * i) v)) [4..<8]"
  proof -
    have u: "[4..<8] = map (\<lambda>i. i + 4) [0..<4 :: nat]" by (simp add: upt_rec)
    show ?thesis unfolding le_bytes_def u map_map
      by (intro map_cong refl bit_word_eqI) (auto simp: bit_simps algebra_simps)
  qed
  moreover have "[0..<8] = [0..<4] @ [4..<8 :: nat]" by (simp add: upt_rec)
  ultimately show ?thesis by (simp add: literal_words_def le_bytes_def [of 8])
qed

lemma load_literal:
  assumes "words_at m a (xs @ literal_words v @ ys)" and "length xs < 2 ^ 32"
  shows "load 3 m (a + 4 * of_nat (length xs)) = v"
proof -
  have len: "length (concat (map (le_bytes 4) (ws :: u32 list))) = 4 * length ws" for ws by (induction ws) simp_all
  have "mem_read 8 m (a + of_nat (4 * length xs)) =
      take 8 (drop (4 * length xs) (mem_read (4 * length (xs @ literal_words v @ ys)) m a))"
    by (rule mem_read_sub) (simp add: literal_words_def)
  also have "\<dots> = take 8 (concat (map (le_bytes 4) (literal_words v)) @ concat (map (le_bytes 4) ys))"
    using assms(1) by (simp add: words_at_def len)
  also have "\<dots> = le_bytes 8 v" by (simp add: literal_bytes)
  finally show ?thesis by (simp add: load_def memory)
qed

section \<open>From the call site and back\<close>

definition gate_branch :: "u64 \<Rightarrow> u64 \<Rightarrow> u32" where
  "gate_branch instr island = enc_b (ucast (signed_drop_bit 2 (island - instr)))"

lemma decode_gate_branch:
  assumes "arm64_branch_in_range (island - instr)"
  shows "decode (gate_branch instr island) = Some (B (island - instr))"
proof -
  let ?d = "island - instr"
  have "?d AND 3 = 0" and "- (2 ^ 25) \<le> drop_bit 2 (sint ?d)" "drop_bit 2 (sint ?d) < 2 ^ 25"
    using assms by (auto simp: arm64_branch_in_range_def Let_def sint_signed_drop_bit_eq split: if_splits)
  moreover have "drop_bit 2 (sint ?d) = sint ?d div 4" by (simp add: drop_bit_eq_div)
  ultimately have "?d AND 3 = 0" and "- 134217728 \<le> sint ?d" and "sint ?d < 134217728" by simp_all
  then have "push_bit 2 (signed_take_bit 25 (ucast (ucast (signed_drop_bit 2 ?d) :: u32))) = ?d"
    by (intro branch_displacement) simp_all
  then show ?thesis by (simp add: gate_branch_def)
qed

text \<open>A native routine returns to the caller with the stack pointer and the callee-saved registers.\<close>

definition host_returns :: "cpu \<Rightarrow> cpu \<Rightarrow> bool" where
  "host_returns s s' \<longleftrightarrow>
     pc s' = xreg s 30 \<and> sp s' = sp s \<and> (\<forall>r \<in> callee_saved. xreg s' r = xreg s r)"

lemma gate_island_parts:
  "gate_emit_island dispatcher island original =
     gate_save island @ [enc_blr 16] @ gate_restore @ [enc_br 16] @ replicate 56 ENC_NOP @
       literal_words dispatcher @ literal_words (original + 4)"
  by (simp add: gate_emit_island_def)

lemma gate_island_literals:
  assumes "words_at m island (gate_emit_island dispatcher island original)"
  shows "load 3 m (island + 368) = dispatcher" and "load 3 m (island + 376) = original + 4"
proof -
  let ?xs = "gate_save island @ [enc_blr 16] @ gate_restore @ [enc_br 16] @ replicate 56 ENC_NOP"
  have len: "length ?xs = 92" by simp
  show "load 3 m (island + 368) = dispatcher"
    using load_literal [of m island ?xs dispatcher "literal_words (original + 4)"] assms len
    by (simp add: gate_island_parts)
  show "load 3 m (island + 376) = original + 4"
    using load_literal [of m island "?xs @ literal_words dispatcher" "original + 4" "[]"] assms len
    by (simp add: gate_island_parts)
qed

lemma gate_enter:
  assumes code: "code_at code island (gate_emit_island dispatcher island original)"
    and words: "words_at (mem s) island (gate_emit_island dispatcher island original)"
    and pc: "pc s = island" and ap: "apart (island + 368) 16 (sp s - 192) 192"
  shows "reaches code s
    (s\<lparr>mem := mem_write (mem s) (sp s - 192) (frame_bytes (state_words (saved_state s (original + 4)))),
      pc := dispatcher, sp := sp s - 192,
      xreg := (xreg s)(0 := sp s - 192, 16 := dispatcher, 30 := island + 76)\<rparr>)" (is "reaches code s ?t")
proof -
  let ?is = "SUBI 31 31 192 # gate_stores @
      [MRS_NZCV 16, STR_off 16 31 160, LDR_lit 16 320, STR_off 16 31 168, ADDI 0 31 0, LDR_lit 16 300]"
  let ?s1 = "s\<lparr>mem := mem_write (mem s) (sp s - 192) (frame_bytes (state_words (saved_state s (original + 4)))),
      pc := island + 72, sp := sp s - 192, xreg := (xreg s)(0 := sp s - 192, 16 := dispatcher)\<rparr>"
  have c: "code_at code island (gate_save island)" "code (island + 72) = enc_blr 16"
    using code by (simp_all add: gate_island_parts code_at_append add.commute)
  have "map decode (gate_save island) = map Some ?is" using gate_save_decode by (simp add: gate_stores_def)
  moreover have "list_all straight ?is" by (simp add: gate_stores_def)
  ultimately have "reaches code s (fold exec ?is s)" using c(1) pc by (intro reaches_straight) simp_all
  also have "fold exec ?is s = ?s1"
    using gate_saved [of s "original + 4" dispatcher] gate_island_literals [OF words] ap pc by simp
  also have "reaches code ?s1 (exec (BLR 16) ?s1)"
    by (rule reaches_step) (simp add: c(2) gate_branch_decode)
  also have "exec (BLR 16) ?s1 = ?t" by (simp add: get_x_def set_x_def) (simp add: add.commute)
  finally show ?thesis .
qed

lemma gate_leave:
  assumes code: "code_at code island (gate_emit_island dispatcher island original)"
    and pc: "pc s = island + 76"
  obtains s' where "reaches code s s'" and "pc s' = g_pc (gate_state_at (mem s) (sp s))" and "sp s' = sp s + 192"
    and "nzcv s' = ucast (drop_bit 28 (g_nzcv (gate_state_at (mem s) (sp s))))"
    and "mem s' = mem s" and "vreg s' = vreg s" and "xreg s' 30 = g_x30 (gate_state_at (mem s) (sp s))"
    and "\<And>i. i < 19 \<Longrightarrow> i \<noteq> 16 \<Longrightarrow> xreg s' (of_nat i) = g_x (gate_state_at (mem s) (sp s)) i"
    and "\<And>r. r \<in> callee_saved \<Longrightarrow> xreg s' r = xreg s r"
proof -
  let ?is = "gate_loads @ [MSR_NZCV 16, LDR_off 0 31 0, LDR_off 16 31 168, ADDI 31 31 192]"
  let ?s1 = "fold exec ?is s" and ?st = "gate_state_at (mem s) (sp s)"
  have c: "code_at code (island + 76) gate_restore" "code (island + 140) = enc_br 16"
    using code by (simp_all add: gate_island_parts code_at_append add.commute)
  have "map decode gate_restore = map Some ?is" using gate_restore_decode by (simp add: gate_loads_def)
  moreover have "list_all straight ?is" by (simp add: gate_loads_def)
  ultimately have r: "reaches code s ?s1" using c(1) pc by (intro reaches_straight) simp_all
  note s1 = gate_restored [of s]
  have br: "exec (BR 16) ?s1 = ?s1\<lparr>pc := g_pc ?st\<rparr>" unfolding s1 by (simp add: get_x_def)
  have "decode (code (pc ?s1)) = Some (BR 16)" unfolding s1 using c(2) by (simp add: pc gate_branch_decode add.commute)
  from reaches_trans [OF r reaches_step [where code = code and s = ?s1, OF this]] have r2: "reaches code s (?s1\<lparr>pc := g_pc ?st\<rparr>)" unfolding br .
  show thesis
  proof (rule that [OF r2])
    fix i :: nat assume "i < 19" "i \<noteq> 16"
    then have "i \<in> {0, 1, 2, 3, 4, 5, 6, 7, 8, 9, 10, 11, 12, 13, 14, 15, 17, 18}" by simp presburger
    then show "xreg (?s1\<lparr>pc := g_pc ?st\<rparr>) (of_nat i) = g_x ?st i" unfolding s1 by (elim insertE emptyE) simp_all
  next
    fix r assume "r \<in> callee_saved"
    then show "xreg (?s1\<lparr>pc := g_pc ?st\<rparr>) r = xreg s r" unfolding s1 callee_saved_def by (elim insertE emptyE) simp_all
  qed (simp_all add: s1 del: fold_append)
qed

lemma gate_island_runs:
  assumes "code site = gate_branch site island" and "arm64_branch_in_range (island - site)"
    and "code_at code island (gate_emit_island dispatcher island site)"
    and "words_at (mem s) island (gate_emit_island dispatcher island site)"
    and "pc s = site" and "apart (island + 368) 16 (sp s - 192) 192"
  shows "\<exists>s1. reaches code s s1 \<and> pc s1 = dispatcher \<and> xreg s1 0 = sp s - 192 \<and>
    gate_state_at (mem s1) (sp s - 192) = saved_state s (site + 4) \<and>
    agree_outside (sp s - 192) 192 (mem s1) (mem s) \<and>
    (\<forall>s2. host_returns s1 s2 \<longrightarrow>
      (let st = gate_state_at (mem s2) (sp s - 192) in
       \<exists>s3. reaches code s2 s3 \<and> pc s3 = g_pc st \<and> sp s3 = sp s \<and>
         nzcv s3 = ucast (drop_bit 28 (g_nzcv st)) \<and> mem s3 = mem s2 \<and> vreg s3 = vreg s2 \<and>
         xreg s3 30 = g_x30 st \<and> (\<forall>i < 19. i \<noteq> 16 \<longrightarrow> xreg s3 (of_nat i) = g_x st i) \<and>
         (\<forall>r \<in> callee_saved. xreg s3 r = xreg s r)))"
proof -
  let ?s0 = "s\<lparr>pc := island\<rparr>" and ?st = "saved_state s (site + 4)"
  let ?s1 = "?s0\<lparr>mem := mem_write (mem s) (sp s - 192) (frame_bytes (state_words ?st)),
      pc := dispatcher, sp := sp s - 192,
      xreg := (xreg s)(0 := sp s - 192, 16 := dispatcher, 30 := island + 76)\<rparr>"
  have "reaches code s (exec (B (island - site)) s)"
    by (rule reaches_step) (simp add: assms(1,5) decode_gate_branch [OF assms(2)])
  then have "reaches code s ?s0" by (simp add: assms(5))
  moreover have "saved_state ?s0 (site + 4) = ?st" by (simp add: saved_state_def cong: if_cong)
  then have "reaches code ?s0 ?s1" using gate_enter [OF assms(3), of ?s0] assms(4,6) by simp
  ultimately have r: "reaches code s ?s1" by (rule reaches_trans)
  have st: "gate_state_at (mem ?s1) (sp s - 192) = ?st"
    by (simp add: gate_state_at_frame saved_state_def)
  have ag: "agree_outside (sp s - 192) 192 (mem ?s1) (mem s)" by (simp add: write_agree_outside)
  have ret: "\<exists>s3. reaches code s2 s3 \<and> pc s3 = g_pc st \<and> sp s3 = sp s \<and>
         nzcv s3 = ucast (drop_bit 28 (g_nzcv st)) \<and> mem s3 = mem s2 \<and> vreg s3 = vreg s2 \<and>
         xreg s3 30 = g_x30 st \<and> (\<forall>i < 19. i \<noteq> 16 \<longrightarrow> xreg s3 (of_nat i) = g_x st i) \<and>
         (\<forall>r \<in> callee_saved. xreg s3 r = xreg s r)"
    if h: "host_returns ?s1 s2" and st: "st = gate_state_at (mem s2) (sp s - 192)" for s2 st
  proof -
    have s2: "pc s2 = island + 76" "sp s2 = sp s - 192" using h by (simp_all add: host_returns_def)
    have keep: "xreg s2 r = xreg s r" if "r \<in> callee_saved" for r
      using h that by (auto simp: host_returns_def callee_saved_def)
    from gate_leave [OF assms(3) s2(1)] show ?thesis unfolding s2(2) st [symmetric]
      using keep by (metis diff_add_cancel)
  qed
  show ?thesis by (rule exI [of _ ?s1]) (use r st ag ret in \<open>simp add: Let_def\<close>)
qed

text \<open>
  C17.  A patched system call site branches to its island; the island calls the dispatcher with the
  address of a structure below the guest's stack pointer that holds the guest's registers, flags and
  the address to resume at, and changes nothing else in memory.  When the dispatcher returns, the
  guest goes on at the resume address of the structure with its stack pointer, the registers and flags
  of the structure, except for register 16, and its callee-saved registers as they were.
\<close>

theorem gate_island_correct:
  assumes "code site = gate_branch site island" and "arm64_branch_in_range (island - site)"
    and "code_at code island (gate_emit_island dispatcher island site)"
    and "words_at (mem s) island (gate_emit_island dispatcher island site)"
    and "pc s = site" and "apart (island + 368) 16 (sp s - 192) 192"
  shows "\<exists>s1. reaches code s s1 \<and> pc s1 = dispatcher \<and> xreg s1 0 = sp s - 192 \<and>
    gate_state_at (mem s1) (sp s - 192) = saved_state s (site + 4) \<and>
    agree_outside (sp s - 192) 192 (mem s1) (mem s) \<and>
    (\<forall>s2. host_returns s1 s2 \<longrightarrow>
      (let st = gate_state_at (mem s2) (sp s - 192) in
       \<exists>s3. reaches code s2 s3 \<and> pc s3 = g_pc st \<and> sp s3 = sp s \<and>
         nzcv s3 = ucast (drop_bit 28 (g_nzcv st)) \<and> mem s3 = mem s2 \<and> vreg s3 = vreg s2 \<and>
         xreg s3 30 = g_x30 st \<and> (\<forall>i < 19. i \<noteq> 16 \<longrightarrow> xreg s3 (of_nat i) = g_x st i) \<and>
         (\<forall>r \<in> callee_saved. xreg s3 r = xreg s r)))"
  using assms by (rule gate_island_runs)

text \<open>A site with its island, the island in memory, and a guest about to make the call.\<close>

definition gate_example_words :: "u32 list" where
  "gate_example_words = gate_emit_island 0x7F000000 0x410000 0x400000"

definition gate_example_code :: "u64 \<Rightarrow> u32" where
  "gate_example_code = place 0x400000 [gate_branch 0x400000 0x410000] (place 0x410000 gate_example_words (\<lambda>_. 0))"

definition gate_example_cpu :: cpu where
  "gate_example_cpu =
     \<lparr>xreg = (\<lambda>r. ucast r), vreg = (\<lambda>_. 0), sp = 0x7000000, pc = 0x400000, nzcv = 6,
      mem = mem_write (\<lambda>_. 0) 0x410000 (concat (map (le_bytes 4) gate_example_words)), excl = None, interference = []\<rparr>"

lemma words_length: "length (concat (map (le_bytes 4) (ws :: u32 list))) = 4 * length ws"
  by (induction ws) simp_all

theorem gate_island_correct_witness:
  "\<exists>s1. reaches gate_example_code gate_example_cpu s1 \<and> pc s1 = 0x7F000000 \<and> xreg s1 0 = 0x6FFFF40 \<and>
    gate_state_at (mem s1) 0x6FFFF40 = saved_state gate_example_cpu 0x400004"
proof -
  have len: "length gate_example_words = 96" by (simp add: gate_example_words_def)
  have "code_at gate_example_code 0x410000 gate_example_words"
  proof (rule code_at_nth)
    fix i assume i: "i < length gate_example_words"
    have u: "unat (4 * of_nat i :: u64) = 4 * i" using i len by (simp add: unat_word_ariths unat_of_nat)
    have v: "unat (0x410000 + 4 * of_nat i - 0x400000 :: u64) = 0x10000 + 4 * i"
      using i len u by (simp add: unat_word_ariths unat_of_nat)
    show "gate_example_code (0x410000 + 4 * of_nat i) = gate_example_words ! i"
      using i u v len by (simp add: gate_example_code_def place_def)
  qed
  moreover have "gate_example_code 0x400000 = gate_branch 0x400000 0x410000"
    by (simp add: gate_example_code_def place_def)
  moreover have "words_at (mem gate_example_cpu) 0x410000 gate_example_words"
    by (simp add: words_at_def gate_example_cpu_def mem_read_write_same words_length len)
  moreover have "arm64_branch_in_range (0x410000 - 0x400000)" by code_simp
  moreover have "apart (0x410000 + 368) 16 (sp gate_example_cpu - 192) 192"
    by (simp add: apart_def gate_example_cpu_def)
  ultimately show ?thesis
    using gate_island_correct [of gate_example_code "0x400000" "0x410000" "0x7F000000" gate_example_cpu]
    unfolding gate_example_words_def [symmetric] by (auto simp: gate_example_cpu_def)
qed

end
