(* ===== verification/Gate_Pools.thy ===== *)
theory Gate_Pools
  imports Gate_Island
begin

text \<open>
  Island pools and the patching of system call sites (\<open>syscall_gate.c\<close>).  Code is the map from
  addresses to words that \<open>Arm64_Machine\<close> runs; \<open>mmap\<close> and \<open>munmap\<close> are parameters on
  the kernel's state, and \<open>noreplace\<close> is what they document of mappings with
  \<open>MAP_FIXED_NOREPLACE\<close>.
\<close>

section \<open>Pools\<close>

abbreviation (input) DARWIN_SVC_0X80 :: u32 where "DARWIN_SVC_0X80 \<equiv> 0xD4001001"
abbreviation (input) SYSCALL_GATE_POOL_SIZE :: u64 where "SYSCALL_GATE_POOL_SIZE \<equiv> 0x40000"
abbreviation (input) SYSCALL_GATE_MAX_POOLS :: nat where "SYSCALL_GATE_MAX_POOLS \<equiv> 256"
abbreviation (input) SYSCALL_GATE_SEARCH_STEP :: u64 where "SYSCALL_GATE_SEARCH_STEP \<equiv> 0x100000"
abbreviation (input) ISLAND_BYTES :: u64 where "ISLAND_BYTES \<equiv> 384"

record syscall_gate_pool =
  p_cur :: u64
  p_end :: u64
  p_base :: u64
  p_size :: u64

type_synonym 'k mapper = "u64 \<Rightarrow> u64 \<Rightarrow> 'k \<Rightarrow> u64 option \<times> 'k"
type_synonym 'k unmapper = "u64 \<Rightarrow> u64 \<Rightarrow> 'k \<Rightarrow> 'k"

definition align_down :: "u64 \<Rightarrow> u64 \<Rightarrow> u64" where
  "align_down v alignment = v AND NOT (alignment - 1)"

definition align_up :: "u64 \<Rightarrow> u64 \<Rightarrow> u64" where
  "align_up v alignment = (v + alignment - 1) AND NOT (alignment - 1)"

definition island_reachable :: "u64 \<Rightarrow> u64 \<Rightarrow> bool" where
  "island_reachable instr island = arm64_branch_in_range (island - instr)"

definition register_gate_pool :: "u64 \<Rightarrow> u64 \<Rightarrow> syscall_gate_pool list \<Rightarrow> (nat \<times> syscall_gate_pool list) option" where
  "register_gate_pool base sz pools =
     (if base = 0 \<or> sz < ISLAND_BYTES then None
      else if length pools \<ge> SYSCALL_GATE_MAX_POOLS then None
      else Some (length pools,
        pools @ [\<lparr>p_cur = base, p_end = base + 4 * (sz div 4), p_base = base, p_size = sz\<rparr>]))"

fun find_gate_pool :: "u64 \<Rightarrow> syscall_gate_pool list \<Rightarrow> nat option" where
  "find_gate_pool instr [] = None"
| "find_gate_pool instr (pool # pools) =
     (if p_cur pool + ISLAND_BYTES > p_end pool then map_option Suc (find_gate_pool instr pools)
      else if island_reachable instr (p_cur pool) then Some 0
      else map_option Suc (find_gate_pool instr pools))"

definition map_gate_pool_at :: "'k mapper \<Rightarrow> 'k unmapper \<Rightarrow> u64 \<Rightarrow> u64 \<Rightarrow> 'k \<Rightarrow> u64 option \<times> 'k" where
  "map_gate_pool_at mmap munmap address sz k =
     (case mmap address sz k of
        (None, k') \<Rightarrow> (None, k')
      | (Some result, k') \<Rightarrow>
          if result = address then (Some result, k') else (None, munmap result sz k'))"

text \<open>The two searches.  Their steps never leave the address space, so they end.\<close>

function gate_search_below :: "'k mapper \<Rightarrow> 'k unmapper \<Rightarrow> u64 \<Rightarrow> u64 \<Rightarrow> u64 \<Rightarrow> 'k \<Rightarrow> u64 option \<times> 'k" where
  "gate_search_below mmap munmap address minimum sz k =
     (if address \<ge> minimum
      then case map_gate_pool_at mmap munmap address sz k of
        (Some base, k') \<Rightarrow> (Some base, k')
      | (None, k') \<Rightarrow>
          if address < minimum + SYSCALL_GATE_SEARCH_STEP then (None, k')
          else gate_search_below mmap munmap (address - SYSCALL_GATE_SEARCH_STEP) minimum sz k'
      else (None, k))"
  by pat_completeness auto

lemma step_down:
  assumes "minimum \<le> address" and "\<not> address < minimum + SYSCALL_GATE_SEARCH_STEP"
  shows "unat (address - SYSCALL_GATE_SEARCH_STEP) = unat address - 0x100000" and "0x100000 \<le> unat address"
proof -
  show big: "0x100000 \<le> unat address"
  proof (cases "unat minimum + 0x100000 < 2 ^ LENGTH(64)")
    case True
    then have "unat (minimum + SYSCALL_GATE_SEARCH_STEP) = unat minimum + 0x100000"
      by (subst unat_add_lem [THEN iffD1]) simp_all
    then show ?thesis using assms(2) by (simp add: not_less word_le_nat_alt)
  next
    case False
    then show ?thesis using assms(1) by (simp add: word_le_nat_alt)
  qed
  then have "SYSCALL_GATE_SEARCH_STEP \<le> address" by (simp add: word_le_nat_alt)
  then show "unat (address - SYSCALL_GATE_SEARCH_STEP) = unat address - 0x100000" by (simp add: unat_sub)
qed

termination gate_search_below
proof (relation "measure (\<lambda>(_, _, address, _). unat address)")
  fix mmap :: "'k mapper" and munmap address minimum sz k x a b
  assume "minimum \<le> address" "\<not> address < minimum + SYSCALL_GATE_SEARCH_STEP"
  from step_down [OF this] show "((mmap, munmap, address - SYSCALL_GATE_SEARCH_STEP, minimum, sz, b),
      (mmap, munmap, address, minimum, sz, k)) \<in> measure (\<lambda>(_, _, address, _). unat address)" by simp
qed simp

function gate_search_above :: "'k mapper \<Rightarrow> 'k unmapper \<Rightarrow> u64 \<Rightarrow> u64 \<Rightarrow> u64 \<Rightarrow> 'k \<Rightarrow> u64 option \<times> 'k" where
  "gate_search_above mmap munmap address maximum sz k =
     (if address \<le> maximum
      then case map_gate_pool_at mmap munmap address sz k of
        (Some base, k') \<Rightarrow> (Some base, k')
      | (None, k') \<Rightarrow>
          if maximum - address < SYSCALL_GATE_SEARCH_STEP then (None, k')
          else gate_search_above mmap munmap (address + SYSCALL_GATE_SEARCH_STEP) maximum sz k'
      else (None, k))"
  by pat_completeness auto

lemma step_up:
  assumes "address \<le> maximum" and "\<not> maximum - address < SYSCALL_GATE_SEARCH_STEP"
  shows "unat (address + SYSCALL_GATE_SEARCH_STEP) = unat address + 0x100000"
    and "unat address + 0x100000 \<le> unat maximum"
proof -
  have "unat (maximum - address) = unat maximum - unat address" using assms(1) by (simp add: unat_sub)
  then show le: "unat address + 0x100000 \<le> unat maximum"
    using assms by (simp add: not_less word_le_nat_alt)
  also have "unat maximum < 2 ^ LENGTH(64)" by (rule unsigned_less)
  finally show "unat (address + SYSCALL_GATE_SEARCH_STEP) = unat address + 0x100000"
    by (subst unat_add_lem [THEN iffD1]) simp_all
qed

termination gate_search_above
proof (relation "measure (\<lambda>(_, _, address, maximum, _). unat maximum - unat address)")
  fix mmap :: "'k mapper" and munmap address maximum sz k x a b
  assume "address \<le> maximum" "\<not> maximum - address < SYSCALL_GATE_SEARCH_STEP"
  from step_up [OF this] show "((mmap, munmap, address + SYSCALL_GATE_SEARCH_STEP, maximum, sz, b),
      (mmap, munmap, address, maximum, sz, k)) \<in> measure (\<lambda>(_, _, address, maximum, _). unat maximum - unat address)"
    by simp
qed simp

declare gate_search_below.simps [simp del] gate_search_above.simps [simp del]

text \<open>The state of the patcher: the pools, the words in memory, and the kernel.\<close>

record 'k gate_patcher =
  gate_pools :: "syscall_gate_pool list"
  gp_code :: "u64 \<Rightarrow> u32"
  gp_kernel :: 'k

definition register_or_fail :: "u64 option \<Rightarrow> u64 \<Rightarrow> 'k gate_patcher \<Rightarrow> nat option \<times> 'k gate_patcher" where
  "register_or_fail base sz w =
     (case base of
        None \<Rightarrow> (None, w)
      | Some b \<Rightarrow> (case register_gate_pool b sz (gate_pools w) of
          None \<Rightarrow> (None, w)
        | Some (i, pools) \<Rightarrow> (Some i, w\<lparr>gate_pools := pools\<rparr>)))"

definition allocate_gate_pool_below ::
  "'k mapper \<Rightarrow> 'k unmapper \<Rightarrow> u64 \<Rightarrow> u64 \<Rightarrow> u64 \<Rightarrow> 'k gate_patcher \<Rightarrow> nat option \<times> 'k gate_patcher" where
  "allocate_gate_pool_below mmap munmap instr sz page w =
     (let site = instr;
          range = push_bit 27 1;
          start = align_down (if site > sz then site - sz else page) page;
          minimum = (if site > range then align_up (site - range) page else page)
      in case gate_search_below mmap munmap start minimum sz (gp_kernel w) of
           (Some base, k') \<Rightarrow> register_or_fail (Some base) sz (w\<lparr>gp_kernel := k'\<rparr>)
         | (None, k') \<Rightarrow> (case map_gate_pool_at mmap munmap minimum sz k' of
             (base, k'') \<Rightarrow> register_or_fail base sz (w\<lparr>gp_kernel := k''\<rparr>)))"

definition allocate_gate_pool_above ::
  "'k mapper \<Rightarrow> 'k unmapper \<Rightarrow> u64 \<Rightarrow> u64 \<Rightarrow> u64 \<Rightarrow> 'k gate_patcher \<Rightarrow> nat option \<times> 'k gate_patcher" where
  "allocate_gate_pool_above mmap munmap instr sz page w =
     (let site = instr;
          range = push_bit 27 1;
          start = align_up (site + page) page;
          maximum = align_down (site + range - sz) page
      in case gate_search_above mmap munmap start maximum sz (gp_kernel w) of
           (Some base, k') \<Rightarrow> register_or_fail (Some base) sz (w\<lparr>gp_kernel := k'\<rparr>)
         | (None, k') \<Rightarrow> (case map_gate_pool_at mmap munmap maximum sz k' of
             (base, k'') \<Rightarrow> register_or_fail base sz (w\<lparr>gp_kernel := k''\<rparr>)))"

definition allocate_gate_pool_near ::
  "'k mapper \<Rightarrow> 'k unmapper \<Rightarrow> u64 \<Rightarrow> u64 \<Rightarrow> 'k gate_patcher \<Rightarrow> nat option \<times> 'k gate_patcher" where
  "allocate_gate_pool_near mmap munmap page instr w =
     (let sz = align_up SYSCALL_GATE_POOL_SIZE page
      in case allocate_gate_pool_below mmap munmap instr sz page w of
           (Some i, w') \<Rightarrow> (Some i, w')
         | (None, w') \<Rightarrow> allocate_gate_pool_above mmap munmap instr sz page w')"

section \<open>Patching\<close>

definition patch_at :: "u64 \<Rightarrow> u64 \<Rightarrow> nat \<Rightarrow> 'k gate_patcher \<Rightarrow> 'k gate_patcher" where
  "patch_at dispatcher instr i w =
     (let pool = gate_pools w ! i;
          island = p_cur pool
      in w\<lparr>gp_code := (place island (gate_emit_island dispatcher island instr) (gp_code w))
               (instr := gate_branch instr island),
           gate_pools := (gate_pools w)[i := pool\<lparr>p_cur := p_cur pool + ISLAND_BYTES\<rparr>]\<rparr>)"

definition patch_instruction ::
  "'k mapper \<Rightarrow> 'k unmapper \<Rightarrow> u64 \<Rightarrow> u64 \<Rightarrow> u64 \<Rightarrow> 'k gate_patcher \<Rightarrow> bool \<times> 'k gate_patcher" where
  "patch_instruction mmap munmap page dispatcher instr w =
     (case find_gate_pool instr (gate_pools w) of
        Some i \<Rightarrow> (True, patch_at dispatcher instr i w)
      | None \<Rightarrow> (case allocate_gate_pool_near mmap munmap page instr w of
          (None, w') \<Rightarrow> (False, w')
        | (Some i, w') \<Rightarrow> (True, patch_at dispatcher instr i w')))"

text \<open>The loop over a section, from word \<open>i\<close> on; the result is the count, or None for \<open>-1\<close>.\<close>

fun patch_section_from ::
  "'k mapper \<Rightarrow> 'k unmapper \<Rightarrow> u64 \<Rightarrow> u64 \<Rightarrow> u64 \<Rightarrow> nat \<Rightarrow> nat \<Rightarrow> 'k gate_patcher \<Rightarrow> nat option \<times> 'k gate_patcher" where
  "patch_section_from mmap munmap page dispatcher code i 0 w = (Some 0, w)"
| "patch_section_from mmap munmap page dispatcher code i (Suc n) w =
     (let instr = code + 4 * of_nat i
      in if gp_code w instr \<noteq> DARWIN_SVC_0X80 then patch_section_from mmap munmap page dispatcher code (Suc i) n w
         else case patch_instruction mmap munmap page dispatcher instr w of
           (False, w') \<Rightarrow> (None, w')
         | (True, w') \<Rightarrow> (case patch_section_from mmap munmap page dispatcher code (Suc i) n w' of
             (r, w'') \<Rightarrow> (map_option Suc r, w'')))"

definition patch_section ::
  "'k mapper \<Rightarrow> 'k unmapper \<Rightarrow> u64 \<Rightarrow> u64 \<Rightarrow> u64 \<Rightarrow> u64 \<Rightarrow> 'k gate_patcher \<Rightarrow> nat option \<times> 'k gate_patcher" where
  "patch_section mmap munmap page dispatcher code sz w =
     patch_section_from mmap munmap page dispatcher code 0 (unat (sz div 4)) w"

section \<open>Reach of the pools\<close>

lemma align_down_eq: "align_down v (2 ^ n) = push_bit n (drop_bit n v)"
  by (simp add: align_down_def and_not_mask)

lemma unat_align_down:
  assumes "n < 64"
  shows "unat (align_down v (2 ^ n)) = unat v - unat v mod 2 ^ n"
  using unat_and_not_mask [OF assms] by (simp add: align_down_def minus_mod_eq_div_mult)

lemma align_down_dvd: "2 \<le> n \<Longrightarrow> 4 dvd align_down v (2 ^ n)"
proof -
  assume n: "2 \<le> n"
  have "align_down v (2 ^ n) = 2 ^ n * drop_bit n v" by (simp add: align_down_eq push_bit_eq_mult)
  moreover have "(4 :: u64) dvd 2 ^ n" using le_imp_power_dvd [OF n, of "2 :: u64"] by simp
  ultimately show ?thesis by simp
qed

lemma align_up_down: "align_up v p = align_down (v + p - 1) p"
  by (simp add: align_up_def align_down_def)

lemma branch_in_range_near:
  assumes "4 dvd island - instr"
    and "unat instr \<le> unat island + 2 ^ 27" and "unat island < unat instr + 2 ^ 27"
  shows "arm64_branch_in_range (island - instr)"
proof -
  have "unat instr \<le> unat island + 134217728" "unat island < unat instr + 134217728" using assms(2,3) by simp_all
  then have b: "- 134217728 \<le> uint island - uint instr" "uint island - uint instr < 134217728"
    unfolding uint_nat by linarith+
  have "island - instr = word_of_int (uint island - uint instr)" by simp
  then have "sint (island - instr) = uint island - uint instr"
    using b sint_word_of_int [of "uint island - uint instr"] by simp
  then have "sint (signed_drop_bit 2 (island - instr)) = (uint island - uint instr) div 4"
    by (simp add: sint_signed_drop_bit_eq drop_bit_eq_div)
  moreover have "- (2 ^ 25) \<le> (uint island - uint instr) div 4" "(uint island - uint instr) div 4 < 2 ^ 25"
    using b by simp_all
  ultimately show ?thesis using assms(1) by (simp add: arm64_branch_in_range_def and_3_eq_0)
qed

lemma map_gate_pool_at_addr: "map_gate_pool_at mmap munmap a sz k = (Some base, k') \<Longrightarrow> base = a"
  by (auto simp: map_gate_pool_at_def split: prod.splits option.splits if_splits)

lemma search_below_range:
  assumes "gate_search_below mmap munmap address minimum sz k = (Some base, k')" and "4 dvd address"
  shows "minimum \<le> base \<and> base \<le> address \<and> 4 dvd base"
  using assms
proof (induction mmap munmap address minimum sz k rule: gate_search_below.induct)
  case (1 mmap munmap address minimum sz k)
  show ?case
  proof (cases "minimum \<le> address")
    case True
    obtain r k1 where m: "map_gate_pool_at mmap munmap address sz k = (r, k1)" by fastforce
    show ?thesis
    proof (cases r)
      case None
      then have far: "\<not> address < minimum + SYSCALL_GATE_SEARCH_STEP"
        and rec: "gate_search_below mmap munmap (address - SYSCALL_GATE_SEARCH_STEP) minimum sz k1 = (Some base, k')"
        using "1.prems"(1) True m by (auto simp: gate_search_below.simps [of _ _ address] split: if_splits)
      have "4 dvd address - SYSCALL_GATE_SEARCH_STEP"
        using "1.prems"(2) by (rule dvd_diff) (simp add: dvd_def exI [of _ "0x40000"])
      then have "minimum \<le> base \<and> base \<le> address - SYSCALL_GATE_SEARCH_STEP \<and> 4 dvd base"
        using "1.IH" [OF True m [symmetric] None far rec] by simp
      moreover have "address - SYSCALL_GATE_SEARCH_STEP \<le> address"
        using step_down [OF True far] by (simp add: word_le_nat_alt)
      ultimately show ?thesis by auto
    next
      case (Some b)
      then have "base = address" using "1.prems"(1) True m map_gate_pool_at_addr
        by (auto simp: gate_search_below.simps [of _ _ address])
      then show ?thesis using True "1.prems"(2) by simp
    qed
  next
    case False
    then show ?thesis using "1.prems"(1) by (simp add: gate_search_below.simps [of _ _ address])
  qed
qed

lemma search_above_range:
  assumes "gate_search_above mmap munmap address maximum sz k = (Some base, k')" and "4 dvd address"
  shows "address \<le> base \<and> base \<le> maximum \<and> 4 dvd base"
  using assms
proof (induction mmap munmap address maximum sz k rule: gate_search_above.induct)
  case (1 mmap munmap address maximum sz k)
  show ?case
  proof (cases "address \<le> maximum")
    case True
    obtain r k1 where m: "map_gate_pool_at mmap munmap address sz k = (r, k1)" by fastforce
    show ?thesis
    proof (cases r)
      case None
      then have far: "\<not> maximum - address < SYSCALL_GATE_SEARCH_STEP"
        and rec: "gate_search_above mmap munmap (address + SYSCALL_GATE_SEARCH_STEP) maximum sz k1 = (Some base, k')"
        using "1.prems"(1) True m by (auto simp: gate_search_above.simps [of _ _ address] split: if_splits)
      have "4 dvd address + SYSCALL_GATE_SEARCH_STEP"
        using "1.prems"(2) by (rule dvd_add) (simp add: dvd_def exI [of _ "0x40000"])
      then have "address + SYSCALL_GATE_SEARCH_STEP \<le> base \<and> base \<le> maximum \<and> 4 dvd base"
        using "1.IH" [OF True m [symmetric] None far rec] by simp
      moreover have "address \<le> address + SYSCALL_GATE_SEARCH_STEP"
        using step_up [OF True far] by (simp add: word_le_nat_alt)
      ultimately show ?thesis by auto
    next
      case (Some b)
      then have "base = address" using "1.prems"(1) True m map_gate_pool_at_addr
        by (auto simp: gate_search_above.simps [of _ _ address])
      then show ?thesis using True "1.prems"(2) by simp
    qed
  next
    case False
    then show ?thesis using "1.prems"(1) by (simp add: gate_search_above.simps [of _ _ address])
  qed
qed

lemma register_or_fail_base:
  assumes "register_or_fail base sz w = (Some i, w')"
  obtains b where "base = Some b" and "i = length (gate_pools w)"
    and "gate_pools w' = gate_pools w @ [\<lparr>p_cur = b, p_end = b + 4 * (sz div 4), p_base = b, p_size = sz\<rparr>]"
    and "gp_code w' = gp_code w" and "gp_kernel w' = gp_kernel w" and "ISLAND_BYTES \<le> sz"
  using assms by (auto simp: register_or_fail_def register_gate_pool_def not_less split: option.splits if_splits)

lemma register_or_fail_none: "register_or_fail base sz w = (None, w') \<Longrightarrow> w' = w"
  by (auto simp: register_or_fail_def split: option.splits prod.splits)

text \<open>The kernels hand out pages of 4, 16 or 64 KiB.\<close>

definition page_ok :: "u64 \<Rightarrow> bool" where
  "page_ok page \<longleftrightarrow> page = 2 ^ 12 \<or> page = 2 ^ 14 \<or> page = 2 ^ 16"

lemma pool_size: "page_ok page \<Longrightarrow> align_up SYSCALL_GATE_POOL_SIZE page = 0x40000"
  by (auto simp: page_ok_def align_up_def)

lemma aligned_bounds:
  assumes "page_ok page"
  shows "unat (align_down v page) \<le> unat v" and "unat v < unat (align_down v page) + unat page"
    and "4 dvd align_down v page"
proof -
  obtain n where n: "page = 2 ^ n" "2 \<le> n" "n < 64" "unat page = 2 ^ n"
  proof -
    from assms that [of 12] that [of 14] that [of 16] show thesis by (auto simp: page_ok_def)
  qed
  show "unat (align_down v page) \<le> unat v" "4 dvd align_down v page"
    using n align_down_dvd by (auto simp: unat_align_down)
  have "unat (align_down v page) = unat v - unat v mod 2 ^ n" using n by (simp add: unat_align_down)
  moreover have "unat v mod 2 ^ n < 2 ^ n" and "unat v mod 2 ^ n \<le> unat v" by simp_all
  ultimately show "unat v < unat (align_down v page) + unat page" using n(4) by linarith
qed

lemma page_ok_bounds: "page_ok page \<Longrightarrow> unat page \<le> 0x10000 \<and> 0x1000 \<le> unat page \<and> 4 dvd page"
  by (auto simp: page_ok_def dvd_def intro: exI [of _ "0x400"] exI [of _ "0x1000"] exI [of _ "0x4000"])

lemma allocate_below_reachable:
  assumes "page_ok page" and "4 dvd instr" and "unat instr < 2 ^ 52"
    and "allocate_gate_pool_below mmap munmap instr 0x40000 page w = (Some i, w')"
  shows "island_reachable instr (p_base (gate_pools w' ! i))"
proof -
  define start where "start = align_down (if instr > 0x40000 then instr - 0x40000 else page) page"
  define minimum where "minimum = (if instr > push_bit 27 1 then align_up (instr - push_bit 27 1) page else page)"
  note pb = page_ok_bounds [OF assms(1)] and ab = aligned_bounds [OF assms(1)]
  note al = assms(4) [unfolded allocate_gate_pool_below_def Let_def, folded start_def minimum_def]
  obtain b where b: "b = minimum \<or> minimum \<le> b \<and> b \<le> start \<and> 4 dvd b" "p_base (gate_pools w' ! i) = b"
  proof -
    obtain r k1 where g: "gate_search_below mmap munmap start minimum 0x40000 (gp_kernel w) = (r, k1)" by fastforce
    obtain r2 k2 where m: "map_gate_pool_at mmap munmap minimum 0x40000 k1 = (r2, k2)" by fastforce
    show thesis
    proof (cases r)
      case None
      then have "register_or_fail r2 0x40000 (w\<lparr>gp_kernel := k2\<rparr>) = (Some i, w')"
        using al g m by simp
      then show thesis
        using m that by (elim register_or_fail_base) (auto simp: nth_append dest: map_gate_pool_at_addr)
    next
      case (Some base)
      then have "register_or_fail (Some base) 0x40000 (w\<lparr>gp_kernel := k1\<rparr>) = (Some i, w')"
        using al g by simp
      moreover have "4 dvd start" using ab(3) by (simp add: start_def)
      ultimately show thesis
        using search_below_range [OF g [unfolded Some]] that by (elim register_or_fail_base) (auto simp: nth_append)
    qed
  qed
  have range: "unat (push_bit 27 1 :: u64) = 2 ^ 27" by simp
  have start: "unat start \<le> max (unat instr) (unat page)"
    using ab(1) [of "if instr > 0x40000 then instr - 0x40000 else page"]
    by (auto simp: start_def word_less_nat_alt unat_sub word_le_nat_alt split: if_splits)
  have minimum: "unat instr - 2 ^ 27 \<le> unat minimum" "unat minimum \<le> max (unat instr) (unat page)" "4 dvd minimum"
  proof -
    have "unat instr - 2 ^ 27 \<le> unat minimum \<and> unat minimum \<le> max (unat instr) (unat page) \<and> 4 dvd minimum"
    proof (cases "instr > push_bit 27 1")
      case True
      define v where "v = instr - push_bit 27 1 + page - 1"
      have big: "2 ^ 27 < unat instr" using True by (simp add: word_less_nat_alt)
      have "v = of_nat (unat instr - 2 ^ 27 + (unat page - 1))"
        using big pb by (simp add: v_def of_nat_diff)
      then have uv: "unat v = unat instr - 2 ^ 27 + (unat page - 1)"
        by (rule unat_of_nat_eqI) (use pb assms(3) in auto)
      have "minimum = align_down v page" using True by (simp add: minimum_def align_up_down v_def)
      then show ?thesis using ab [of v] uv pb big by auto
    next
      case False
      then show ?thesis using pb by (simp add: minimum_def word_less_nat_alt)
    qed
    then show "unat instr - 2 ^ 27 \<le> unat minimum" "unat minimum \<le> max (unat instr) (unat page)" "4 dvd minimum" by auto
  qed
  then have "4 dvd b" and lo: "unat instr \<le> unat b + 2 ^ 27" and hi: "unat b \<le> max (unat instr) (unat page)"
    using b(1) start by (auto simp: word_le_nat_alt)
  then have "arm64_branch_in_range (b - instr)"
    using assms(2) pb by (intro branch_in_range_near) auto
  then show ?thesis using b(2) by (simp add: island_reachable_def)
qed

lemma allocate_above_reachable:
  assumes "page_ok page" and "4 dvd instr" and "unat instr < 2 ^ 52"
    and "allocate_gate_pool_above mmap munmap instr 0x40000 page w = (Some i, w')"
  shows "island_reachable instr (p_base (gate_pools w' ! i))"
proof -
  define start where "start = align_up (instr + page) page"
  define maximum where "maximum = align_down (instr + push_bit 27 1 - 0x40000) page"
  note pb = page_ok_bounds [OF assms(1)] and ab = aligned_bounds [OF assms(1)]
  note al = assms(4) [unfolded allocate_gate_pool_above_def Let_def, folded start_def maximum_def]
  obtain b where b: "b = maximum \<or> start \<le> b \<and> b \<le> maximum \<and> 4 dvd b" "p_base (gate_pools w' ! i) = b"
  proof -
    obtain r k1 where g: "gate_search_above mmap munmap start maximum 0x40000 (gp_kernel w) = (r, k1)" by fastforce
    obtain r2 k2 where m: "map_gate_pool_at mmap munmap maximum 0x40000 k1 = (r2, k2)" by fastforce
    show thesis
    proof (cases r)
      case None
      then have "register_or_fail r2 0x40000 (w\<lparr>gp_kernel := k2\<rparr>) = (Some i, w')" using al g m by simp
      then show thesis
        using m that by (elim register_or_fail_base) (auto simp: nth_append dest: map_gate_pool_at_addr)
    next
      case (Some base)
      then have "register_or_fail (Some base) 0x40000 (w\<lparr>gp_kernel := k1\<rparr>) = (Some i, w')" using al g by simp
      moreover have "4 dvd start" using ab(3) by (simp add: start_def align_up_down)
      ultimately show thesis
        using search_above_range [OF g [unfolded Some]] that by (elim register_or_fail_base) (auto simp: nth_append)
    qed
  qed
  have "instr + page + page - 1 = of_nat (unat instr + unat page + (unat page - 1))"
    using pb by (simp add: of_nat_diff)
  then have us: "unat (instr + page + page - 1) = unat instr + unat page + (unat page - 1)"
    by (rule unat_of_nat_eqI) (use pb assms(3) in auto)
  then have "unat instr \<le> unat start"
    using ab(2) [of "instr + page + page - 1"] pb by (simp add: start_def align_up_down)
  moreover have "instr + push_bit 27 1 - 0x40000 = of_nat (unat instr + (2 ^ 27 - 0x40000))" by simp
  then have "unat (instr + push_bit 27 1 - 0x40000) = unat instr + (2 ^ 27 - 0x40000)"
    by (rule unat_of_nat_eqI) (use assms(3) in simp)
  then have "unat maximum < unat instr + 2 ^ 27" "unat instr \<le> unat maximum" "4 dvd maximum"
    using ab [of "instr + push_bit 27 1 - 0x40000"] pb by (simp_all add: maximum_def)
  ultimately have "4 dvd b" "unat instr \<le> unat b" "unat b < unat instr + 2 ^ 27"
    using b(1) by (auto simp: word_le_nat_alt)
  then have "arm64_branch_in_range (b - instr)" using assms(2) by (intro branch_in_range_near) auto
  then show ?thesis using b(2) by (simp add: island_reachable_def)
qed

lemma allocate_near_reachable:
  assumes "page_ok page" and "4 dvd instr" and "unat instr < 2 ^ 52"
    and "allocate_gate_pool_near mmap munmap page instr w = (Some i, w')"
  shows "island_reachable instr (p_base (gate_pools w' ! i))"
  using assms allocate_below_reachable [OF assms(1-3)] allocate_above_reachable [OF assms(1-3)]
  by (auto simp: allocate_gate_pool_near_def pool_size split: prod.splits option.splits)

end
