(* ===== verification/Gate_Patch.thy ===== *)
theory Gate_Patch
  imports Gate_Pools
begin

text \<open>
  Patching a section (\<open>patch_section\<close> of \<open>syscall_gate.c\<close>) leaves a reachable, intact
  island behind every system call.  The argument is about the addresses the patcher may still write:
  they only ever get fewer, so what has been written stays.
\<close>

section \<open>Islands do not overlap\<close>

text \<open>
  What \<open>mmap\<close> documents with \<open>MAP_FIXED_NOREPLACE\<close>: a new mapping lies where nothing was
  mapped, in the user's address space.
\<close>

definition maps :: "('k \<Rightarrow> u64 \<Rightarrow> bool) \<Rightarrow> u64 \<Rightarrow> u64 option \<Rightarrow> 'k \<Rightarrow> 'k \<Rightarrow> bool" where
  "maps mapped n r k k' \<longleftrightarrow>
     (case r of
        None \<Rightarrow> mapped k' = mapped k
      | Some b \<Rightarrow> (\<forall>x. in_range b (unat n) x \<longrightarrow> \<not> mapped k x) \<and>
          (\<forall>x. mapped k' x \<longleftrightarrow> mapped k x \<or> in_range b (unat n) x) \<and> unat b + unat n < 2 ^ 52)"

definition noreplace :: "'k mapper \<Rightarrow> 'k unmapper \<Rightarrow> ('k \<Rightarrow> u64 \<Rightarrow> bool) \<Rightarrow> bool" where
  "noreplace mmap munmap mapped \<longleftrightarrow>
     (\<forall>a n k r k'. mmap a n k = (r, k') \<longrightarrow> maps mapped n r k k') \<and>
     (\<forall>a n k x. mapped (munmap a n k) x \<longleftrightarrow> mapped k x \<and> \<not> in_range a (unat n) x)"

lemma maps_after_none: "maps mapped n None k k1 \<Longrightarrow> maps mapped n r k1 k2 \<Longrightarrow> maps mapped n r k k2"
  by (simp add: maps_def split: option.splits)

lemma map_gate_pool_at_maps:
  assumes "noreplace mmap munmap mapped" and "map_gate_pool_at mmap munmap a n k = (r, k')"
  shows "maps mapped n r k k'"
proof -
  obtain r1 k1 where m: "mmap a n k = (r1, k1)" by fastforce
  then have ms: "maps mapped n r1 k k1" using assms(1) unfolding noreplace_def by blast
  have un: "mapped (munmap b n k1) x \<longleftrightarrow> mapped k1 x \<and> \<not> in_range b (unat n) x" for b x
    using assms(1) unfolding noreplace_def by blast
  show ?thesis using assms(2) m ms un
    by (auto simp: map_gate_pool_at_def maps_def fun_eq_iff split: option.splits if_splits)
qed

lemma search_below_maps:
  assumes "noreplace mmap munmap mapped" and "gate_search_below mmap munmap address minimum n k = (r, k')"
  shows "maps mapped n r k k'"
  using assms(2)
proof (induction address arbitrary: k rule: measure_induct_rule [where f = unat])
  case (less address)
  obtain r1 k1 where m: "map_gate_pool_at mmap munmap address n k = (r1, k1)" by fastforce
  note mm = map_gate_pool_at_maps [OF assms(1) m]
  show ?case
  proof (cases "minimum \<le> address \<and> r1 = None \<and> \<not> address < minimum + SYSCALL_GATE_SEARCH_STEP")
    case True
    then have "gate_search_below mmap munmap (address - SYSCALL_GATE_SEARCH_STEP) minimum n k1 = (r, k')"
      using less.prems m by (simp add: gate_search_below.simps [of _ _ address])
    moreover have "unat (address - SYSCALL_GATE_SEARCH_STEP) < unat address"
      using step_down [of minimum address] True by simp
    ultimately have "maps mapped n r k1 k'" by (rule less.IH [rotated])
    then show ?thesis using mm True by (blast intro: maps_after_none)
  next
    case False
    then show ?thesis using less.prems m mm
      by (auto simp: gate_search_below.simps [of _ _ address] maps_def split: if_splits option.splits)
  qed
qed

lemma search_above_maps:
  assumes "noreplace mmap munmap mapped" and "gate_search_above mmap munmap address maximum n k = (r, k')"
  shows "maps mapped n r k k'"
  using assms(2)
proof (induction address arbitrary: k rule: measure_induct_rule [where f = "\<lambda>a. unat maximum - unat a"])
  case (less address)
  obtain r1 k1 where m: "map_gate_pool_at mmap munmap address n k = (r1, k1)" by fastforce
  note mm = map_gate_pool_at_maps [OF assms(1) m]
  show ?case
  proof (cases "address \<le> maximum \<and> r1 = None \<and> \<not> maximum - address < SYSCALL_GATE_SEARCH_STEP")
    case True
    then have "gate_search_above mmap munmap (address + SYSCALL_GATE_SEARCH_STEP) maximum n k1 = (r, k')"
      using less.prems m by (simp add: gate_search_above.simps [of _ _ address])
    moreover have "unat maximum - unat (address + SYSCALL_GATE_SEARCH_STEP) < unat maximum - unat address"
      using step_up [of address maximum] True by simp
    ultimately have "maps mapped n r k1 k'" by (rule less.IH [rotated])
    then show ?thesis using mm True by (blast intro: maps_after_none)
  next
    case False
    then show ?thesis using less.prems m mm
      by (auto simp: gate_search_above.simps [of _ _ address] maps_def split: if_splits option.splits)
  qed
qed

definition pool_free :: "syscall_gate_pool \<Rightarrow> u64 set" where
  "pool_free p = {x. in_range (p_cur p) (unat (p_end p - p_cur p)) x}"

definition pool_wf :: "syscall_gate_pool \<Rightarrow> bool" where
  "pool_wf p \<longleftrightarrow> p_cur p \<le> p_end p \<and> unat (p_end p) < 2 ^ 52"

text \<open>The addresses the patcher may still write islands to: what is free in a pool, or not mapped yet.\<close>

definition claimable :: "('k \<Rightarrow> u64 \<Rightarrow> bool) \<Rightarrow> 'k gate_patcher \<Rightarrow> u64 set" where
  "claimable mapped w = (\<Union>p \<in> set (gate_pools w). pool_free p) \<union> {x. \<not> mapped (gp_kernel w) x}"

definition gate_inv :: "('k \<Rightarrow> u64 \<Rightarrow> bool) \<Rightarrow> 'k gate_patcher \<Rightarrow> bool" where
  "gate_inv mapped w \<longleftrightarrow>
     (\<forall>p \<in> set (gate_pools w). pool_wf p \<and> (\<forall>x \<in> pool_free p. mapped (gp_kernel w) x)) \<and>
     pairwise (\<lambda>i j. pool_free (gate_pools w ! i) \<inter> pool_free (gate_pools w ! j) = {}) {..<length (gate_pools w)}"

lemma register_or_fail_inv:
  assumes inv: "gate_inv mapped w" and ms: "maps mapped n r (gp_kernel w) k'"
    and reg: "register_or_fail r n (w\<lparr>gp_kernel := k'\<rparr>) = (i, w')"
  shows "gate_inv mapped w'" and "claimable mapped w' \<subseteq> claimable mapped w" and "gp_code w' = gp_code w"
    and "i = Some j \<Longrightarrow> j < length (gate_pools w') \<and> p_cur (gate_pools w' ! j) = p_base (gate_pools w' ! j) \<and>
      \<not> p_cur (gate_pools w' ! j) + ISLAND_BYTES > p_end (gate_pools w' ! j)"
proof -
  have grow: "mapped (gp_kernel w) x \<Longrightarrow> mapped k' x" for x
    using ms by (auto simp: maps_def split: option.splits)
  have old: "gate_inv mapped (w\<lparr>gp_kernel := k'\<rparr>)" "claimable mapped (w\<lparr>gp_kernel := k'\<rparr>) \<subseteq> claimable mapped w"
    using inv grow by (auto simp: gate_inv_def claimable_def)
  have "gate_inv mapped w' \<and> claimable mapped w' \<subseteq> claimable mapped w \<and> gp_code w' = gp_code w \<and>
    (\<forall>j. i = Some j \<longrightarrow> j < length (gate_pools w') \<and> p_cur (gate_pools w' ! j) = p_base (gate_pools w' ! j) \<and>
      \<not> p_cur (gate_pools w' ! j) + ISLAND_BYTES > p_end (gate_pools w' ! j))"
  proof (cases i)
    case None
    then have "w' = w\<lparr>gp_kernel := k'\<rparr>" using reg register_or_fail_none by blast
    then show ?thesis using None old by simp
  next
    case (Some j)
    let ?ps = "gate_pools w"
    obtain b where b: "r = Some b" "j = length ?ps"
      and ps: "gate_pools w' = ?ps @ [\<lparr>p_cur = b, p_end = b + 4 * (n div 4), p_base = b, p_size = n\<rparr>]"
      and rest: "gp_code w' = gp_code w" "gp_kernel w' = k'" "ISLAND_BYTES \<le> n"
      using register_or_fail_base [OF reg [unfolded Some]] by auto
    let ?p = "\<lparr>p_cur = b, p_end = b + 4 * (n div 4), p_base = b, p_size = n\<rparr>"
    have fresh: "in_range b (unat n) x \<Longrightarrow> \<not> mapped (gp_kernel w) x \<and> mapped k' x" for x
      using ms b(1) by (auto simp: maps_def)
    have bound: "unat b + unat n < 2 ^ 52" using ms b(1) by (auto simp: maps_def)
    have un: "unat (4 * (n div 4)) = 4 * (unat n div 4)"
    proof -
      have "4 * (unat n div 4) \<le> unat n" by simp
      also have "unat n < 2 ^ LENGTH(64)" by (rule unsigned_less)
      finally have "4 * (unat n div 4) < 2 ^ 64" by simp
      moreover have "4 * (n div 4) = of_nat (4 * (unat n div 4))"
      proof -
        have "of_nat (unat (n div 4)) = n div 4" by simp
        then show ?thesis by (simp add: unat_div)
      qed
      ultimately show ?thesis by (intro unat_of_nat_eqI)
    qed
    have ue: "unat (b + 4 * (n div 4)) = unat b + 4 * (unat n div 4)"
      using bound un by (subst unat_add_lem [THEN iffD1]) simp_all
    have "unat n \<ge> 384" using rest(3) by (simp add: word_le_nat_alt)
    then have n4: "4 * (unat n div 4) \<ge> 384" by simp
    have free: "pool_free ?p \<subseteq> {x. in_range b (unat n) x}" using un by (auto simp: pool_free_def in_range_def)
    have wf: "pool_wf ?p" using ue bound by (simp add: pool_wf_def word_le_nat_alt)
    have fit: "\<not> b + ISLAND_BYTES > b + 4 * (n div 4)"
    proof -
      have "unat (b + ISLAND_BYTES) = unat b + 384" using bound by (subst unat_add_lem [THEN iffD1]) simp_all
      then show ?thesis using ue n4 by (simp add: word_less_nat_alt)
    qed
    have "gate_inv mapped w'"
    proof -
      have "x \<notin> pool_free ?p" if "i < length ?ps" "x \<in> pool_free (?ps ! i)" for i x
        using that inv free fresh nth_mem [OF that(1)] by (fastforce simp: gate_inv_def)
      then have "pairwise (\<lambda>i j. pool_free ((?ps @ [?p]) ! i) \<inter> pool_free ((?ps @ [?p]) ! j) = {}) {..<Suc (length ?ps)}"
        using inv by (auto simp: gate_inv_def pairwise_def nth_append less_Suc_eq Int_commute)
      then show ?thesis using inv wf free fresh grow ps rest by (auto simp: gate_inv_def)
    qed
    moreover have "claimable mapped w' \<subseteq> claimable mapped w"
      using ps rest free fresh grow by (auto simp: claimable_def)
    ultimately show ?thesis using Some b ps rest fit by (simp add: nth_append)
  qed
  then show "gate_inv mapped w'" "claimable mapped w' \<subseteq> claimable mapped w" "gp_code w' = gp_code w"
    "i = Some j \<Longrightarrow> j < length (gate_pools w') \<and> p_cur (gate_pools w' ! j) = p_base (gate_pools w' ! j) \<and>
      \<not> p_cur (gate_pools w' ! j) + ISLAND_BYTES > p_end (gate_pools w' ! j)" by blast+
qed

definition fits :: "'k gate_patcher \<Rightarrow> nat \<Rightarrow> bool" where
  "fits w i \<longleftrightarrow> i < length (gate_pools w) \<and> \<not> p_cur (gate_pools w ! i) + ISLAND_BYTES > p_end (gate_pools w ! i)"

lemma allocate_below_maps:
  assumes "noreplace mmap munmap mapped" and "allocate_gate_pool_below mmap munmap instr n page w = (i, w')"
  obtains r k' where "maps mapped n r (gp_kernel w) k'" and "register_or_fail r n (w\<lparr>gp_kernel := k'\<rparr>) = (i, w')"
proof -
  define a b where "a = align_down (if instr > n then instr - n else page) page"
    and "b = (if instr > push_bit 27 1 then align_up (instr - push_bit 27 1) page else page)"
  note al = assms(2) [unfolded allocate_gate_pool_below_def Let_def, folded a_def b_def]
  obtain r1 k1 where g: "gate_search_below mmap munmap a b n (gp_kernel w) = (r1, k1)" by fastforce
  note s = search_below_maps [OF assms(1) g]
  show thesis
  proof (cases r1)
    case None
    obtain r2 k2 where m: "map_gate_pool_at mmap munmap b n k1 = (r2, k2)" by fastforce
    have "maps mapped n r2 (gp_kernel w) k2"
      using maps_after_none [OF s [unfolded None] map_gate_pool_at_maps [OF assms(1) m]] .
    then show thesis using that al g None m by simp
  next
    case (Some base)
    then show thesis using that s al g by simp
  qed
qed

lemma allocate_above_maps:
  assumes "noreplace mmap munmap mapped" and "allocate_gate_pool_above mmap munmap instr n page w = (i, w')"
  obtains r k' where "maps mapped n r (gp_kernel w) k'" and "register_or_fail r n (w\<lparr>gp_kernel := k'\<rparr>) = (i, w')"
proof -
  define a b where "a = align_up (instr + page) page"
    and "b = (align_down (instr + push_bit 27 1 - n) page)"
  note al = assms(2) [unfolded allocate_gate_pool_above_def Let_def, folded a_def b_def]
  obtain r1 k1 where g: "gate_search_above mmap munmap a b n (gp_kernel w) = (r1, k1)" by fastforce
  note s = search_above_maps [OF assms(1) g]
  show thesis
  proof (cases r1)
    case None
    obtain r2 k2 where m: "map_gate_pool_at mmap munmap b n k1 = (r2, k2)" by fastforce
    have "maps mapped n r2 (gp_kernel w) k2"
      using maps_after_none [OF s [unfolded None] map_gate_pool_at_maps [OF assms(1) m]] .
    then show thesis using that al g None m by simp
  next
    case (Some base)
    then show thesis using that s al g by simp
  qed
qed

lemma allocate_near_inv:
  assumes nr: "noreplace mmap munmap mapped" and inv: "gate_inv mapped w"
    and al: "allocate_gate_pool_near mmap munmap page instr w = (i, w')"
  shows "gate_inv mapped w'" and "claimable mapped w' \<subseteq> claimable mapped w" and "gp_code w' = gp_code w"
    and "i = Some j \<Longrightarrow> fits w' j \<and> p_cur (gate_pools w' ! j) = p_base (gate_pools w' ! j)"
proof -
  let ?P = "\<lambda>w i w'. gate_inv mapped w' \<and> claimable mapped w' \<subseteq> claimable mapped w \<and> gp_code w' = gp_code w \<and>
    (\<forall>j. i = Some j \<longrightarrow> fits w' j \<and> p_cur (gate_pools w' ! j) = p_base (gate_pools w' ! j))"
  have reg: "?P w i w'" if "gate_inv mapped w" "maps mapped n r (gp_kernel w) k'"
    "register_or_fail r n (w\<lparr>gp_kernel := k'\<rparr>) = (i, w')" for w i w' n r k'
    using register_or_fail_inv [OF that] by (auto simp: fits_def)
  have below: "?P w i w'" if "gate_inv mapped w" "allocate_gate_pool_below mmap munmap instr n page w = (i, w')" for w i w' n
    by (rule allocate_below_maps [OF nr that(2)]) (rule reg [OF that(1)])
  have above: "?P w i w'" if "gate_inv mapped w" "allocate_gate_pool_above mmap munmap instr n page w = (i, w')" for w i w' n
    by (rule allocate_above_maps [OF nr that(2)]) (rule reg [OF that(1)])
  obtain i1 w1 where b: "allocate_gate_pool_below mmap munmap instr (align_up SYSCALL_GATE_POOL_SIZE page) page w = (i1, w1)"
    by fastforce
  have "?P w i w'"
  proof (cases i1)
    case None
    then have "allocate_gate_pool_above mmap munmap instr (align_up SYSCALL_GATE_POOL_SIZE page) page w1 = (i, w')"
      using al b by (simp add: allocate_gate_pool_near_def)
    then show ?thesis using below [OF inv b] above [of w1 _ i w'] by fastforce
  next
    case (Some j)
    then have "(i, w') = (i1, w1)" using al b by (simp add: allocate_gate_pool_near_def)
    then show ?thesis using below [OF inv b] by simp
  qed
  then show "gate_inv mapped w'" "claimable mapped w' \<subseteq> claimable mapped w" "gp_code w' = gp_code w"
    "i = Some j \<Longrightarrow> fits w' j \<and> p_cur (gate_pools w' ! j) = p_base (gate_pools w' ! j)" by blast+
qed

lemma free_split:
  assumes "pool_wf p" and "\<not> p_cur p + ISLAND_BYTES > p_end p"
  shows "pool_free (p\<lparr>p_cur := p_cur p + ISLAND_BYTES\<rparr>) = pool_free p - {x. in_range (p_cur p) 384 x}"
    and "{x. in_range (p_cur p) 384 x} \<subseteq> pool_free p" and "pool_wf (p\<lparr>p_cur := p_cur p + ISLAND_BYTES\<rparr>)"
proof -
  have uc: "unat (p_cur p + ISLAND_BYTES) = unat (p_cur p) + 384"
    using assms(1) by (subst unat_add_lem [THEN iffD1]) (auto simp: pool_wf_def word_le_nat_alt)
  have le: "unat (p_cur p) + 384 \<le> unat (p_end p)" using assms(2) uc by (simp add: word_less_nat_alt)
  have d: "unat (p_end p - p_cur p) = unat (p_end p) - unat (p_cur p)"
    using assms(1) by (simp add: pool_wf_def unat_sub)
  have d2: "unat (p_end p - (p_cur p + ISLAND_BYTES)) = unat (p_end p) - unat (p_cur p) - 384"
    using le uc by (subst unat_sub) (simp_all add: word_le_nat_alt)
  show "{x. in_range (p_cur p) 384 x} \<subseteq> pool_free p"
    using le d by (auto simp: pool_free_def in_range_def)
  show "pool_wf (p\<lparr>p_cur := p_cur p + ISLAND_BYTES\<rparr>)"
    using le uc assms(1) by (simp add: pool_wf_def word_le_nat_alt)
  have shift: "unat (x - (p_cur p + ISLAND_BYTES)) < unat (p_end p) - unat (p_cur p) - 384 \<longleftrightarrow>
      unat (x - p_cur p) < unat (p_end p) - unat (p_cur p) \<and> \<not> unat (x - p_cur p) < 384" for x
  proof (cases "unat (x - p_cur p) < 384")
    case True
    have "unat (x - p_cur p - ISLAND_BYTES) = 2 ^ 64 + unat (x - p_cur p) - 384"
      using True unat_sub_if_size [of "x - p_cur p" "ISLAND_BYTES"] by (simp add: word_size)
    moreover have "unat (p_end p) < 2 ^ 52" using assms(1) by (simp add: pool_wf_def)
    ultimately show ?thesis using True by (simp add: diff_diff_eq)
  next
    case False
    then have "unat (x - p_cur p - ISLAND_BYTES) = unat (x - p_cur p) - 384"
      by (subst unat_sub) (simp_all add: word_le_nat_alt)
    then show ?thesis using False le by (simp add: diff_diff_eq) arith
  qed
  show "pool_free (p\<lparr>p_cur := p_cur p + ISLAND_BYTES\<rparr>) = pool_free p - {x. in_range (p_cur p) 384 x}"
    using shift by (auto simp: pool_free_def in_range_def d d2)
qed

lemma patch_at_inv:
  assumes inv: "gate_inv mapped w" and fit: "fits w i"
  defines "island \<equiv> p_cur (gate_pools w ! i)"
  shows "gate_inv mapped (patch_at dispatcher instr i w)"
    and "{x. in_range island 384 x} \<subseteq> claimable mapped w"
    and "claimable mapped (patch_at dispatcher instr i w) \<subseteq> claimable mapped w - {x. in_range island 384 x}"
proof -
  let ?ps = "gate_pools w" and ?p = "gate_pools w ! i"
  let ?q = "?p\<lparr>p_cur := p_cur ?p + ISLAND_BYTES\<rparr>"
  have i: "i < length ?ps" using fit by (simp add: fits_def)
  have wf: "pool_wf p" "\<And>x. x \<in> pool_free p \<Longrightarrow> mapped (gp_kernel w) x" if "p \<in> set ?ps" for p
    using inv that by (auto simp: gate_inv_def)
  have dis: "x \<notin> pool_free (?ps ! l)" if "j < length ?ps" "l < length ?ps" "j \<noteq> l" "x \<in> pool_free (?ps ! j)" for j l x
    using inv that unfolding gate_inv_def pairwise_def by blast
  have sp: "pool_free ?q = pool_free ?p - {x. in_range island 384 x}" "{x. in_range island 384 x} \<subseteq> pool_free ?p" "pool_wf ?q"
    using free_split [of ?p] wf(1) [OF nth_mem [OF i]] fit by (auto simp: fits_def island_def)
  have sub: "pool_free (?ps[i := ?q] ! j) \<subseteq> pool_free (?ps ! j)" if "j < length ?ps" for j
    using that sp(1) by (cases "j = i") auto
  have ps: "gate_pools (patch_at dispatcher instr i w) = ?ps[i := ?q]" "gp_kernel (patch_at dispatcher instr i w) = gp_kernel w"
    by (simp_all add: patch_at_def Let_def)
  have mem: "p \<in> set (?ps[i := ?q]) \<Longrightarrow> \<exists>j < length ?ps. p = ?ps[i := ?q] ! j" for p
    by (metis in_set_conv_nth length_list_update)
  have each: "pool_wf (?ps[i := ?q] ! j) \<and> (\<forall>x \<in> pool_free (?ps[i := ?q] ! j). mapped (gp_kernel w) x)" if "j < length ?ps" for j
    using that sub [OF that] wf [OF nth_mem [OF that]] sp(3) by (cases "j = i") auto
  have pair: "pool_free (?ps[i := ?q] ! j) \<inter> pool_free (?ps[i := ?q] ! l) = {}"
    if "j < length ?ps" "l < length ?ps" "j \<noteq> l" for j l
    using sub [OF that(1)] sub [OF that(2)] dis [OF that] by blast
  show "gate_inv mapped (patch_at dispatcher instr i w)"
    unfolding gate_inv_def ps pairwise_def using mem each pair by (metis length_list_update lessThan_iff)
  show "{x. in_range island 384 x} \<subseteq> claimable mapped w"
    using sp(2) i by (auto simp: claimable_def)
  have out: "x \<notin> pool_free (?ps[i := ?q] ! j)" if "j < length ?ps" "in_range island 384 x" for j x
    using that sp dis [of i j x] i by (cases "j = i") auto
  show "claimable mapped (patch_at dispatcher instr i w) \<subseteq> claimable mapped w - {x. in_range island 384 x}"
  proof
    fix x assume "x \<in> claimable mapped (patch_at dispatcher instr i w)"
    then consider j where "j < length ?ps" "x \<in> pool_free (?ps[i := ?q] ! j)" | "\<not> mapped (gp_kernel w) x"
      unfolding claimable_def ps using mem by blast
    then show "x \<in> claimable mapped w - {x. in_range island 384 x}"
    proof cases
      case 1
      then have "x \<in> pool_free (?ps ! j)" using sub by blast
      then have "x \<in> claimable mapped w" using nth_mem [OF 1(1)] by (auto simp: claimable_def)
      then show ?thesis using 1 out by blast
    next
      case 2
      then show ?thesis using sp(2) wf(2) [OF nth_mem [OF i]] by (auto simp: claimable_def)
    qed
  qed
qed

lemma find_gate_pool_fits:
  assumes "find_gate_pool instr (gate_pools w) = Some i"
  shows "fits w i \<and> island_reachable instr (p_cur (gate_pools w ! i))"
proof -
  have "find_gate_pool instr ps = Some i \<Longrightarrow> i < length ps \<and>
      \<not> p_cur (ps ! i) + ISLAND_BYTES > p_end (ps ! i) \<and> island_reachable instr (p_cur (ps ! i))" for ps
    by (induction ps arbitrary: i) (auto split: if_splits)
  then show ?thesis using assms by (simp add: fits_def)
qed

lemma patch_instruction_step:
  assumes nr: "noreplace mmap munmap mapped" and inv: "gate_inv mapped w"
    and page: "page_ok page" and instr: "4 dvd instr" "unat instr < 2 ^ 52"
    and p: "patch_instruction mmap munmap page dispatcher instr w = (True, w')"
  obtains island where "gp_code w' = (place island (gate_emit_island dispatcher island instr) (gp_code w))
      (instr := gate_branch instr island)"
    and "island_reachable instr island" and "gate_inv mapped w'" and "{x. in_range island 384 x} \<subseteq> claimable mapped w"
    and "claimable mapped w' \<subseteq> claimable mapped w - {x. in_range island 384 x}"
proof -
  obtain i w1 where w1: "w' = patch_at dispatcher instr i w1" "gate_inv mapped w1" "claimable mapped w1 \<subseteq> claimable mapped w"
    "gp_code w1 = gp_code w" "fits w1 i" "island_reachable instr (p_cur (gate_pools w1 ! i))"
  proof (cases "find_gate_pool instr (gate_pools w)")
    case None
    obtain r w1 where a: "allocate_gate_pool_near mmap munmap page instr w = (r, w1)" by fastforce
    then obtain i where r: "r = Some i" "w' = patch_at dispatcher instr i w1"
      using p None by (auto simp: patch_instruction_def split: option.splits)
    note ai = allocate_near_inv [OF nr inv a]
    show thesis
      using that [of i w1] r ai(1-3) ai(4) [OF r(1)] allocate_near_reachable [OF page instr a [unfolded r(1)]] by simp
  next
    case (Some i)
    then show thesis using that [of i w] p inv find_gate_pool_fits [OF Some] by (simp add: patch_instruction_def)
  qed
  let ?island = "p_cur (gate_pools w1 ! i)"
  note pi = patch_at_inv [OF w1(2,5)]
  show thesis
  proof (rule that [of ?island])
    show "gp_code w' = (place ?island (gate_emit_island dispatcher ?island instr) (gp_code w)) (instr := gate_branch instr ?island)"
      by (simp add: w1(1,4) patch_at_def Let_def)
  qed (use w1 pi(1,2) pi(3) [of dispatcher instr] in auto)
qed

lemma place_island:
  "\<not> in_range island 384 x \<Longrightarrow> place island (gate_emit_island d island instr) code x = code x"
  by (simp add: place_def in_range_def)

text \<open>
  What patching did to a site: it was a system call and is now a branch that reaches an island for it,
  or it was none and is what it was.
\<close>

definition site_patched :: "u64 \<Rightarrow> (u64 \<Rightarrow> u32) \<Rightarrow> (u64 \<Rightarrow> u32) \<Rightarrow> u64 \<Rightarrow> bool" where
  "site_patched dispatcher before after site \<longleftrightarrow>
     (if before site = DARWIN_SVC_0X80
      then \<exists>island. after site = gate_branch site island \<and> arm64_branch_in_range (island - site) \<and>
        code_at after island (gate_emit_island dispatcher island site)
      else after site = before site)"

lemma code_at_nthD: "code_at code a ws \<Longrightarrow> i < length ws \<Longrightarrow> code (a + 4 * of_nat i) = ws ! i"
proof (induction ws arbitrary: a i)
  case (Cons v ws)
  show ?case
  proof (cases i)
    case (Suc k)
    then show ?thesis using Cons.IH [of "a + 4" k] Cons.prems by (simp add: algebra_simps)
  qed (use Cons.prems in simp)
qed simp

lemma code_at_frame:
  assumes "code_at code a ws" and "\<And>x. in_range a (4 * length ws) x \<Longrightarrow> code' x = code x" and "length ws < 2 ^ 32"
  shows "code_at code' a ws"
proof (rule code_at_nth)
  fix i assume i: "i < length ws"
  have "code (a + 4 * of_nat i) = ws ! i" using code_at_nthD [OF assms(1) i] .
  moreover have "unat (4 * of_nat i :: u64) = 4 * i" using i assms(3) by (simp add: unat_word_ariths unat_of_nat)
  then have "in_range a (4 * length ws) (a + 4 * of_nat i)" using i by (simp add: in_range_def)
  ultimately show "code' (a + 4 * of_nat i) = ws ! i" using assms(2) by simp
qed

lemma all_from: "i < m \<Longrightarrow> (\<forall>j. i \<le> j \<and> j < m \<longrightarrow> P j) \<longleftrightarrow> P i \<and> (\<forall>j. Suc i \<le> j \<and> j < m \<longrightarrow> P j)"
  by (metis Suc_le_eq le_eq_less_or_eq)

lemma patch_section_from_sites:
  assumes nr: "noreplace mmap munmap mapped" and page: "page_ok page" and al: "4 dvd code" and cnt: "unat code + 4 * cnt < 2 ^ 52"
  shows "patch_section_from mmap munmap page dispatcher code i n w = (Some c, w') \<Longrightarrow> i + n = cnt \<Longrightarrow>
    gate_inv mapped w \<Longrightarrow> (\<And>j. j < cnt \<Longrightarrow> code + 4 * of_nat j \<notin> claimable mapped w) \<Longrightarrow>
    gate_inv mapped w' \<and> claimable mapped w' \<subseteq> claimable mapped w \<and>
    (\<forall>x. x \<notin> claimable mapped w \<and> (\<forall>j. i \<le> j \<and> j < cnt \<longrightarrow> x \<noteq> code + 4 * of_nat j) \<longrightarrow> gp_code w' x = gp_code w x) \<and>
    (\<forall>j. i \<le> j \<and> j < cnt \<longrightarrow> site_patched dispatcher (gp_code w) (gp_code w') (code + 4 * of_nat j)) \<and>
    c = length (filter (\<lambda>j. gp_code w (code + 4 * of_nat j) = DARWIN_SVC_0X80) [i..<cnt])"
proof (induction n arbitrary: i w c)
  case 0
  then show ?case by auto
next
  case (Suc n)
  let ?a = "\<lambda>j. code + 4 * of_nat j :: u64"
  have inj: "?a j \<noteq> ?a l" if "j < cnt" "l < cnt" "j \<noteq> l" for j l
  proof -
    have "unat (4 * of_nat m :: u64) = 4 * m" if "m < cnt" for m
      by (rule unat_of_nat_eqI) (use that cnt in auto)
    then show ?thesis using that by (metis add_left_cancel mult_cancel1 zero_neq_numeral)
  qed
  have icnt: "i < cnt" using Suc.prems(2) by simp
  have upt: "[i..<cnt] = i # [Suc i..<cnt]" using icnt by (simp add: upt_conv_Cons)
  show ?case
  proof (cases "gp_code w (?a i) = DARWIN_SVC_0X80")
    case False
    have r: "patch_section_from mmap munmap page dispatcher code (Suc i) n w = (Some c, w')"
      using Suc.prems(1) False by (simp add: Let_def)
    have n: "Suc i + n = cnt" using Suc.prems(2) by simp
    note ih = Suc.IH [OF r n Suc.prems(3,4)]
    have "?a i \<noteq> ?a j" if "Suc i \<le> j" "j < cnt" for j using inj [of i j] that by simp
    then have "gp_code w' (?a i) = gp_code w (?a i)" using ih Suc.prems(4) [OF icnt] by blast
    then have "site_patched dispatcher (gp_code w) (gp_code w') (?a i)" using False by (simp add: site_patched_def)
    then show ?thesis unfolding all_from [OF icnt] upt filter.simps using ih False by simp
  next
    case True
    obtain b w1 where p: "patch_instruction mmap munmap page dispatcher (?a i) w = (b, w1)" by fastforce
    obtain c1 where b: "b" and r: "patch_section_from mmap munmap page dispatcher code (Suc i) n w1 = (Some c1, w')" "c = Suc c1"
      using Suc.prems(1) True p by (auto simp: Let_def split: bool.splits prod.splits)
    have ui: "unat (?a i) = unat code + 4 * i"
      by (rule unat_of_nat_eqI) (use cnt Suc.prems(2) in auto)
    have "4 dvd ?a i" using al by simp
    moreover have "unat (?a i) < 2 ^ 52" using ui cnt Suc.prems(2) by simp
    ultimately obtain island where
      w1: "gp_code w1 = (place island (gate_emit_island dispatcher island (?a i)) (gp_code w)) (?a i := gate_branch (?a i) island)"
      and reach: "island_reachable (?a i) island" and inv1: "gate_inv mapped w1"
      and cl: "{x. in_range island 384 x} \<subseteq> claimable mapped w" "claimable mapped w1 \<subseteq> claimable mapped w - {x. in_range island 384 x}"
      by (rule patch_instruction_step [OF nr Suc.prems(3) page, of "?a i" dispatcher w1]) (use p b in simp_all)
    have fr1: "gp_code w1 x = gp_code w x" if "x \<notin> claimable mapped w" "x \<noteq> ?a i" for x
    proof -
      have "\<not> in_range island 384 x" using that(1) cl(1) by blast
      then show ?thesis using that(2) by (simp add: w1 place_island)
    qed
    have site: "?a j \<notin> claimable mapped w1" if "j < cnt" for j using Suc.prems(4) [OF that] cl(2) by blast
    have n: "Suc i + n = cnt" using Suc.prems(2) by simp
    note ih = Suc.IH [OF r(1) n inv1 site]
    have fr2: "gp_code w' x = gp_code w1 x" if "x \<notin> claimable mapped w1" "\<And>j. Suc i \<le> j \<Longrightarrow> j < cnt \<Longrightarrow> x \<noteq> ?a j" for x
      using ih Suc.prems(2) that by auto
    have at_i: "gp_code w' (?a i) = gate_branch (?a i) island"
    proof -
      have "gp_code w' (?a i) = gp_code w1 (?a i)"
        by (rule fr2) (use site inj Suc.prems(2) in auto)
      then show ?thesis by (simp add: w1)
    qed
    have island: "code_at (gp_code w') island (gate_emit_island dispatcher island (?a i))"
    proof (rule code_at_frame [OF code_at_place [of "gate_emit_island dispatcher island (?a i)" island "gp_code w"]])
      fix x assume "in_range island (4 * length (gate_emit_island dispatcher island (?a i))) x"
      then have x: "in_range island 384 x" by simp
      then have "x \<noteq> ?a j" if "j < cnt" for j using Suc.prems(4) [OF that] cl(1) by blast
      then show "gp_code w' x = place island (gate_emit_island dispatcher island (?a i)) (gp_code w) x"
        using fr2 [of x] cl(2) x Suc.prems(2) by (auto simp: w1)
    qed simp_all
    have site_i: "site_patched dispatcher (gp_code w) (gp_code w') (?a i)"
      using True at_i island reach by (auto simp: site_patched_def island_reachable_def)
    have eq: "gp_code w1 (?a j) = gp_code w (?a j)" if "Suc i \<le> j" "j < cnt" for j
      by (rule fr1) (use that Suc.prems(4) inj in auto)
    have sites: "site_patched dispatcher (gp_code w) (gp_code w') (?a j)" if "Suc i \<le> j" "j < cnt" for j
      using ih that eq [OF that] by (simp add: site_patched_def)
    have frame: "gp_code w' x = gp_code w x"
      if "x \<notin> claimable mapped w" "x \<noteq> ?a i" "\<And>j. Suc i \<le> j \<Longrightarrow> j < cnt \<Longrightarrow> x \<noteq> ?a j" for x
      using fr1 [OF that(1,2)] fr2 [of x] that(1,3) cl(2) by auto
    have cnt_eq: "filter (\<lambda>j. gp_code w1 (?a j) = DARWIN_SVC_0X80) [Suc i..<cnt] =
        filter (\<lambda>j. gp_code w (?a j) = DARWIN_SVC_0X80) [Suc i..<cnt]"
      by (rule filter_cong) (use eq in auto)
    show ?thesis unfolding all_from [OF icnt] upt filter.simps
      using ih site_i sites frame True r(2) cl(2) cnt_eq by auto
  qed
qed

text \<open>
  C18.  Patching a section that is mapped and outside the pools, with any kernel whose mappings replace
  nothing: when it succeeds, every system call instruction of the section has become a branch that
  reaches an island made for it, which is intact in memory at the end, every other word of the section
  is unchanged, and the result is the number of system call instructions.
\<close>

theorem patch_section_sites:
  assumes "noreplace mmap munmap mapped" and "page_ok page" and "4 dvd code" and "unat code + unat sz < 2 ^ 52"
    and "gate_inv mapped w"
    and "\<And>j. j < unat (sz div 4) \<Longrightarrow> code + 4 * of_nat j \<notin> claimable mapped w"
    and "patch_section mmap munmap page dispatcher code sz w = (Some c, w')"
  shows "(\<forall>j < unat (sz div 4). site_patched dispatcher (gp_code w) (gp_code w') (code + 4 * of_nat j)) \<and>
    c = length (filter (\<lambda>j. gp_code w (code + 4 * of_nat j) = DARWIN_SVC_0X80) [0..<unat (sz div 4)])"
proof -
  have "unat code + 4 * unat (sz div 4) < 2 ^ 52" using assms(4) by (simp add: unat_div)
  from patch_section_from_sites [OF assms(1-3) this assms(7) [unfolded patch_section_def] _ assms(5,6)]
  show ?thesis by simp
qed

text \<open>A kernel that maps nothing more, and a section of two words with a pool beside it.\<close>

definition full_mmap :: "(u64 \<Rightarrow> bool) mapper" where "full_mmap a n k = (None, k)"

definition full_munmap :: "(u64 \<Rightarrow> bool) unmapper" where
  "full_munmap a n k = (\<lambda>x. k x \<and> \<not> in_range a (unat n) x)"

definition two_word_patcher :: "(u64 \<Rightarrow> bool) gate_patcher" where
  "two_word_patcher =
     \<lparr>gate_pools = [\<lparr>p_cur = 0x410000, p_end = 0x411000, p_base = 0x410000, p_size = 0x1000\<rparr>],
      gp_code = (\<lambda>x. if x = 0x400004 then DARWIN_SVC_0X80 else 0), gp_kernel = (\<lambda>_. True)\<rparr>"

theorem patch_section_sites_witness:
  "site_patched 0x7F000000 (gp_code two_word_patcher)
     (gp_code (snd (patch_section full_mmap full_munmap 0x1000 0x7F000000 0x400000 8 two_word_patcher))) 0x400004"
proof -
  let ?r = "patch_section full_mmap full_munmap 0x1000 0x7F000000 0x400000 8 two_word_patcher"
  have "fst ?r = Some 1" by code_simp
  then have r: "?r = (Some 1, snd ?r)" by (metis prod.collapse)
  have free: "pool_free (hd (gate_pools two_word_patcher)) = {x. in_range 0x410000 0x1000 x}"
    by (simp add: pool_free_def two_word_patcher_def)
  have inv: "gate_inv (\<lambda>k. k) two_word_patcher"
    by (simp add: gate_inv_def two_word_patcher_def pool_wf_def pairwise_def)
  have nr: "noreplace full_mmap full_munmap (\<lambda>k. k)"
    by (simp add: noreplace_def full_mmap_def full_munmap_def maps_def)
  have cl: "0x400000 + 4 * of_nat j \<notin> claimable (\<lambda>k. k) two_word_patcher" if "j < unat (8 div 4 :: u64)" for j
  proof -
    have "j = 0 \<or> j = 1" using that by auto
    moreover have "claimable (\<lambda>k. k) two_word_patcher = {x. in_range 0x410000 0x1000 x}"
      using free by (simp add: claimable_def two_word_patcher_def)
    ultimately show ?thesis by (auto simp: in_range_def)
  qed
  have p: "page_ok 0x1000" "4 dvd (0x400000 :: u64)" by (simp_all add: page_ok_def dvd_def exI [of _ "0x100000"])
  from patch_section_sites [OF nr p(1,2) _ inv cl r] have
    "\<forall>j < 2. site_patched 0x7F000000 (gp_code two_word_patcher) (gp_code (snd ?r)) (0x400000 + 4 * of_nat j)" by simp
  then show ?thesis by (auto dest: spec [of _ 1])
qed

end
