(* ===== verification/Tables.thy ===== *)
theory Tables
  imports "HOL-Library.Word"
begin

text \<open>
  The bounded tables the program keeps in static arrays: an entry is added where there is room, looked
  up by key, and forgotten.  The interface is what the users of such a table rely on: the table stands
  for a partial map.
\<close>

locale slot_table =
  fixes inv :: "'t \<Rightarrow> bool" and contents :: "'t \<Rightarrow> 'k \<Rightarrow> 'v option" and room :: "'t \<Rightarrow> bool"
    and add :: "'k \<Rightarrow> 'v \<Rightarrow> 't \<Rightarrow> 't" and lookup :: "'k \<Rightarrow> 't \<Rightarrow> 'v option"
    and forget :: "'k \<Rightarrow> 't \<Rightarrow> 't"
  assumes lookup_contents: "inv t \<Longrightarrow> lookup k t = contents t k"
    and add_contents: "inv t \<Longrightarrow> contents t k = None \<Longrightarrow> room t \<Longrightarrow> contents (add k v t) = (contents t)(k \<mapsto> v)"
    and add_no_room: "\<not> room t \<Longrightarrow> add k v t = t"
    and add_inv: "inv t \<Longrightarrow> contents t k = None \<Longrightarrow> inv (add k v t)"
    and forget_contents: "inv t \<Longrightarrow> contents (forget k t) = (contents t)(k := None)"
    and forget_inv: "inv t \<Longrightarrow> inv (forget k t)"
begin

lemma add_cases:
  assumes "inv t" and "contents t k = None"
  shows "contents (add k v t) = (if room t then (contents t)(k \<mapsto> v) else contents t)"
  using assms add_contents add_no_room by simp

lemma lookup_add:
  assumes "inv t" and "contents t k = None" and "room t"
  shows "lookup k' (add k v t) = (if k' = k then Some v else lookup k' t)"
  using assms by (simp add: lookup_contents add_inv add_contents)

lemma lookup_forget:
  assumes "inv t"
  shows "lookup k' (forget k t) = (if k' = k then None else lookup k' t)"
  using assms by (simp add: lookup_contents forget_inv forget_contents)

lemma forget_added:
  assumes "inv t" and "contents t k = None"
  shows "contents (forget k (add k v t)) = contents t"
proof -
  have "contents (forget k (add k v t)) = (contents (add k v t))(k := None)"
    using assms by (simp add: forget_contents add_inv)
  then show ?thesis using assms by (auto simp: add_cases)
qed

text \<open>A property of the entries that the new entry has is kept.\<close>

lemma entries_add:
  assumes "inv t" and "contents t k = None" and "\<And>k' v'. contents t k' = Some v' \<Longrightarrow> P k' v'" and "P k v"
    and "contents (add k v t) k' = Some v'"
  shows "P k' v'"
  using assms by (auto simp: add_cases split: if_splits)

lemma entries_forget:
  assumes "inv t" and "contents (forget k t) k' = Some v'"
  shows "contents t k' = Some v' \<and> k' \<noteq> k"
  using assms by (auto simp: forget_contents split: if_splits)

end

text \<open>
  The common implementation: an array whose slots are empty or hold a key with its value, searched
  from the front.
\<close>

fun slot_add :: "'k \<Rightarrow> 'v \<Rightarrow> ('k \<times> 'v) option list \<Rightarrow> ('k \<times> 'v) option list" where
  "slot_add k v [] = []"
| "slot_add k v (None # es) = Some (k, v) # es"
| "slot_add k v (Some e # es) = Some e # slot_add k v es"

fun slot_lookup :: "'k \<Rightarrow> ('k \<times> 'v) option list \<Rightarrow> 'v option" where
  "slot_lookup k [] = None"
| "slot_lookup k (None # es) = slot_lookup k es"
| "slot_lookup k (Some (k', v) # es) = (if k' = k then Some v else slot_lookup k es)"

fun slot_forget :: "'k \<Rightarrow> ('k \<times> 'v) option list \<Rightarrow> ('k \<times> 'v) option list" where
  "slot_forget k [] = []"
| "slot_forget k (None # es) = None # slot_forget k es"
| "slot_forget k (Some (k', v) # es) = (if k' = k then None # es else Some (k', v) # slot_forget k es)"

definition slot_keys :: "('k \<times> 'v) option list \<Rightarrow> 'k list" where
  "slot_keys es = map fst (List.map_filter id es)"

definition slot_inv :: "('k \<times> 'v) option list \<Rightarrow> bool" where
  "slot_inv es \<longleftrightarrow> distinct (slot_keys es)"

definition slot_contents :: "('k \<times> 'v) option list \<Rightarrow> 'k \<Rightarrow> 'v option" where
  "slot_contents es = map_of (List.map_filter id es)"

lemma slot_simps [simp]:
  "slot_keys [] = []" "slot_keys (None # es) = slot_keys es" "slot_keys (Some e # es) = fst e # slot_keys es"
  "slot_contents [] = Map.empty" "slot_contents (None # es) = slot_contents es"
  "slot_contents (Some e # es) = (slot_contents es)(fst e \<mapsto> snd e)"
  "slot_inv []" "slot_inv (None # es) = slot_inv es"
  "slot_inv (Some e # es) \<longleftrightarrow> fst e \<notin> set (slot_keys es) \<and> slot_inv es"
  by (auto simp: slot_keys_def slot_contents_def slot_inv_def List.map_filter_def)

lemma slot_contents_None: "slot_contents es k = None \<longleftrightarrow> k \<notin> set (slot_keys es)"
  by (simp add: slot_contents_def slot_keys_def map_of_eq_None_iff)

lemma slot_add_keys: "set (slot_keys (slot_add k v es)) = set (slot_keys es) \<union> (if None \<in> set es then {k} else {})"
  by (induction k v es rule: slot_add.induct) auto

lemma slot_forget_keys: "slot_inv es \<Longrightarrow> set (slot_keys (slot_forget k es)) = set (slot_keys es) - {k}"
  by (induction k es rule: slot_forget.induct) auto

lemma slot_add_length [simp]: "length (slot_add k v es) = length es"
  by (induction k v es rule: slot_add.induct) simp_all

lemma slot_forget_length [simp]: "length (slot_forget k es) = length es"
  by (induction k es rule: slot_forget.induct) simp_all

interpretation slots: slot_table slot_inv slot_contents "\<lambda>es. None \<in> set es" slot_add slot_lookup slot_forget
proof
  fix t :: "('k \<times> 'v) option list" and k v
  show "slot_lookup k t = slot_contents t k"
    by (induction k t rule: slot_lookup.induct) auto
  show "None \<notin> set t \<Longrightarrow> slot_add k v t = t"
    by (induction k v t rule: slot_add.induct) auto
  show "slot_inv t \<Longrightarrow> slot_contents t k = None \<Longrightarrow> None \<in> set t \<Longrightarrow>
      slot_contents (slot_add k v t) = (slot_contents t)(k \<mapsto> v)"
    by (induction k v t rule: slot_add.induct) (auto simp: fun_upd_twist slot_contents_None split: if_splits)
  show "slot_inv t \<Longrightarrow> slot_contents t k = None \<Longrightarrow> slot_inv (slot_add k v t)"
    by (induction k v t rule: slot_add.induct) (auto simp: slot_contents_None slot_add_keys split: if_splits)
  show "slot_inv t \<Longrightarrow> slot_contents (slot_forget k t) = (slot_contents t)(k := None)"
    by (induction k t rule: slot_forget.induct) (auto simp: slot_contents_None fun_upd_idem fun_upd_twist)
  show "slot_inv t \<Longrightarrow> slot_inv (slot_forget k t)"
    by (induction k t rule: slot_forget.induct) (auto simp: slot_forget_keys)
qed

end
