(* ===== verification/Guest_Vm.thy ===== *)
theory Guest_Vm
  imports Gate_State Tables
begin

text \<open>
  The table of small guest mappings (\<open>guest_vm_track.c\<close>).  Darwin maps 16 KiB pages, so a guest
  that maps less than a Linux page and unmaps a page or more is told \<open>EINVAL\<close>; the table records
  which mappings were that small.  \<open>mmap\<close> and \<open>munmap\<close> of the kernel are parameters, and
  \<open>posix_mappings\<close> is what they document.
\<close>

abbreviation (input) GUEST_VM_TRACK_MAX :: nat where "GUEST_VM_TRACK_MAX \<equiv> 64"
abbreviation (input) PAGE_SIZE :: u64 where "PAGE_SIZE \<equiv> 4096"
abbreviation (input) MAP_FIXED :: u32 where "MAP_FIXED \<equiv> 0x10"
abbreviation (input) MAP_ANONYMOUS :: u32 where "MAP_ANONYMOUS \<equiv> 0x20"

record guest_vm_entry =
  e_addr :: u64
  mapped_size :: u64
  used :: bool

definition guest_vm_table_init :: "guest_vm_entry list" where
  "guest_vm_table_init = replicate GUEST_VM_TRACK_MAX \<lparr>e_addr = 0, mapped_size = 0, used = False\<rparr>"

fun guest_vm_track_add :: "u64 \<Rightarrow> u64 \<Rightarrow> guest_vm_entry list \<Rightarrow> guest_vm_entry list" where
  "guest_vm_track_add addr len [] = []"
| "guest_vm_track_add addr len (e # es) =
     (if used e then e # guest_vm_track_add addr len es
      else \<lparr>e_addr = addr, mapped_size = len, used = True\<rparr> # es)"

fun guest_vm_lookup :: "u64 \<Rightarrow> guest_vm_entry list \<Rightarrow> u64 option" where
  "guest_vm_lookup addr [] = None"
| "guest_vm_lookup addr (e # es) =
     (if \<not> used e then guest_vm_lookup addr es
      else if e_addr e \<noteq> addr then guest_vm_lookup addr es
      else Some (mapped_size e))"

fun guest_vm_forget :: "u64 \<Rightarrow> guest_vm_entry list \<Rightarrow> guest_vm_entry list" where
  "guest_vm_forget addr [] = []"
| "guest_vm_forget addr (e # es) =
     (if \<not> used e then e # guest_vm_forget addr es
      else if e_addr e \<noteq> addr then e # guest_vm_forget addr es
      else e\<lparr>used := False\<rparr> # es)"

text \<open>
  The calls of the kernel return a \<open>long\<close> and \<open>errno\<close>.  The retry loop of \<open>munmap\<close>
  makes at most eight calls.
\<close>

type_synonym 'k sys_mmap = "u64 \<Rightarrow> u64 \<Rightarrow> u32 \<Rightarrow> u32 \<Rightarrow> u32 \<Rightarrow> u64 \<Rightarrow> 'k \<Rightarrow> (int \<times> int) \<times> 'k"
type_synonym 'k sys_munmap = "u64 \<Rightarrow> u64 \<Rightarrow> 'k \<Rightarrow> (int \<times> int) \<times> 'k"

definition machgate_darwin_mmap ::
  "'k sys_mmap \<Rightarrow> u64 \<Rightarrow> u64 \<Rightarrow> u32 \<Rightarrow> u32 \<Rightarrow> u32 \<Rightarrow> u64 \<Rightarrow>
     guest_vm_entry list \<times> 'k \<Rightarrow> (int \<times> int) \<times> guest_vm_entry list \<times> 'k" where
  "machgate_darwin_mmap sys_mmap addr len prot flags fd off w =
     (case sys_mmap addr len prot flags fd off (snd w) of
        ((result, err), k') \<Rightarrow>
          ((result, err),
           if result \<ge> 0 \<and> addr = 0 \<and> len > 0 \<and> len < PAGE_SIZE \<and> flags AND MAP_ANONYMOUS \<noteq> 0
           then guest_vm_track_add (word_of_int result) len (fst w) else fst w,
           k'))"

fun munmap_retry :: "nat \<Rightarrow> 'k sys_munmap \<Rightarrow> u64 \<Rightarrow> u64 \<Rightarrow> 'k \<Rightarrow> (int \<times> int) \<times> 'k" where
  "munmap_retry tries_left sys_munmap addr len k =
     (case sys_munmap addr len k of
        ((result, err), k') \<Rightarrow>
          if result < 0 \<and> err = EINTR \<and> tries_left > 1
          then munmap_retry (tries_left - 1) sys_munmap addr len k'
          else ((result, err), k'))"

declare munmap_retry.simps [simp del]

definition machgate_darwin_munmap ::
  "'k sys_munmap \<Rightarrow> u64 \<Rightarrow> u64 \<Rightarrow> guest_vm_entry list \<times> 'k \<Rightarrow> (int \<times> int) \<times> guest_vm_entry list \<times> 'k" where
  "machgate_darwin_munmap sys_munmap addr len w =
     (let tracked = guest_vm_lookup addr (fst w) \<noteq> None
      in if tracked \<and> len \<ge> PAGE_SIZE then ((-1, EINVAL), w)
         else case munmap_retry 8 sys_munmap addr len (snd w) of
           ((result, err), k') \<Rightarrow>
             if result < 0 \<and> err = EINTR
             then ((-1, if tracked \<or> len = PAGE_SIZE then EINVAL else err), fst w, k')
             else ((result, err),
                   if result \<ge> 0 \<and> tracked then guest_vm_forget addr (fst w) else fst w, k'))"

section \<open>The table is a partial map\<close>

definition slot_of :: "guest_vm_entry \<Rightarrow> (u64 \<times> u64) option" where
  "slot_of e = (if used e then Some (e_addr e, mapped_size e) else None)"

abbreviation vm_slots :: "guest_vm_entry list \<Rightarrow> (u64 \<times> u64) option list" where
  "vm_slots t \<equiv> map slot_of t"

lemma vm_slots_ops:
  "vm_slots (guest_vm_track_add a n t) = slot_add a n (vm_slots t)"
  "guest_vm_lookup a t = slot_lookup a (vm_slots t)"
  "vm_slots (guest_vm_forget a t) = slot_forget a (vm_slots t)"
  by (induction t) (simp_all add: slot_of_def)

definition vm_inv :: "guest_vm_entry list \<Rightarrow> bool" where "vm_inv t \<longleftrightarrow> slot_inv (vm_slots t)"

definition vm_contents :: "guest_vm_entry list \<Rightarrow> u64 \<Rightarrow> u64 option" where
  "vm_contents t = slot_contents (vm_slots t)"

definition vm_room :: "guest_vm_entry list \<Rightarrow> bool" where "vm_room t \<longleftrightarrow> (\<exists>e \<in> set t. \<not> used e)"

lemma vm_room_slots: "vm_room t \<longleftrightarrow> None \<in> set (vm_slots t)"
  by (auto simp: vm_room_def slot_of_def split: if_splits)

interpretation vm: slot_table vm_inv vm_contents vm_room guest_vm_track_add guest_vm_lookup guest_vm_forget
proof
  fix t :: "guest_vm_entry list" and k v
  show "vm_inv t \<Longrightarrow> guest_vm_lookup k t = vm_contents t k"
    by (simp add: vm_inv_def vm_contents_def vm_slots_ops slots.lookup_contents)
  show "vm_inv t \<Longrightarrow> vm_contents t k = None \<Longrightarrow> vm_room t \<Longrightarrow>
      vm_contents (guest_vm_track_add k v t) = (vm_contents t)(k \<mapsto> v)"
    by (simp add: vm_inv_def vm_contents_def vm_slots_ops vm_room_slots slots.add_contents)
  show "\<not> vm_room t \<Longrightarrow> guest_vm_track_add k v t = t"
    by (induction t) (auto simp: vm_room_def)
  show "vm_inv t \<Longrightarrow> vm_contents t k = None \<Longrightarrow> vm_inv (guest_vm_track_add k v t)"
    by (simp add: vm_inv_def vm_contents_def vm_slots_ops slots.add_inv)
  show "vm_inv t \<Longrightarrow> vm_contents (guest_vm_forget k t) = (vm_contents t)(k := None)"
    by (simp add: vm_inv_def vm_contents_def vm_slots_ops slots.forget_contents)
  show "vm_inv t \<Longrightarrow> vm_inv (guest_vm_forget k t)"
    by (simp add: vm_inv_def vm_slots_ops slots.forget_inv)
qed

section \<open>Sequences of calls\<close>

datatype vm_call = Mmap u64 u64 u32 u32 u32 u64 | Munmap u64 u64

fun vm_run :: "'k sys_mmap \<Rightarrow> 'k sys_munmap \<Rightarrow> vm_call \<Rightarrow>
    guest_vm_entry list \<times> 'k \<Rightarrow> (int \<times> int) \<times> guest_vm_entry list \<times> 'k" where
  "vm_run sys_mmap sys_munmap (Mmap addr len prot flags fd off) w =
     machgate_darwin_mmap sys_mmap addr len prot flags fd off w"
| "vm_run sys_mmap sys_munmap (Munmap addr len) w = machgate_darwin_munmap sys_munmap addr len w"

definition pages_length :: "u64 \<Rightarrow> nat" where
  "pages_length len = (unat len + 4095) div 4096 * 4096"

text \<open>
  What the kernel documents: a new mapping at an address of its choice is where nothing was mapped, a
  mapping takes nothing away, \<open>munmap\<close> takes away the pages of its range, and a call that fails
  changes nothing.
\<close>

definition posix_mappings :: "'k sys_mmap \<Rightarrow> 'k sys_munmap \<Rightarrow> ('k \<Rightarrow> u64 \<Rightarrow> bool) \<Rightarrow> bool" where
  "posix_mappings sys_mmap sys_munmap mapped \<longleftrightarrow>
     (\<forall>addr len prot flags fd off k r e k'. sys_mmap addr len prot flags fd off k = ((r, e), k') \<longrightarrow>
        (if r < 0 then mapped k' = mapped k
         else (\<forall>x. mapped k x \<longrightarrow> mapped k' x) \<and> mapped k' (word_of_int r) \<and>
           (addr = 0 \<and> flags AND MAP_FIXED = 0 \<longrightarrow> \<not> mapped k (word_of_int r)))) \<and>
     (\<forall>addr len k r e k'. sys_munmap addr len k = ((r, e), k') \<longrightarrow>
        (if r < 0 then mapped k' = mapped k
         else \<forall>x. mapped k' x \<longleftrightarrow> mapped k x \<and> \<not> in_range addr (pages_length len) x))"

text \<open>
  The calls the table is made for: no fixed mapping at the null address, and no unmapping that reaches
  a recorded mapping from below.
\<close>

fun disciplined :: "guest_vm_entry list \<Rightarrow> vm_call \<Rightarrow> bool" where
  "disciplined t (Mmap addr len prot flags fd off) \<longleftrightarrow> addr \<noteq> 0 \<or> flags AND MAP_FIXED = 0"
| "disciplined t (Munmap addr len) \<longleftrightarrow>
     list_all (\<lambda>e. used e \<and> in_range addr (pages_length len) (e_addr e) \<longrightarrow> e_addr e = addr) t"

inductive vm_reachable :: "'k sys_mmap \<Rightarrow> 'k sys_munmap \<Rightarrow> 'k \<Rightarrow> guest_vm_entry list \<times> 'k \<Rightarrow> bool"
  for sys_mmap sys_munmap k0 where
  start: "vm_reachable sys_mmap sys_munmap k0 (guest_vm_table_init, k0)"
| call: "vm_reachable sys_mmap sys_munmap k0 w \<Longrightarrow> disciplined (fst w) c \<Longrightarrow>
    vm_run sys_mmap sys_munmap c w = (r, w') \<Longrightarrow> vm_reachable sys_mmap sys_munmap k0 w'"

definition vm_live :: "('k \<Rightarrow> u64 \<Rightarrow> bool) \<Rightarrow> guest_vm_entry list \<times> 'k \<Rightarrow> bool" where
  "vm_live mapped w \<longleftrightarrow> vm_inv (fst w) \<and>
     (\<forall>a n. vm_contents (fst w) a = Some n \<longrightarrow> mapped (snd w) a \<and> 0 < n \<and> n < PAGE_SIZE)"

lemma vm_contents_member:
  "vm_contents t a = Some n \<Longrightarrow> \<exists>e \<in> set t. used e \<and> e_addr e = a"
  unfolding vm_contents_def slot_contents_def
  by (drule map_of_SomeD) (force simp: List.map_filter_def slot_of_def split: if_splits)

lemma vm_member_contents:
  "vm_inv t \<Longrightarrow> e \<in> set t \<Longrightarrow> used e \<Longrightarrow> vm_contents t (e_addr e) = Some (mapped_size e)"
  unfolding vm_inv_def vm_contents_def slot_inv_def slot_contents_def slot_keys_def
  by (rule map_of_is_SomeI) (force simp: List.map_filter_def slot_of_def)+

lemma vm_init: "vm_inv guest_vm_table_init" "vm_contents guest_vm_table_init a = None"
proof -
  have "vm_slots (replicate n \<lparr>e_addr = 0, mapped_size = 0, used = False\<rparr>) = replicate n None" for n
    by (simp add: slot_of_def)
  moreover have "slot_inv (replicate n None)" "slot_contents (replicate n None) a = None" for n
    by (induction n) simp_all
  ultimately show "vm_inv guest_vm_table_init" "vm_contents guest_vm_table_init a = None"
    by (simp_all only: vm_inv_def vm_contents_def guest_vm_table_init_def)
qed

lemma munmap_retry_mapped:
  assumes "posix_mappings sys_mmap sys_munmap mapped" and "munmap_retry n sys_munmap addr len k = ((r, e), k')"
  shows "if r < 0 then mapped k' = mapped k
    else \<forall>x. mapped k' x \<longleftrightarrow> mapped k x \<and> \<not> in_range addr (pages_length len) x"
  using assms(2)
proof (induction n arbitrary: k rule: less_induct)
  case (less n)
  obtain r1 e1 k1 where one: "sys_munmap addr len k = ((r1, e1), k1)" by (metis prod.exhaust)
  have m: "if r1 < 0 then mapped k1 = mapped k
      else \<forall>x. mapped k1 x \<longleftrightarrow> mapped k x \<and> \<not> in_range addr (pages_length len) x"
    using assms(1) one unfolding posix_mappings_def by blast
  show ?case
  proof (cases "r1 < 0 \<and> e1 = EINTR \<and> n > 1")
    case True
    then have "munmap_retry (n - 1) sys_munmap addr len k1 = ((r, e), k')"
      using less.prems one by (simp add: munmap_retry.simps [of n])
    then show ?thesis using less.IH [of "n - 1" k1] True m by simp
  next
    case False
    then have "((r, e), k') = ((r1, e1), k1)" using less.prems one by (subst (asm) munmap_retry.simps) auto
    then show ?thesis using m by simp
  qed
qed

lemma vm_live_mmap:
  assumes pm: "posix_mappings sys_mmap sys_munmap mapped" and live: "vm_live mapped (t, k)"
    and ok: "addr \<noteq> 0 \<or> flags AND MAP_FIXED = 0"
    and call: "machgate_darwin_mmap sys_mmap addr len prot flags fd off (t, k) = (r, t', k')"
  shows "vm_live mapped (t', k')"
proof -
  obtain res err where one: "sys_mmap addr len prot flags fd off k = ((res, err), k')"
    using call by (auto simp: machgate_darwin_mmap_def split: prod.splits)
  have m: "if res < 0 then mapped k' = mapped k
      else (\<forall>x. mapped k x \<longrightarrow> mapped k' x) \<and> mapped k' (word_of_int res) \<and>
        (addr = 0 \<and> flags AND MAP_FIXED = 0 \<longrightarrow> \<not> mapped k (word_of_int res))"
    using pm one unfolding posix_mappings_def by blast
  then have keep: "mapped k x \<Longrightarrow> mapped k' x" for x by (auto split: if_splits)
  define small where "small \<longleftrightarrow> 0 \<le> res \<and> addr = 0 \<and> 0 < len \<and> len < PAGE_SIZE \<and> flags AND MAP_ANONYMOUS \<noteq> 0"
  have t': "t' = (if small then guest_vm_track_add (word_of_int res) len t else t)"
    using call one by (auto simp: machgate_darwin_mmap_def small_def)
  have old: "vm_contents t a = Some n \<Longrightarrow> mapped k' a \<and> 0 < n \<and> n < PAGE_SIZE" for a n
    using live keep by (auto simp: vm_live_def)
  show ?thesis
  proof (cases small)
    case True
    then have fresh: "vm_contents t (word_of_int res) = None"
      using m ok live by (cases "vm_contents t (word_of_int res)") (auto simp: vm_live_def small_def)
    have inv: "vm_inv t" using live by (simp add: vm_live_def)
    have "mapped k' a \<and> 0 < n \<and> n < PAGE_SIZE" if "vm_contents (guest_vm_track_add (word_of_int res) len t) a = Some n" for a n
      by (rule vm.entries_add [OF inv fresh _ _ that]) (use old m True in \<open>auto simp: small_def\<close>)
    then show ?thesis using True t' vm.add_inv [OF inv fresh] by (simp add: vm_live_def)
  next
    case False
    then show ?thesis using t' live old by (simp add: vm_live_def)
  qed
qed

lemma vm_live_munmap:
  assumes pm: "posix_mappings sys_mmap sys_munmap mapped" and live: "vm_live mapped (t, k)"
    and ok: "disciplined t (Munmap addr len)"
    and call: "machgate_darwin_munmap sys_munmap addr len (t, k) = (r, t', k')"
  shows "vm_live mapped (t', k')"
proof (cases "guest_vm_lookup addr t \<noteq> None \<and> len \<ge> PAGE_SIZE")
  case True
  then show ?thesis using call live by (simp add: machgate_darwin_munmap_def)
next
  case False
  have inv: "vm_inv t" using live by (simp add: vm_live_def)
  obtain res err where one: "munmap_retry 8 sys_munmap addr len k = ((res, err), k')"
    using call False by (auto simp: machgate_darwin_munmap_def Let_def split: prod.splits if_splits)
  note m = munmap_retry_mapped [OF pm one]
  have t': "t' = (if res \<ge> 0 \<and> vm_contents t addr \<noteq> None then guest_vm_forget addr t else t)"
    using call False one vm.lookup_contents [OF inv]
    by (auto simp: machgate_darwin_munmap_def Let_def split: if_splits)
  have apart: "\<not> in_range addr (pages_length len) a" if "vm_contents t a = Some n" "a \<noteq> addr" for a n
    using vm_contents_member [OF that(1)] ok that(2) by (auto simp: list_all_iff)
  have "mapped k' a \<and> 0 < n \<and> n < PAGE_SIZE" if "vm_contents t' a = Some n" for a n
  proof -
    have "vm_contents t a = Some n \<and> (res \<ge> 0 \<longrightarrow> a \<noteq> addr)"
      using that t' vm.entries_forget [OF inv] by (cases "vm_contents t addr") (auto split: if_splits)
    then show ?thesis using live m apart by (auto simp: vm_live_def split: if_splits)
  qed
  then show ?thesis using t' inv vm.forget_inv by (simp add: vm_live_def)
qed

lemma vm_reachable_live:
  assumes "posix_mappings sys_mmap sys_munmap mapped" and "vm_reachable sys_mmap sys_munmap k0 w"
  shows "vm_live mapped w"
  using assms(2)
proof induction
  case start
  then show ?case by (simp add: vm_live_def vm_init)
next
  case (call w c r w')
  obtain t k t' k' where "w = (t, k)" "w' = (t', k')" by (metis prod.exhaust)
  then show ?case using call assms(1)
    by (cases c) (auto intro: vm_live_mmap vm_live_munmap simp del: disciplined.simps(2))
qed


text \<open>A kernel with one page to give out.\<close>

definition one_page_mmap :: "bool sys_mmap" where
  "one_page_mmap addr len prot flags fd off k =
     (if addr = 0 \<and> flags AND MAP_FIXED = 0 \<and> \<not> k then ((0x10000, 0), True) else ((-1, ENOMEM), k))"

definition one_page_munmap :: "bool sys_munmap" where
  "one_page_munmap addr len k =
     (if addr = 0x10000 \<and> 0 < len \<and> len \<le> 4096 then ((0, 0), False) else ((-1, EINVAL), k))"

definition one_page_mapped :: "bool \<Rightarrow> u64 \<Rightarrow> bool" where
  "one_page_mapped k x \<longleftrightarrow> k \<and> in_range 0x10000 4096 x"

lemma pages_length_one: "0 < len \<Longrightarrow> len \<le> 4096 \<Longrightarrow> pages_length len = 4096"
proof -
  assume "0 < len" "len \<le> 4096"
  then have "0 < unat len" "unat len \<le> 4096" by unat_arith+
  then have "(unat len + 4095) div 4096 = 1" by (intro div_nat_eqI) simp_all
  then show ?thesis by (simp add: pages_length_def)
qed

lemma one_page_posix: "posix_mappings one_page_mmap one_page_munmap one_page_mapped"
  unfolding posix_mappings_def
  by (auto simp: one_page_mmap_def one_page_munmap_def one_page_mapped_def in_range_def pages_length_one fun_eq_iff
      split: if_splits)

lemma one_page_reachable:
  "vm_reachable one_page_mmap one_page_munmap False
     (guest_vm_track_add 0x10000 100 guest_vm_table_init, True)"
proof -
  let ?c = "Mmap 0 100 3 (MAP_ANONYMOUS OR 2) 0 0"
  have r: "vm_run one_page_mmap one_page_munmap ?c (guest_vm_table_init, False) =
      ((0x10000, 0), guest_vm_track_add 0x10000 100 guest_vm_table_init, True)"
    by (simp add: machgate_darwin_mmap_def one_page_mmap_def)
  have d: "disciplined (fst (guest_vm_table_init, False)) ?c" by simp
  show ?thesis by (rule vm_reachable.call [OF vm_reachable.start d r])
qed


text \<open>
  The specification: a partial map from the addresses of small mappings to their sizes, to which a
  successful small mapping adds and from which a successful unmapping removes.
\<close>

fun vm_spec :: "vm_call \<Rightarrow> int \<Rightarrow> bool \<Rightarrow> (u64 \<Rightarrow> u64 option) \<Rightarrow> u64 \<Rightarrow> u64 option" where
  "vm_spec (Mmap addr len prot flags fd off) result room small =
     (if room \<and> result \<ge> 0 \<and> addr = 0 \<and> 0 < len \<and> len < PAGE_SIZE \<and> flags AND MAP_ANONYMOUS \<noteq> 0
      then small(word_of_int result \<mapsto> len) else small)"
| "vm_spec (Munmap addr len) result room small = (if result \<ge> 0 then small(addr := None) else small)"

lemma vm_mmap_spec:
  assumes pm: "posix_mappings sys_mmap sys_munmap mapped" and live: "vm_live mapped (t, k)"
    and ok: "addr \<noteq> 0 \<or> flags AND MAP_FIXED = 0"
    and call: "machgate_darwin_mmap sys_mmap addr len prot flags fd off (t, k) = ((r, e), t', k')"
  shows "vm_contents t' = vm_spec (Mmap addr len prot flags fd off) r (vm_room t) (vm_contents t)"
proof -
  have one: "sys_mmap addr len prot flags fd off k = ((r, e), k')"
    using call by (auto simp: machgate_darwin_mmap_def split: prod.splits)
  have m: "r \<ge> 0 \<and> addr = 0 \<and> flags AND MAP_FIXED = 0 \<longrightarrow> \<not> mapped k (word_of_int r)"
    using pm one unfolding posix_mappings_def by (metis linorder_not_less)
  have t': "t' = (if r \<ge> 0 \<and> addr = 0 \<and> 0 < len \<and> len < PAGE_SIZE \<and> flags AND MAP_ANONYMOUS \<noteq> 0
      then guest_vm_track_add (word_of_int r) len t else t)"
    using call one by (auto simp: machgate_darwin_mmap_def)
  have "r \<ge> 0 \<and> addr = 0 \<Longrightarrow> vm_contents t (word_of_int r) = None"
    using m ok live by (cases "vm_contents t (word_of_int r)") (auto simp: vm_live_def)
  then show ?thesis using t' live by (auto simp: vm_live_def vm.add_cases)
qed

lemma vm_munmap_spec:
  assumes inv: "vm_inv t"
    and call: "machgate_darwin_munmap sys_munmap addr len (t, k) = ((r, e), t', k')"
  shows "vm_contents t' = vm_spec (Munmap addr len) r (vm_room t) (vm_contents t)"
    and "vm_contents t addr \<noteq> None \<Longrightarrow> len \<ge> PAGE_SIZE \<Longrightarrow> r = -1 \<and> e = EINVAL \<and> k' = k"
proof -
  show "vm_contents t' = vm_spec (Munmap addr len) r (vm_room t) (vm_contents t)"
    using call vm.lookup_contents [OF inv] vm.forget_contents [OF inv]
    by (auto simp: machgate_darwin_munmap_def Let_def fun_upd_idem split: if_splits prod.splits)
  show "vm_contents t addr \<noteq> None \<Longrightarrow> len \<ge> PAGE_SIZE \<Longrightarrow> r = -1 \<and> e = EINVAL \<and> k' = k"
    using call vm.lookup_contents [OF inv] by (auto simp: machgate_darwin_munmap_def Let_def)
qed

text \<open>
  C16.  Every disciplined call changes the table as the specification changes the map, and unmapping a
  page or more at the address of a small mapping fails with \<open>EINVAL\<close> without a call of the kernel.
\<close>

theorem vm_calls_refine:
  assumes "posix_mappings sys_mmap sys_munmap mapped" and "vm_reachable sys_mmap sys_munmap k0 (t, k)"
    and "disciplined t c" and "vm_run sys_mmap sys_munmap c (t, k) = ((r, e), t', k')"
  shows "vm_contents t' = vm_spec c r (vm_room t) (vm_contents t) \<and>
    (\<forall>addr len. c = Munmap addr len \<and> vm_contents t addr \<noteq> None \<and> len \<ge> PAGE_SIZE \<longrightarrow>
      r = -1 \<and> e = EINVAL \<and> k' = k)"
proof -
  have live: "vm_live mapped (t, k)" using vm_reachable_live [OF assms(1,2)] .
  then have inv: "vm_inv t" by (simp add: vm_live_def)
  show ?thesis
  proof (cases c)
    case (Mmap addr len prot flags fd off)
    then show ?thesis using vm_mmap_spec [OF assms(1) live, of addr flags len prot fd off r e t' k'] assms(3,4) by simp
  next
    case (Munmap addr len)
    then have "machgate_darwin_munmap sys_munmap addr len (t, k) = ((r, e), t', k')" using assms(4) by simp
    from vm_munmap_spec [OF inv this] show ?thesis using Munmap by simp
  qed
qed

theorem vm_calls_refine_witness:
  "fst (vm_run one_page_mmap one_page_munmap (Munmap 0x10000 0x4000)
      (guest_vm_track_add 0x10000 100 guest_vm_table_init, True)) = (-1, EINVAL)"
proof -
  let ?t = "guest_vm_track_add 0x10000 100 guest_vm_table_init"
  obtain r e t' k' where run: "vm_run one_page_mmap one_page_munmap (Munmap 0x10000 0x4000) (?t, True) = ((r, e), t', k')"
    by (metis prod.exhaust)
  have "vm_contents ?t 0x10000 \<noteq> None" by code_simp
  moreover have "disciplined ?t (Munmap 0x10000 0x4000)" by code_simp
  ultimately have "r = -1 \<and> e = EINVAL"
    using vm_calls_refine [OF one_page_posix one_page_reachable _ run] by simp
  then show ?thesis using run by simp
qed

text \<open>
  Outside the discipline the table goes stale: unmapping from a lower address removes the mapping but
  not its entry, and a later large mapping at that address cannot be unmapped.
\<close>

lemma undisciplined_munmap_stale:
  assumes "guest_vm_lookup a t = Some n" and "guest_vm_lookup (a - 4096) t = None"
    and "sys_munmap (a - 4096) 0x2000 k = ((0, 0), k')"
  shows "snd (machgate_darwin_munmap sys_munmap (a - 4096) 0x2000 (t, k)) = (t, k')"
    and "len \<ge> PAGE_SIZE \<Longrightarrow> fst (machgate_darwin_munmap sys_munmap a len (t, k'')) = (-1, EINVAL)"
  using assms by (simp_all add: machgate_darwin_munmap_def munmap_retry.simps)

end
