(* ===== verification/Darwin_Flags.thy ===== *)
theory Darwin_Flags
  imports Prelude
begin

text \<open>
  Flag words of \<open>syscall_range_000_099.c\<close> and its siblings: a Darwin flag word is translated bit
  by bit.  The numbers on the Linux side are those of the aarch64 headers.
\<close>

section \<open>Translating flag by flag\<close>

text \<open>
  \<open>for (pair) if (flags & pair->darwin) result |= pair->linux_value\<close>, and the chains of single
  \<open>if\<close> statements of the same form.
\<close>

definition translate_bits :: "(u32 \<times> u32) list \<Rightarrow> u32 \<Rightarrow> u32 \<Rightarrow> u32" where
  "translate_bits pairs flags result =
     fold (\<lambda>(from, to) r. if flags AND from \<noteq> 0 then r OR to else r) pairs result"

lemma bit_translate_bits:
  "bit (translate_bits pairs flags result) n \<longleftrightarrow>
     bit result n \<or> (\<exists>(from, to) \<in> set pairs. flags AND from \<noteq> 0 \<and> bit to n)"
  unfolding translate_bits_def
proof (induction pairs arbitrary: result)
  case (Cons p pairs)
  then show ?case by (cases p) (auto simp: bit_or_iff)
qed simp

text \<open>Tests of a single flag.\<close>

lemma flag_bit: "flags AND 2 ^ k \<noteq> 0 \<longleftrightarrow> bit (flags :: u32) k"
  by (simp add: and_exp_eq_0_iff_not_bit)

lemmas flag_bits [simplified] =
  flag_bit [where k = 0] flag_bit [where k = 1] flag_bit [where k = 2] flag_bit [where k = 3]
  flag_bit [where k = 4] flag_bit [where k = 5] flag_bit [where k = 6] flag_bit [where k = 7]
  flag_bit [where k = 8] flag_bit [where k = 9] flag_bit [where k = 10] flag_bit [where k = 11]
  flag_bit [where k = 12] flag_bit [where k = 13] flag_bit [where k = 14] flag_bit [where k = 15]
  flag_bit [where k = 16] flag_bit [where k = 17] flag_bit [where k = 18] flag_bit [where k = 19]
  flag_bit [where k = 20] flag_bit [where k = 21] flag_bit [where k = 22] flag_bit [where k = 23]
  flag_bit [where k = 24] flag_bit [where k = 25] flag_bit [where k = 26] flag_bit [where k = 27]
  flag_bit [where k = 28] flag_bit [where k = 29] flag_bit [where k = 30] flag_bit [where k = 31]

section \<open>open(2)\<close>

abbreviation (input) O_ACCMODE :: u32 where "O_ACCMODE \<equiv> 3"
abbreviation (input) O_CREAT :: u32 where "O_CREAT \<equiv> 0x40"
abbreviation (input) O_EXCL :: u32 where "O_EXCL \<equiv> 0x80"
abbreviation (input) O_NOCTTY :: u32 where "O_NOCTTY \<equiv> 0x100"
abbreviation (input) O_TRUNC :: u32 where "O_TRUNC \<equiv> 0x200"
abbreviation (input) O_APPEND :: u32 where "O_APPEND \<equiv> 0x400"
abbreviation (input) O_NONBLOCK :: u32 where "O_NONBLOCK \<equiv> 0x800"
abbreviation (input) O_DSYNC :: u32 where "O_DSYNC \<equiv> 0x1000"
abbreviation (input) O_ASYNC :: u32 where "O_ASYNC \<equiv> 0x2000"
abbreviation (input) O_DIRECTORY :: u32 where "O_DIRECTORY \<equiv> 0x4000"
abbreviation (input) O_NOFOLLOW :: u32 where "O_NOFOLLOW \<equiv> 0x8000"
abbreviation (input) O_CLOEXEC :: u32 where "O_CLOEXEC \<equiv> 0x80000"
abbreviation (input) O_PATH :: u32 where "O_PATH \<equiv> 0x200000"

abbreviation (input) DARWIN_O_NONBLOCK :: u32 where "DARWIN_O_NONBLOCK \<equiv> 0x00000004"
abbreviation (input) DARWIN_O_APPEND :: u32 where "DARWIN_O_APPEND \<equiv> 0x00000008"
abbreviation (input) DARWIN_O_ASYNC :: u32 where "DARWIN_O_ASYNC \<equiv> 0x00000040"
abbreviation (input) DARWIN_O_NOFOLLOW :: u32 where "DARWIN_O_NOFOLLOW \<equiv> 0x00000100"
abbreviation (input) DARWIN_O_CREAT :: u32 where "DARWIN_O_CREAT \<equiv> 0x00000200"
abbreviation (input) DARWIN_O_TRUNC :: u32 where "DARWIN_O_TRUNC \<equiv> 0x00000400"
abbreviation (input) DARWIN_O_EXCL :: u32 where "DARWIN_O_EXCL \<equiv> 0x00000800"
abbreviation (input) DARWIN_O_NOCTTY :: u32 where "DARWIN_O_NOCTTY \<equiv> 0x00020000"
abbreviation (input) DARWIN_O_DIRECTORY :: u32 where "DARWIN_O_DIRECTORY \<equiv> 0x00100000"
abbreviation (input) DARWIN_O_SYMLINK :: u32 where "DARWIN_O_SYMLINK \<equiv> 0x00200000"
abbreviation (input) DARWIN_O_DSYNC :: u32 where "DARWIN_O_DSYNC \<equiv> 0x00400000"
abbreviation (input) DARWIN_O_CLOEXEC :: u32 where "DARWIN_O_CLOEXEC \<equiv> 0x01000000"

definition open_flag_pairs :: "(u32 \<times> u32) list" where
  "open_flag_pairs =
     [(DARWIN_O_NONBLOCK, O_NONBLOCK), (DARWIN_O_APPEND, O_APPEND), (DARWIN_O_ASYNC, O_ASYNC),
      (DARWIN_O_NOFOLLOW, O_NOFOLLOW), (DARWIN_O_CREAT, O_CREAT), (DARWIN_O_TRUNC, O_TRUNC),
      (DARWIN_O_EXCL, O_EXCL), (DARWIN_O_NOCTTY, O_NOCTTY), (DARWIN_O_DIRECTORY, O_DIRECTORY),
      (DARWIN_O_DSYNC, O_DSYNC), (DARWIN_O_CLOEXEC, O_CLOEXEC)]"

definition translate_open_flags_to_linux :: "u32 \<Rightarrow> u32" where
  "translate_open_flags_to_linux darwin_flags =
     translate_bits open_flag_pairs darwin_flags (darwin_flags AND O_ACCMODE)"

definition translate_open_flags_to_darwin :: "u32 \<Rightarrow> u32" where
  "translate_open_flags_to_darwin linux_flags =
     translate_bits (map (\<lambda>(darwin, linux_value). (linux_value, darwin)) open_flag_pairs)
       linux_flags (linux_flags AND O_ACCMODE)"

text \<open>The copy in \<open>syscall_gate.c\<close>, and the ones of system calls 400 and up.\<close>

definition translate_open_flags_gate :: "u32 \<Rightarrow> u32" where
  "translate_open_flags_gate darwin_flags =
     translate_bits
       [(DARWIN_O_NONBLOCK, O_NONBLOCK), (DARWIN_O_APPEND, O_APPEND), (DARWIN_O_NOFOLLOW, O_NOFOLLOW),
        (DARWIN_O_CREAT, O_CREAT), (DARWIN_O_TRUNC, O_TRUNC), (DARWIN_O_EXCL, O_EXCL),
        (DARWIN_O_NOCTTY, O_NOCTTY), (DARWIN_O_DIRECTORY, O_DIRECTORY), (DARWIN_O_CLOEXEC, O_CLOEXEC)]
       darwin_flags (darwin_flags AND O_ACCMODE)"

definition translate_open_flags_400 :: "u32 \<Rightarrow> u32" where
  "translate_open_flags_400 darwin_flags =
     translate_bits
       [(DARWIN_O_NONBLOCK, O_NONBLOCK), (DARWIN_O_APPEND, O_APPEND), (DARWIN_O_NOFOLLOW, O_NOFOLLOW),
        (DARWIN_O_CREAT, O_CREAT), (DARWIN_O_TRUNC, O_TRUNC), (DARWIN_O_EXCL, O_EXCL),
        (DARWIN_O_NOCTTY, O_NOCTTY), (DARWIN_O_DIRECTORY, O_DIRECTORY), (DARWIN_O_DSYNC, O_DSYNC),
        (DARWIN_O_CLOEXEC, O_CLOEXEC), (DARWIN_O_SYMLINK, O_PATH OR O_NOFOLLOW)]
       darwin_flags (darwin_flags AND O_ACCMODE)"

definition translate_open_flags_to_darwin_400 :: "u32 \<Rightarrow> u32" where
  "translate_open_flags_to_darwin_400 linux_flags =
     translate_bits
       [(O_NONBLOCK, DARWIN_O_NONBLOCK), (O_APPEND, DARWIN_O_APPEND), (O_NOFOLLOW, DARWIN_O_NOFOLLOW),
        (O_CREAT, DARWIN_O_CREAT), (O_TRUNC, DARWIN_O_TRUNC), (O_EXCL, DARWIN_O_EXCL),
        (O_NOCTTY, DARWIN_O_NOCTTY), (O_DIRECTORY, DARWIN_O_DIRECTORY), (O_DSYNC, DARWIN_O_DSYNC),
        (O_CLOEXEC, DARWIN_O_CLOEXEC)]
       linux_flags (linux_flags AND O_ACCMODE)"

text \<open>The Darwin flags that have a Linux counterpart.\<close>

definition darwin_open_mask :: u32 where
  "darwin_open_mask = fold (\<lambda>(d, l) m. m OR d) open_flag_pairs O_ACCMODE"


end
