(* ===== verification/Darwin_Signals.thy ===== *)
theory Darwin_Signals
  imports Gate_State Darwin_Flags
begin

text \<open>
  Signals of \<open>syscall_range_000_099.c\<close>: numbers, sets, actions, wait status, and the handlers of
  \<open>kill\<close>, \<open>sigprocmask\<close> and \<open>sigpending\<close>.  A Linux signal set is a 64-bit word, signal
  \<open>n\<close> at bit \<open>n - 1\<close>.
\<close>

section \<open>Signal numbers\<close>

abbreviation (input) SIGHUP :: int where "SIGHUP \<equiv> 1"
abbreviation (input) SIGINT :: int where "SIGINT \<equiv> 2"
abbreviation (input) SIGQUIT :: int where "SIGQUIT \<equiv> 3"
abbreviation (input) SIGILL :: int where "SIGILL \<equiv> 4"
abbreviation (input) SIGTRAP :: int where "SIGTRAP \<equiv> 5"
abbreviation (input) SIGABRT :: int where "SIGABRT \<equiv> 6"
abbreviation (input) SIGBUS :: int where "SIGBUS \<equiv> 7"
abbreviation (input) SIGFPE :: int where "SIGFPE \<equiv> 8"
abbreviation (input) SIGKILL :: int where "SIGKILL \<equiv> 9"
abbreviation (input) SIGUSR1 :: int where "SIGUSR1 \<equiv> 10"
abbreviation (input) SIGSEGV :: int where "SIGSEGV \<equiv> 11"
abbreviation (input) SIGUSR2 :: int where "SIGUSR2 \<equiv> 12"
abbreviation (input) SIGPIPE :: int where "SIGPIPE \<equiv> 13"
abbreviation (input) SIGALRM :: int where "SIGALRM \<equiv> 14"
abbreviation (input) SIGTERM :: int where "SIGTERM \<equiv> 15"
abbreviation (input) SIGCHLD :: int where "SIGCHLD \<equiv> 17"
abbreviation (input) SIGCONT :: int where "SIGCONT \<equiv> 18"
abbreviation (input) SIGSTOP :: int where "SIGSTOP \<equiv> 19"
abbreviation (input) SIGTSTP :: int where "SIGTSTP \<equiv> 20"
abbreviation (input) SIGTTIN :: int where "SIGTTIN \<equiv> 21"
abbreviation (input) SIGTTOU :: int where "SIGTTOU \<equiv> 22"
abbreviation (input) SIGURG :: int where "SIGURG \<equiv> 23"
abbreviation (input) SIGXCPU :: int where "SIGXCPU \<equiv> 24"
abbreviation (input) SIGXFSZ :: int where "SIGXFSZ \<equiv> 25"
abbreviation (input) SIGVTALRM :: int where "SIGVTALRM \<equiv> 26"
abbreviation (input) SIGPROF :: int where "SIGPROF \<equiv> 27"
abbreviation (input) SIGWINCH :: int where "SIGWINCH \<equiv> 28"
abbreviation (input) SIGIO :: int where "SIGIO \<equiv> 29"
abbreviation (input) SIGSYS :: int where "SIGSYS \<equiv> 31"

definition darwin_signal_table :: "(int \<times> int) list" where
  "darwin_signal_table =
     [(0, 0), (1, SIGHUP), (2, SIGINT), (3, SIGQUIT), (4, SIGILL), (5, SIGTRAP), (6, SIGABRT),
      (8, SIGFPE), (9, SIGKILL), (10, SIGBUS), (11, SIGSEGV), (12, SIGSYS), (13, SIGPIPE),
      (14, SIGALRM), (15, SIGTERM), (16, SIGURG), (17, SIGSTOP), (18, SIGTSTP), (19, SIGCONT),
      (20, SIGCHLD), (21, SIGTTIN), (22, SIGTTOU), (23, SIGIO), (24, SIGXCPU), (25, SIGXFSZ),
      (26, SIGVTALRM), (27, SIGPROF), (28, SIGWINCH), (30, SIGUSR1), (31, SIGUSR2)]"

definition darwin_signal_to_linux :: "int \<Rightarrow> int" where
  "darwin_signal_to_linux darwin_signal =
     (case map_of darwin_signal_table darwin_signal of Some s \<Rightarrow> s | None \<Rightarrow> -1)"

definition linux_signal_table :: "(int \<times> int) list" where
  "linux_signal_table =
     [(SIGHUP, 1), (SIGINT, 2), (SIGQUIT, 3), (SIGILL, 4), (SIGTRAP, 5), (SIGABRT, 6), (SIGFPE, 8),
      (SIGKILL, 9), (SIGBUS, 10), (SIGSEGV, 11), (SIGSYS, 12), (SIGPIPE, 13), (SIGALRM, 14),
      (SIGTERM, 15), (SIGURG, 16), (SIGSTOP, 17), (SIGTSTP, 18), (SIGCONT, 19), (SIGCHLD, 20),
      (SIGTTIN, 21), (SIGTTOU, 22), (SIGIO, 23), (SIGXCPU, 24), (SIGXFSZ, 25), (SIGVTALRM, 26),
      (SIGPROF, 27), (SIGWINCH, 28), (SIGUSR1, 30), (SIGUSR2, 31)]"

definition linux_signal_to_darwin :: "int \<Rightarrow> int" where
  "linux_signal_to_darwin linux_signal =
     (case map_of linux_signal_table linux_signal of Some s \<Rightarrow> s | None \<Rightarrow> 0)"

section \<open>Wait options and status\<close>

abbreviation (input) WNOHANG :: u32 where "WNOHANG \<equiv> 1"
abbreviation (input) WUNTRACED :: u32 where "WUNTRACED \<equiv> 2"
abbreviation (input) WCONTINUED :: u32 where "WCONTINUED \<equiv> 8"

definition darwin_wait_options_to_linux :: "u32 \<Rightarrow> u32 option" where
  "darwin_wait_options_to_linux darwin_options =
     (let supported = WNOHANG OR WUNTRACED OR 0x10
      in if darwin_options AND NOT supported \<noteq> 0 then None
         else Some (translate_bits [(WNOHANG, WNOHANG), (WUNTRACED, WUNTRACED), (0x10, WCONTINUED)]
                      darwin_options 0))"

definition WTERMSIG :: "u32 \<Rightarrow> u32" where "WTERMSIG status = status AND 0x7F"

definition WIFSIGNALED :: "u32 \<Rightarrow> bool" where
  "WIFSIGNALED status \<longleftrightarrow> WTERMSIG status \<noteq> 0 \<and> WTERMSIG status \<noteq> 0x7F"

definition WIFSTOPPED :: "u32 \<Rightarrow> bool" where "WIFSTOPPED status \<longleftrightarrow> status AND 0xFF = 0x7F"

definition WSTOPSIG :: "u32 \<Rightarrow> u32" where "WSTOPSIG status = drop_bit 8 (status AND 0xFF00)"

definition linux_wait_status_to_darwin :: "u32 \<Rightarrow> u32" where
  "linux_wait_status_to_darwin linux_status =
     (if WIFSIGNALED linux_status then
        let darwin_signal = word_of_int (linux_signal_to_darwin (uint (WTERMSIG linux_status)))
        in (linux_status AND NOT 0x7F) OR (darwin_signal AND 0x7F)
      else if WIFSTOPPED linux_status then
        let darwin_signal = word_of_int (linux_signal_to_darwin (uint (WSTOPSIG linux_status)))
        in (linux_status AND NOT 0xFF00) OR push_bit 8 (darwin_signal AND 0xFF)
      else linux_status)"

section \<open>Signal sets\<close>

fun darwin_sigset_from :: "int list \<Rightarrow> u32 \<Rightarrow> u64 \<Rightarrow> u64 option" where
  "darwin_sigset_from [] darwin_set linux_set = Some linux_set"
| "darwin_sigset_from (darwin_signal # rest) darwin_set linux_set =
     (if darwin_set AND push_bit (nat (darwin_signal - 1)) 1 = 0
      then darwin_sigset_from rest darwin_set linux_set
      else let linux_signal = darwin_signal_to_linux darwin_signal
           in if linux_signal \<le> 0 then None
              else darwin_sigset_from rest darwin_set
                     (linux_set OR push_bit (nat (linux_signal - 1)) 1))"

definition darwin_sigset_to_linux :: "u32 \<Rightarrow> u64 option" where
  "darwin_sigset_to_linux darwin_set = darwin_sigset_from [1..31] darwin_set 0"

abbreviation (input) NSIG :: int where "NSIG \<equiv> 65"

definition linux_sigset_to_darwin :: "u64 \<Rightarrow> u32" where
  "linux_sigset_to_darwin linux_set =
     fold (\<lambda>linux_signal result.
         if \<not> bit linux_set (nat (linux_signal - 1)) then result
         else let darwin_signal = linux_signal_to_darwin linux_signal
              in if darwin_signal > 0 then result OR push_bit (nat (darwin_signal - 1)) 1 else result)
       [1..NSIG - 1] 0"

section \<open>Actions\<close>

abbreviation (input) DARWIN_SA_ONSTACK :: u32 where "DARWIN_SA_ONSTACK \<equiv> 0x0001"
abbreviation (input) DARWIN_SA_RESTART :: u32 where "DARWIN_SA_RESTART \<equiv> 0x0002"
abbreviation (input) DARWIN_SA_RESETHAND :: u32 where "DARWIN_SA_RESETHAND \<equiv> 0x0004"
abbreviation (input) DARWIN_SA_NOCLDSTOP :: u32 where "DARWIN_SA_NOCLDSTOP \<equiv> 0x0008"
abbreviation (input) DARWIN_SA_NODEFER :: u32 where "DARWIN_SA_NODEFER \<equiv> 0x0010"
abbreviation (input) DARWIN_SA_NOCLDWAIT :: u32 where "DARWIN_SA_NOCLDWAIT \<equiv> 0x0020"
abbreviation (input) DARWIN_SA_SIGINFO :: u32 where "DARWIN_SA_SIGINFO \<equiv> 0x0040"
abbreviation (input) SA_NOCLDSTOP :: u32 where "SA_NOCLDSTOP \<equiv> 0x1"
abbreviation (input) SA_NOCLDWAIT :: u32 where "SA_NOCLDWAIT \<equiv> 0x2"
abbreviation (input) SA_SIGINFO :: u32 where "SA_SIGINFO \<equiv> 0x4"
abbreviation (input) LINUX_SA_RESTORER :: u32 where "LINUX_SA_RESTORER \<equiv> 0x04000000"
abbreviation (input) SA_ONSTACK :: u32 where "SA_ONSTACK \<equiv> 0x08000000"
abbreviation (input) SA_RESTART :: u32 where "SA_RESTART \<equiv> 0x10000000"
abbreviation (input) SA_NODEFER :: u32 where "SA_NODEFER \<equiv> 0x40000000"
abbreviation (input) SA_RESETHAND :: u32 where "SA_RESETHAND \<equiv> 0x80000000"

definition DARWIN_SA_USERSPACE_MASK :: u32 where
  "DARWIN_SA_USERSPACE_MASK =
     DARWIN_SA_ONSTACK OR DARWIN_SA_RESTART OR DARWIN_SA_RESETHAND OR DARWIN_SA_NOCLDSTOP OR
     DARWIN_SA_NODEFER OR DARWIN_SA_NOCLDWAIT OR DARWIN_SA_SIGINFO"

definition darwin_sigaction_flags_to_linux :: "u32 \<Rightarrow> u32 option" where
  "darwin_sigaction_flags_to_linux darwin_flags =
     (if darwin_flags AND NOT DARWIN_SA_USERSPACE_MASK \<noteq> 0 then None
      else Some (translate_bits
        [(DARWIN_SA_ONSTACK, SA_ONSTACK), (DARWIN_SA_RESTART, SA_RESTART),
         (DARWIN_SA_RESETHAND, SA_RESETHAND), (DARWIN_SA_NOCLDSTOP, SA_NOCLDSTOP),
         (DARWIN_SA_NODEFER, SA_NODEFER), (DARWIN_SA_NOCLDWAIT, SA_NOCLDWAIT),
         (DARWIN_SA_SIGINFO, SA_SIGINFO)] darwin_flags 0))"

definition linux_sigaction_flags_to_darwin :: "u32 \<Rightarrow> u32 option" where
  "linux_sigaction_flags_to_darwin linux_flags =
     (let supported_flags = SA_ONSTACK OR SA_RESTART OR SA_RESETHAND OR SA_NOCLDSTOP OR SA_NODEFER OR
            SA_NOCLDWAIT OR SA_SIGINFO OR LINUX_SA_RESTORER
      in if linux_flags AND NOT supported_flags \<noteq> 0 then None
         else Some (translate_bits
           [(SA_ONSTACK, DARWIN_SA_ONSTACK), (SA_RESTART, DARWIN_SA_RESTART),
            (SA_RESETHAND, DARWIN_SA_RESETHAND), (SA_NOCLDSTOP, DARWIN_SA_NOCLDSTOP),
            (SA_NODEFER, DARWIN_SA_NODEFER), (SA_NOCLDWAIT, DARWIN_SA_NOCLDWAIT),
            (SA_SIGINFO, DARWIN_SA_SIGINFO)] linux_flags 0))"

record darwin_sigaction =
  da_handler :: u64
  da_mask :: u32
  da_flags :: u32

record linux_sigaction =
  la_handler :: u64
  la_mask :: u64
  la_flags :: u32

abbreviation (input) SIG_DFL :: u64 where "SIG_DFL \<equiv> 0"
abbreviation (input) SIG_IGN :: u64 where "SIG_IGN \<equiv> 1"
abbreviation (input) DARWIN_SIG_DFL :: u64 where "DARWIN_SIG_DFL \<equiv> 0"
abbreviation (input) DARWIN_SIG_IGN :: u64 where "DARWIN_SIG_IGN \<equiv> 1"

definition darwin_sigaction_to_linux :: "darwin_sigaction \<Rightarrow> linux_sigaction option" where
  "darwin_sigaction_to_linux darwin_action =
     (if da_handler darwin_action > DARWIN_SIG_IGN then None
      else case darwin_sigaction_flags_to_linux (da_flags darwin_action) of
        None \<Rightarrow> None
      | Some linux_flags \<Rightarrow>
        (case darwin_sigset_to_linux (da_mask darwin_action) of
           None \<Rightarrow> None
         | Some linux_mask \<Rightarrow>
           Some \<lparr>la_handler = (if da_handler darwin_action = DARWIN_SIG_IGN then SIG_IGN else SIG_DFL),
                 la_mask = linux_mask, la_flags = linux_flags\<rparr>))"

definition linux_sigaction_to_darwin :: "linux_sigaction \<Rightarrow> darwin_sigaction option" where
  "linux_sigaction_to_darwin linux_action =
     (if la_handler linux_action \<noteq> SIG_IGN \<and> la_handler linux_action \<noteq> SIG_DFL then None
      else case linux_sigaction_flags_to_darwin (la_flags linux_action) of
        None \<Rightarrow> None
      | Some darwin_flags \<Rightarrow>
        Some \<lparr>da_handler = (if la_handler linux_action = SIG_IGN then DARWIN_SIG_IGN else DARWIN_SIG_DFL),
              da_mask = linux_sigset_to_darwin (la_mask linux_action), da_flags = darwin_flags\<rparr>)"

section \<open>Round trips\<close>

lemma signal_tables:
  "list_all (\<lambda>(d, l). l \<le> 0 \<or> linux_signal_to_darwin l = d \<and> l \<le> 31) darwin_signal_table"
  "list_all (\<lambda>(l, d). 0 < d \<and> d \<le> 31 \<and> darwin_signal_to_linux d = l) linux_signal_table"
  "list_all (\<lambda>d. darwin_signal_to_linux d > 0 \<or> d = 7 \<or> d = 29) [1..31]"
  by code_simp+

lemma signal_back:
  assumes "darwin_signal_to_linux d > 0"
  shows "linux_signal_to_darwin (darwin_signal_to_linux d) = d" and "darwin_signal_to_linux d \<le> 31"
proof -
  obtain l where l: "map_of darwin_signal_table d = Some l" "darwin_signal_to_linux d = l"
    using assms by (auto simp: darwin_signal_to_linux_def split: option.splits)
  then have "(d, l) \<in> set darwin_signal_table" by (simp add: map_of_SomeD)
  then show "linux_signal_to_darwin (darwin_signal_to_linux d) = d" "darwin_signal_to_linux d \<le> 31"
    using signal_tables(1) assms l(2) by (auto simp: list_all_iff)
qed

lemma signal_forth:
  assumes "linux_signal_to_darwin l \<noteq> 0"
  shows "darwin_signal_to_linux (linux_signal_to_darwin l) = l" and "0 < linux_signal_to_darwin l"
    and "linux_signal_to_darwin l \<le> 31"
proof -
  obtain d where d: "map_of linux_signal_table l = Some d" "linux_signal_to_darwin l = d"
    using assms by (auto simp: linux_signal_to_darwin_def split: option.splits)
  then have "(l, d) \<in> set linux_signal_table" by (simp add: map_of_SomeD)
  then show "darwin_signal_to_linux (linux_signal_to_darwin l) = l" "0 < linux_signal_to_darwin l"
    "linux_signal_to_darwin l \<le> 31"
    using signal_tables(2) d(2) by (auto simp: list_all_iff)
qed

text \<open>
  C9.  The two signal number tables are inverse to each other where they are defined.
\<close>

theorem signal_round_trip:
  "(darwin_signal_to_linux d > 0 \<longrightarrow> linux_signal_to_darwin (darwin_signal_to_linux d) = d) \<and>
   (linux_signal_to_darwin l \<noteq> 0 \<longrightarrow> darwin_signal_to_linux (linux_signal_to_darwin l) = l)"
  using signal_back signal_forth by blast

theorem signal_round_trip_witness:
  "linux_signal_to_darwin (darwin_signal_to_linux 10) = 10 \<and>
   darwin_signal_to_linux (linux_signal_to_darwin SIGCHLD) = SIGCHLD"
proof -
  have "darwin_signal_to_linux 10 > 0" and "linux_signal_to_darwin SIGCHLD \<noteq> 0" by code_simp+
  then show ?thesis using signal_round_trip [of 10 SIGCHLD] by blast
qed

lemma sigset_from_None:
  assumes "list_all (\<lambda>d. 1 \<le> d \<and> d \<le> 31) ds"
  shows "darwin_sigset_from ds s acc = None \<longleftrightarrow>
    (\<exists>d \<in> set ds. bit s (nat (d - 1)) \<and> darwin_signal_to_linux d \<le> 0)"
  using assms
proof (induction ds arbitrary: acc)
  case (Cons d ds)
  have "s AND push_bit (nat (d - 1)) 1 = 0 \<longleftrightarrow> \<not> bit s (nat (d - 1))"
    by (simp add: push_bit_of_1 and_exp_eq_0_iff_not_bit)
  then show ?case using Cons by (auto simp: Let_def)
qed simp

lemma sigset_from_bits:
  assumes "darwin_sigset_from ds s acc = Some l"
  shows "bit l n \<longleftrightarrow> bit acc n \<or>
    (\<exists>d \<in> set ds. bit s (nat (d - 1)) \<and> n = nat (darwin_signal_to_linux d - 1) \<and> n < 64)"
  using assms
proof (induction ds arbitrary: acc)
  case (Cons d ds)
  have "s AND push_bit (nat (d - 1)) 1 = 0 \<longleftrightarrow> \<not> bit s (nat (d - 1))"
    by (simp add: push_bit_of_1 and_exp_eq_0_iff_not_bit)
  then show ?case using Cons
    by (auto simp: Let_def bit_or_iff bit_exp_iff split: if_splits)
qed simp

lemma linux_sigset_bits_fold:
  "bit (fold (\<lambda>ls r. if \<not> bit l (nat (ls - 1)) then r
        else let ds = linux_signal_to_darwin ls
             in if ds > 0 then r OR push_bit (nat (ds - 1)) 1 else r) lss acc :: u32) k \<longleftrightarrow>
    bit acc k \<or> (\<exists>ls \<in> set lss. bit l (nat (ls - 1)) \<and> 0 < linux_signal_to_darwin ls \<and>
      k = nat (linux_signal_to_darwin ls - 1) \<and> k < 32)"
proof (induction lss arbitrary: acc)
  case (Cons ls lss)
  then show ?case
    by (auto simp: Let_def bit_or_iff bit_exp_iff)
qed simp

lemma no_linux_signal: "1 \<le> d \<Longrightarrow> d \<le> 31 \<Longrightarrow> darwin_signal_to_linux d \<le> 0 \<longleftrightarrow> d = 7 \<or> d = 29"
proof -
  assume d: "1 \<le> d" "d \<le> 31"
  have "\<forall>d \<in> {1..31}. darwin_signal_to_linux d > 0 \<or> d = 7 \<or> d = 29"
    using signal_tables(3) unfolding list_all_iff set_upto .
  then have "darwin_signal_to_linux d > 0 \<or> d = 7 \<or> d = 29" using d by (meson atLeastAtMost_iff)
  moreover have "darwin_signal_to_linux 7 \<le> 0" "darwin_signal_to_linux 29 \<le> 0" by code_simp+
  ultimately show ?thesis by fastforce
qed

lemma sigset_succeeds: "darwin_sigset_to_linux s = None \<longleftrightarrow> bit s 6 \<or> bit s 28"
proof -
  have "darwin_sigset_to_linux s = None \<longleftrightarrow>
      (\<exists>d \<in> {1..31}. bit s (nat (d - 1)) \<and> darwin_signal_to_linux d \<le> 0)"
    unfolding darwin_sigset_to_linux_def
    using sigset_from_None [of "[1..31]" s 0] unfolding list_all_iff set_upto
    by (meson atLeastAtMost_iff)
  also have "\<dots> \<longleftrightarrow> (\<exists>d \<in> {7, 29}. bit s (nat (d - 1)))"
  proof
    assume "\<exists>d \<in> {1..31}. bit s (nat (d - 1)) \<and> darwin_signal_to_linux d \<le> 0"
    then obtain d where d: "1 \<le> d" "d \<le> 31" "bit s (nat (d - 1))" "darwin_signal_to_linux d \<le> 0"
      by (meson atLeastAtMost_iff)
    then have "d \<in> {7, 29}" using no_linux_signal by simp
    then show "\<exists>d \<in> {7, 29}. bit s (nat (d - 1))" using d(3) by blast
  next
    assume "\<exists>d \<in> {7, 29}. bit s (nat (d - 1))"
    then obtain d where d: "d \<in> {7, 29}" "bit s (nat (d - 1))" by blast
    then have "1 \<le> d" "d \<le> 31" "darwin_signal_to_linux d \<le> 0" using no_linux_signal [of d] by auto
    then show "\<exists>d \<in> {1..31}. bit s (nat (d - 1)) \<and> darwin_signal_to_linux d \<le> 0"
      using d(2) by (intro bexI [of _ d]) simp_all
  qed
  finally show ?thesis by simp
qed

lemma sigset_to_linux_bits:
  assumes "darwin_sigset_to_linux s = Some l"
  shows "bit l n \<longleftrightarrow>
    (\<exists>d. 1 \<le> d \<and> d \<le> 31 \<and> bit s (nat (d - 1)) \<and> n = nat (darwin_signal_to_linux d - 1) \<and> n < 64)"
  using sigset_from_bits [OF assms [unfolded darwin_sigset_to_linux_def], of n]
  unfolding set_upto by (auto simp only: atLeastAtMost_iff bit_0_eq bot_apply bot_bool_def Bex_def)

lemma sigset_to_darwin_bits:
  "bit (linux_sigset_to_darwin l) k \<longleftrightarrow>
    (\<exists>ls. 1 \<le> ls \<and> ls \<le> 64 \<and> bit l (nat (ls - 1)) \<and> 0 < linux_signal_to_darwin ls \<and>
      k = nat (linux_signal_to_darwin ls - 1) \<and> k < 32)"
  unfolding linux_sigset_to_darwin_def linux_sigset_bits_fold set_upto
  by (auto simp: Bex_def)

lemma sigset_back:
  assumes "darwin_sigset_to_linux s = Some l"
  shows "linux_sigset_to_darwin l = take_bit 31 s"
proof (rule bit_word_eqI)
  fix k assume k: "k < LENGTH(32)"
  have ok: "0 < darwin_signal_to_linux d" if "1 \<le> d" "d \<le> 31" "bit s (nat (d - 1))" for d
  proof -
    have "\<not> bit s 6" "\<not> bit s 28" using assms sigset_succeeds [of s] by auto
    then have "d \<noteq> 7" "d \<noteq> 29" using that(3) by auto
    then show ?thesis using no_linux_signal [OF that(1,2)] by simp
  qed
  show "bit (linux_sigset_to_darwin l) k = bit (take_bit 31 s) k"
  proof
    assume "bit (linux_sigset_to_darwin l) k"
    then obtain ls where ls: "1 \<le> ls" "bit l (nat (ls - 1))" "k = nat (linux_signal_to_darwin ls - 1)"
      unfolding sigset_to_darwin_bits by blast
    then obtain d where d: "1 \<le> d" "d \<le> 31" "bit s (nat (d - 1))" "nat (ls - 1) = nat (darwin_signal_to_linux d - 1)"
      unfolding sigset_to_linux_bits [OF assms] by blast
    have "ls = darwin_signal_to_linux d" using d(4) ls(1) ok [OF d(1-3)] by linarith
    then have "k = nat (d - 1)" using ls(3) signal_back [OF ok [OF d(1-3)]] by simp
    then show "bit (take_bit 31 s) k" using d by (simp add: bit_take_bit_iff)
  next
    assume "bit (take_bit 31 s) k"
    then have d: "1 \<le> int k + 1" "int k + 1 \<le> 31" "bit s (nat (int k + 1 - 1))"
      by (simp_all add: bit_take_bit_iff)
    note o = ok [OF d] and b = signal_back [OF ok [OF d]]
    have "bit l (nat (darwin_signal_to_linux (int k + 1) - 1))"
      unfolding sigset_to_linux_bits [OF assms] using d b(2) by (intro exI [of _ "int k + 1"]) simp
    then show "bit (linux_sigset_to_darwin l) k"
      unfolding sigset_to_darwin_bits using o b k
      by (intro exI [of _ "darwin_signal_to_linux (int k + 1)"]) simp
  qed
qed

text \<open>
  C10.  A Darwin signal set translates unless it holds signal 7 or 29, and translating it back gives
  the set again, up to the bit of the signal 32 that does not exist.
\<close>

theorem sigset_round_trip:
  "case darwin_sigset_to_linux s of
     None \<Rightarrow> bit s 6 \<or> bit s 28
   | Some l \<Rightarrow> \<not> bit s 6 \<and> \<not> bit s 28 \<and> linux_sigset_to_darwin l = take_bit 31 s"
  using sigset_succeeds [of s] sigset_back [of s] by (cases "darwin_sigset_to_linux s") auto

lemma sigaction_flags_back:
  assumes "darwin_sigaction_flags_to_linux f = Some l"
  shows "linux_sigaction_flags_to_darwin l = Some f"
proof -
  have z: "f AND NOT DARWIN_SA_USERSPACE_MASK = 0"
    and l: "l = translate_bits
        [(DARWIN_SA_ONSTACK, SA_ONSTACK), (DARWIN_SA_RESTART, SA_RESTART),
         (DARWIN_SA_RESETHAND, SA_RESETHAND), (DARWIN_SA_NOCLDSTOP, SA_NOCLDSTOP),
         (DARWIN_SA_NODEFER, SA_NODEFER), (DARWIN_SA_NOCLDWAIT, SA_NOCLDWAIT),
         (DARWIN_SA_SIGINFO, SA_SIGINFO)] f 0"
    using assms by (auto simp: darwin_sigaction_flags_to_linux_def split: if_splits)
  have "f = f AND 127" using masked_off [OF z] by (simp add: DARWIN_SA_USERSPACE_MASK_def)
  then obtain g where g: "f = g AND 127" by blast
  have sup: "l AND NOT 0xDC000007 = 0"
    unfolding l g by (rule u32_bitsI) (simp add: bit_translate_bits flag_bits bit_simps)
  have "translate_bits
           [(SA_ONSTACK, DARWIN_SA_ONSTACK), (SA_RESTART, DARWIN_SA_RESTART),
            (SA_RESETHAND, DARWIN_SA_RESETHAND), (SA_NOCLDSTOP, DARWIN_SA_NOCLDSTOP),
            (SA_NODEFER, DARWIN_SA_NODEFER), (SA_NOCLDWAIT, DARWIN_SA_NOCLDWAIT),
            (SA_SIGINFO, DARWIN_SA_SIGINFO)] l 0 = f"
    unfolding l g by (rule u32_bitsI) (simp add: bit_translate_bits flag_bits bit_simps)
  then show ?thesis using sup by (simp add: linux_sigaction_flags_to_darwin_def)
qed


text \<open>
  C11.  A disposition that the translation accepts is reported back as it was set, its mask up to
  the bit of signal 32.
\<close>

theorem sigaction_round_trip:
  assumes "darwin_sigaction_to_linux a = Some l"
  shows "linux_sigaction_to_darwin l = Some (a\<lparr>da_mask := take_bit 31 (da_mask a)\<rparr>)"
proof -
  have h: "da_handler a = 0 \<or> da_handler a = 1"
    using assms by (auto simp: darwin_sigaction_to_linux_def not_less split: if_splits) unat_arith
  obtain fl ms where "darwin_sigaction_flags_to_linux (da_flags a) = Some fl"
    and "darwin_sigset_to_linux (da_mask a) = Some ms"
    and "l = \<lparr>la_handler = (if da_handler a = DARWIN_SIG_IGN then SIG_IGN else SIG_DFL),
              la_mask = ms, la_flags = fl\<rparr>"
    using assms by (auto simp: darwin_sigaction_to_linux_def split: if_splits option.splits)
  then show ?thesis
    using h sigaction_flags_back sigset_back
    by (auto simp: linux_sigaction_to_darwin_def)
qed

theorem sigaction_round_trip_witness:
  "\<exists>l. darwin_sigaction_to_linux \<lparr>da_handler = 1, da_mask = 0x4001, da_flags = 0x42\<rparr> = Some l \<and>
    linux_sigaction_to_darwin l = Some \<lparr>da_handler = 1, da_mask = 0x4001, da_flags = 0x42\<rparr>"
proof -
  let ?a = "\<lparr>da_handler = 1, da_mask = 0x4001, da_flags = 0x42\<rparr>"
  obtain l where l: "darwin_sigaction_to_linux ?a = Some l"
  proof -
    have "darwin_sigaction_to_linux ?a \<noteq> None" by code_simp
    then show thesis using that by blast
  qed
  then show ?thesis using sigaction_round_trip [OF l] by simp
qed



end
