(* ===== verification/Signal_Handlers.thy ===== *)
theory Signal_Handlers
  imports Darwin_Signals
begin

text \<open>
  The signal handlers of \<open>syscall_range_000_099.c\<close>: \<open>kill\<close>, \<open>sigprocmask\<close>,
  \<open>sigpending\<close>, \<open>sigaction\<close> and \<open>sigaltstack\<close>.  Each is a function of
  the registers, the guest's memory and the kernel, whose calls are parameters; what the kernel
  documents of them is the predicate \<open>posix_sigprocmask\<close> or \<open>posix_sigaction\<close>.
\<close>


section \<open>Handlers\<close>

text \<open>
  A handler takes the registers, the guest's memory and the kernel, and returns them.  Pointers in
  registers are addresses, the null pointer is zero.
\<close>

definition int_arg :: "gate_state \<Rightarrow> nat \<Rightarrow> int" where
  "int_arg s i = sint (ucast (g_x s i) :: u32)"

definition handle_kill ::
  "(int \<Rightarrow> int \<Rightarrow> 'k \<Rightarrow> (int \<times> int) \<times> 'k) \<Rightarrow> gate_state \<Rightarrow> 'k \<Rightarrow> gate_state \<times> 'k" where
  "handle_kill sys_kill state k =
     (let linux_signal = darwin_signal_to_linux (int_arg state 1)
      in if linux_signal < 0 then (set_failure DARWIN_EINVAL state, k)
         else case sys_kill (int_arg state 0) linux_signal k of
           ((result, err), k') \<Rightarrow> (finish_syscall_result_000 err result state, k'))"

definition darwin_sigprocmask_how_to_linux :: "int \<Rightarrow> int" where
  "darwin_sigprocmask_how_to_linux darwin_how =
     (if darwin_how = 1 then 0 else if darwin_how = 2 then 1 else if darwin_how = 3 then 2 else -1)"

definition handle_sigprocmask ::
  "(int \<Rightarrow> u64 option \<Rightarrow> 'k \<Rightarrow> (int \<times> int \<times> u64) \<times> 'k) \<Rightarrow>
     gate_state \<Rightarrow> memory \<Rightarrow> 'k \<Rightarrow> gate_state \<times> memory \<times> 'k" where
  "handle_sigprocmask sigprocmask state m k =
     (let linux_how = darwin_sigprocmask_how_to_linux (int_arg state 0);
          darwin_set = g_x state 1;
          darwin_old_set = g_x state 2
      in if linux_how < 0 \<and> darwin_set \<noteq> 0 then (set_failure DARWIN_EINVAL state, m, k)
         else if darwin_set \<noteq> 0 \<and> darwin_sigset_to_linux (rd32 m darwin_set) = None
           then (set_failure DARWIN_EINVAL state, m, k)
         else case sigprocmask (if linux_how < 0 then 2 else linux_how)
                (if darwin_set \<noteq> 0 then darwin_sigset_to_linux (rd32 m darwin_set) else None) k of
           ((result, err, linux_old_set), k') \<Rightarrow>
             if result < 0 then (set_failure (darwin_errno_from_linux_000 err) state, m, k')
             else (set_success 0 state,
                   if darwin_old_set \<noteq> 0
                   then wr32 m darwin_old_set (linux_sigset_to_darwin linux_old_set) else m, k'))"

definition handle_sigpending ::
  "('k \<Rightarrow> (int \<times> int \<times> u64) \<times> 'k) \<Rightarrow> gate_state \<Rightarrow> memory \<Rightarrow> 'k \<Rightarrow> gate_state \<times> memory \<times> 'k" where
  "handle_sigpending sigpending state m k =
     (let darwin_set = g_x state 0
      in if darwin_set = 0 then (set_failure DARWIN_EINVAL state, m, k)
         else case sigpending k of
           ((result, err, linux_set), k') \<Rightarrow>
             if result < 0 then (set_failure (darwin_errno_from_linux_000 err) state, m, k')
             else (set_success 0 state, wr32 m darwin_set (linux_sigset_to_darwin linux_set), k'))"

text \<open>The structures a handler reads and writes, field after field.\<close>

definition rd_sigaction :: "memory \<Rightarrow> u64 \<Rightarrow> darwin_sigaction" where
  "rd_sigaction m a =
     (let bs = mem_read 16 m a
      in \<lparr>da_handler = le_val (take 8 bs), da_mask = le_val (take 4 (drop 8 bs)),
          da_flags = le_val (drop 12 bs)\<rparr>)"

definition wr_sigaction :: "memory \<Rightarrow> u64 \<Rightarrow> darwin_sigaction \<Rightarrow> memory" where
  "wr_sigaction m a s =
     mem_write m a (le_bytes 8 (da_handler s) @ le_bytes 4 (da_mask s) @ le_bytes 4 (da_flags s))"

definition handle_sigaction ::
  "bool \<Rightarrow> (int \<Rightarrow> linux_sigaction option \<Rightarrow> 'k \<Rightarrow> (int \<times> int \<times> linux_sigaction) \<times> 'k) \<Rightarrow>
     gate_state \<Rightarrow> memory \<Rightarrow> 'k \<Rightarrow> gate_state \<times> memory \<times> 'k" where
  "handle_sigaction in_fork_child sigaction state m k =
     (let linux_signal = darwin_signal_to_linux (int_arg state 0);
          darwin_new_action = g_x state 1;
          darwin_old_action = g_x state 2;
          new_action = darwin_sigaction_to_linux (rd_sigaction m darwin_new_action);
          effective = (if in_fork_child \<and> linux_signal = SIGPIPE
            then Some \<lparr>la_handler = SIG_IGN, la_mask = 0, la_flags = 0\<rparr> else new_action);
          install = (\<lambda>m' k. if darwin_new_action \<noteq> 0
            then case sigaction linux_signal effective k of
              ((result, err, _), k') \<Rightarrow>
                if result < 0 then (set_failure (darwin_errno_from_linux_000 err) state, m, k')
                else (set_success 0 state, m', k')
            else (set_success 0 state, m', k))
      in if linux_signal \<le> 0 then (set_failure DARWIN_EINVAL state, m, k)
         else if darwin_new_action \<noteq> 0 \<and> new_action = None then (set_failure DARWIN_ENOSYS state, m, k)
         else if darwin_old_action \<noteq> 0
           then case sigaction linux_signal None k of
             ((result, err, linux_old_action), k') \<Rightarrow>
               if result < 0 then (set_failure (darwin_errno_from_linux_000 err) state, m, k')
               else case linux_sigaction_to_darwin linux_old_action of
                 None \<Rightarrow> (set_failure DARWIN_ENOSYS state, m, k')
               | Some old_action \<Rightarrow> install (wr_sigaction m darwin_old_action old_action) k'
           else install m k)"

abbreviation (input) SS_ONSTACK :: u32 where "SS_ONSTACK \<equiv> 1"
abbreviation (input) SS_DISABLE :: u32 where "SS_DISABLE \<equiv> 2"
abbreviation (input) DARWIN_SS_ONSTACK :: u32 where "DARWIN_SS_ONSTACK \<equiv> 1"
abbreviation (input) DARWIN_SS_DISABLE :: u32 where "DARWIN_SS_DISABLE \<equiv> 4"

definition darwin_sigaltstack_flags_to_linux :: "u32 \<Rightarrow> u32 option" where
  "darwin_sigaltstack_flags_to_linux darwin_flags =
     (if darwin_flags AND NOT (DARWIN_SS_ONSTACK OR DARWIN_SS_DISABLE) \<noteq> 0 then None
      else Some (translate_bits [(DARWIN_SS_ONSTACK, SS_ONSTACK), (DARWIN_SS_DISABLE, SS_DISABLE)] darwin_flags 0))"

definition linux_sigaltstack_flags_to_darwin :: "u32 \<Rightarrow> u32" where
  "linux_sigaltstack_flags_to_darwin linux_flags =
     translate_bits [(SS_ONSTACK, DARWIN_SS_ONSTACK), (SS_DISABLE, DARWIN_SS_DISABLE)] linux_flags 0"

text \<open>A stack as both systems describe it: its base, its size and its flags.\<close>

record sig_stack =
  ss_sp :: u64
  ss_size :: u64
  ss_flags :: u32

definition rd_sigaltstack :: "memory \<Rightarrow> u64 \<Rightarrow> sig_stack" where
  "rd_sigaltstack m a =
     (let bs = mem_read 24 m a
      in \<lparr>ss_sp = le_val (take 8 bs), ss_size = le_val (take 8 (drop 8 bs)),
          ss_flags = le_val (take 4 (drop 16 bs))\<rparr>)"

definition wr_sigaltstack :: "memory \<Rightarrow> u64 \<Rightarrow> sig_stack \<Rightarrow> memory" where
  "wr_sigaltstack m a s =
     mem_write m a (le_bytes 8 (ss_sp s) @ le_bytes 8 (ss_size s) @ le_bytes 4 (ss_flags s) @ le_bytes 4 (0 :: u32))"

definition handle_sigaltstack ::
  "(sig_stack option \<Rightarrow> 'k \<Rightarrow> (int \<times> int \<times> sig_stack) \<times> 'k) \<Rightarrow>
     gate_state \<Rightarrow> memory \<Rightarrow> 'k \<Rightarrow> gate_state \<times> memory \<times> 'k" where
  "handle_sigaltstack sigaltstack state m k =
     (let darwin_new_stack = g_x state 0;
          darwin_old_stack = g_x state 1;
          new_stack = rd_sigaltstack m darwin_new_stack;
          linux_flags = darwin_sigaltstack_flags_to_linux (ss_flags new_stack)
      in if darwin_new_stack \<noteq> 0 \<and> linux_flags = None then (set_failure DARWIN_EINVAL state, m, k)
         else case sigaltstack (if darwin_new_stack \<noteq> 0
                then map_option (\<lambda>fl. new_stack\<lparr>ss_flags := fl\<rparr>) linux_flags else None) k of
           ((result, err, linux_old_stack), k') \<Rightarrow>
             if result < 0 then (set_failure (darwin_errno_from_linux_000 err) state, m, k')
             else (set_success 0 state,
                   if darwin_old_stack \<noteq> 0
                   then wr_sigaltstack m darwin_old_stack
                     (linux_old_stack\<lparr>ss_flags := linux_sigaltstack_flags_to_darwin (ss_flags linux_old_stack)\<rparr>)
                   else m, k'))"

text \<open>\<open>SIGKILL\<close> and \<open>SIGSTOP\<close>, as Linux and as Darwin sets.\<close>

definition unblockable_linux :: u64 where
  "unblockable_linux = 2 ^ 8 OR 2 ^ 18"

definition unblockable_darwin :: u32 where
  "unblockable_darwin = 2 ^ 8 OR 2 ^ 16"

text \<open>
  What \<open>sigprocmask(2)\<close> documents: \<open>SIG_SETMASK\<close> installs the set except for the two signals
  that cannot be blocked, a null set changes nothing, and the old mask is returned.
\<close>

definition posix_sigprocmask :: "(int \<Rightarrow> u64 option \<Rightarrow> 'k \<Rightarrow> (int \<times> int \<times> u64) \<times> 'k) \<Rightarrow> ('k \<Rightarrow> u64) \<Rightarrow> bool" where
  "posix_sigprocmask sigprocmask kmask \<longleftrightarrow>
     (\<forall>how k. \<exists>k'. sigprocmask how None k = ((0, 0, kmask k), k') \<and> kmask k' = kmask k) \<and>
     (\<forall>s k. \<exists>k'. sigprocmask 2 (Some s) k = ((0, 0, kmask k), k') \<and> kmask k' = s AND NOT unblockable_linux)"

lemma unblockable_bits:
  "bit unblockable_linux n \<longleftrightarrow> n = 8 \<or> n = 18" "bit unblockable_darwin n \<longleftrightarrow> n = 8 \<or> n = 16"
  unfolding unblockable_linux_def unblockable_darwin_def by (simp_all only: bit_or_iff bit_exp_iff) auto

lemma sigset_back_unblockable:
  assumes "darwin_sigset_to_linux s = Some l"
  shows "linux_sigset_to_darwin (l AND NOT unblockable_linux) = take_bit 31 s AND NOT unblockable_darwin"
proof (rule bit_word_eqI)
  fix k assume "k < LENGTH(32)"
  have kl: "nat (ls - 1) = 8 \<or> nat (ls - 1) = 18 \<longleftrightarrow>
      nat (linux_signal_to_darwin ls - 1) = 8 \<or> nat (linux_signal_to_darwin ls - 1) = 16"
    if "0 < linux_signal_to_darwin ls" "1 \<le> ls" for ls
  proof -
    have b: "darwin_signal_to_linux (linux_signal_to_darwin ls) = ls" using that(1) signal_forth by simp
    have c: "linux_signal_to_darwin 9 = 9" "linux_signal_to_darwin 19 = 17"
      "darwin_signal_to_linux 9 = 9" "darwin_signal_to_linux 17 = 19" by code_simp+
    have e: "nat (ls - 1) = 8 \<longleftrightarrow> ls = 9" "nat (ls - 1) = 18 \<longleftrightarrow> ls = 19"
      "nat (linux_signal_to_darwin ls - 1) = 8 \<longleftrightarrow> linux_signal_to_darwin ls = 9"
      "nat (linux_signal_to_darwin ls - 1) = 16 \<longleftrightarrow> linux_signal_to_darwin ls = 17"
      using that by linarith+
    show ?thesis unfolding e using b c by metis
  qed
  have "bit (linux_sigset_to_darwin (l AND NOT unblockable_linux)) k \<longleftrightarrow>
      bit (linux_sigset_to_darwin l) k \<and> \<not> (k = 8 \<or> k = 16)" (is "?L \<longleftrightarrow> ?R")
  proof
    assume ?L
    then obtain ls where ls: "1 \<le> ls" "ls \<le> 64" "bit l (nat (ls - 1))"
      "\<not> (nat (ls - 1) = 8 \<or> nat (ls - 1) = 18)" "0 < linux_signal_to_darwin ls"
      "k = nat (linux_signal_to_darwin ls - 1)" "k < 32"
      unfolding sigset_to_darwin_bits by (auto simp: bit_and_iff bit_not_iff unblockable_bits)
    then have "\<not> (k = 8 \<or> k = 16)" using kl [OF ls(5,1)] by simp
    then show ?R unfolding sigset_to_darwin_bits using ls by blast
  next
    assume ?R
    then obtain ls where ls: "1 \<le> ls" "ls \<le> 64" "bit l (nat (ls - 1))" "0 < linux_signal_to_darwin ls"
      "k = nat (linux_signal_to_darwin ls - 1)" "k < 32" "\<not> (k = 8 \<or> k = 16)"
      unfolding sigset_to_darwin_bits by blast
    then have "\<not> (nat (ls - 1) = 8 \<or> nat (ls - 1) = 18)" using kl [OF ls(4,1)] by simp
    then show ?L unfolding sigset_to_darwin_bits using ls
      by (intro exI [of _ ls]) (simp add: bit_and_iff bit_not_iff unblockable_bits)
  qed
  then show "bit (linux_sigset_to_darwin (l AND NOT unblockable_linux)) k = bit (take_bit 31 s AND NOT unblockable_darwin) k"
    using sigset_back [OF assms] \<open>k < LENGTH(32)\<close> by (auto simp: bit_and_iff bit_not_iff unblockable_bits)
qed

text \<open>
  C13.  Setting the signal mask and reading it back through the gate gives the guest the mask it set,
  without the two signals that cannot be blocked.
\<close>

theorem sigprocmask_set_then_get:
  assumes "posix_sigprocmask sigprocmask kmask"
    and "int_arg s1 0 = 3" and "g_x s1 1 \<noteq> 0" and "rd32 m (g_x s1 1) = sset"
    and "\<not> bit sset 6" and "\<not> bit sset 28"
    and "handle_sigprocmask sigprocmask s1 m k = (s1', m', k')"
    and "g_x s2 1 = 0" and "g_x s2 2 \<noteq> 0"
    and "handle_sigprocmask sigprocmask s2 m' k' = (s2', m'', k'')"
  shows "\<not> carry_set s1' \<and> \<not> carry_set s2' \<and>
    rd32 m'' (g_x s2 2) = take_bit 31 sset AND NOT unblockable_darwin"
proof -
  obtain l where l: "darwin_sigset_to_linux sset = Some l"
    using sigset_succeeds [of sset] assms(5,6) by auto
  have how: "darwin_sigprocmask_how_to_linux 3 = 2" by code_simp
  obtain k1 where k1: "sigprocmask 2 (Some l) k = ((0, 0, kmask k), k1)" "kmask k1 = l AND NOT unblockable_linux"
    using assms(1) unfolding posix_sigprocmask_def by blast
  have s1: "s1' = set_success 0 s1" "k' = k1"
    using assms(7) l how k1(1) assms(2-4) by (simp_all add: handle_sigprocmask_def Let_def)
  have "\<exists>h k2. sigprocmask h None k' = ((0, 0, kmask k'), k2) \<and>
      handle_sigprocmask sigprocmask s2 m' k' =
        (set_success 0 s2, wr32 m' (g_x s2 2) (linux_sigset_to_darwin (kmask k')), k2)"
  proof -
    define h where "h = (if darwin_sigprocmask_how_to_linux (int_arg s2 0) < 0 then 2
      else darwin_sigprocmask_how_to_linux (int_arg s2 0))"
    obtain k2 where "sigprocmask h None k' = ((0, 0, kmask k'), k2)"
      using assms(1) unfolding posix_sigprocmask_def by blast
    then show ?thesis using assms(8,9)
      by (intro exI [of _ h] exI [of _ k2]) (simp add: handle_sigprocmask_def Let_def h_def [symmetric])
  qed
  then show ?thesis using assms(10) s1 k1(2) sigset_back_unblockable [OF l] by auto
qed

text \<open>A kernel that has nothing but a signal mask.\<close>

definition mask_only_kernel :: "int \<Rightarrow> u64 option \<Rightarrow> u64 \<Rightarrow> (int \<times> int \<times> u64) \<times> u64" where
  "mask_only_kernel how sset k =
     ((0, 0, k),
      case sset of
        None \<Rightarrow> k
      | Some s \<Rightarrow> (if how = 0 then k OR s else if how = 1 then k AND NOT s else s)
                  AND NOT unblockable_linux)"

definition example_gate :: "u64 \<Rightarrow> u64 \<Rightarrow> u64 \<Rightarrow> gate_state" where
  "example_gate a b c =
     \<lparr>g_x = (\<lambda>i. if i = 0 then a else if i = 1 then b else if i = 2 then c else 0),
      g_x30 = 0, g_nzcv = 0, g_pc = 0\<rparr>"

theorem sigprocmask_set_then_get_witness:
  "rd32 (fst (snd (handle_sigprocmask mask_only_kernel (example_gate 3 0 0x2000)
      (wr32 (\<lambda>_. 0) 0x1000 0x4001)
      (snd (snd (handle_sigprocmask mask_only_kernel (example_gate 3 0x1000 0)
        (wr32 (\<lambda>_. 0) 0x1000 0x4001) 0)))))) 0x2000 = 0x4001"
proof -
  let ?m = "wr32 (\<lambda>_. 0) 0x1000 0x4001"
  let ?r = "handle_sigprocmask mask_only_kernel (example_gate 3 0x1000 0) ?m 0"
  have m: "fst (snd ?r) = ?m" by (simp add: handle_sigprocmask_def example_gate_def Let_def split: prod.splits)
  have "posix_sigprocmask mask_only_kernel (\<lambda>k. k)"
    by (simp add: posix_sigprocmask_def mask_only_kernel_def)
  then have "rd32 (fst (snd (handle_sigprocmask mask_only_kernel (example_gate 3 0 0x2000) ?m (snd (snd ?r))))) 0x2000
      = take_bit 31 0x4001 AND NOT unblockable_darwin"
    using sigprocmask_set_then_get [of mask_only_kernel "\<lambda>k. k" "example_gate 3 0x1000 0" ?m "0x4001" 0
      "fst ?r" ?m "snd (snd ?r)" "example_gate 3 0 0x2000"
      "fst (handle_sigprocmask mask_only_kernel (example_gate 3 0 0x2000) ?m (snd (snd ?r)))"
      "fst (snd (handle_sigprocmask mask_only_kernel (example_gate 3 0 0x2000) ?m (snd (snd ?r))))"
      "snd (snd (handle_sigprocmask mask_only_kernel (example_gate 3 0 0x2000) ?m (snd (snd ?r))))"] m
    by (simp add: example_gate_def int_arg_def prod_eq_iff)
  also have "\<dots> = 0x4001" by code_simp
  finally show ?thesis .
qed

lemma rd_wr_sigaction [simp]: "rd_sigaction (wr_sigaction m a s) a = s"
  by (simp add: rd_sigaction_def wr_sigaction_def memory Let_def)

text \<open>
  What \<open>sigaction(2)\<close> documents: a null action reads the disposition, an action for a signal
  that can be caught installs it, without the two signals that cannot be blocked in its mask.
\<close>

definition posix_sigaction ::
  "(int \<Rightarrow> linux_sigaction option \<Rightarrow> 'k \<Rightarrow> (int \<times> int \<times> linux_sigaction) \<times> 'k) \<Rightarrow>
     ('k \<Rightarrow> int \<Rightarrow> linux_sigaction) \<Rightarrow> bool" where
  "posix_sigaction sigaction disp \<longleftrightarrow>
     (\<forall>sig k. \<exists>k'. sigaction sig None k = ((0, 0, disp k sig), k') \<and> disp k' = disp k) \<and>
     (\<forall>sig a k. sig \<noteq> 9 \<and> sig \<noteq> 19 \<longrightarrow>
        (\<exists>k'. sigaction sig (Some a) k = ((0, 0, disp k sig), k') \<and>
          disp k' = (disp k)(sig := a\<lparr>la_mask := la_mask a AND NOT unblockable_linux\<rparr>)))"

lemma sigaction_back_unblockable:
  assumes "darwin_sigaction_to_linux a = Some l"
  shows "linux_sigaction_to_darwin (l\<lparr>la_mask := la_mask l AND NOT unblockable_linux\<rparr>) =
    Some (a\<lparr>da_mask := take_bit 31 (da_mask a) AND NOT unblockable_darwin\<rparr>)"
proof -
  have h: "da_handler a = 0 \<or> da_handler a = 1"
    using assms by (auto simp: darwin_sigaction_to_linux_def not_less split: if_splits) unat_arith
  obtain fl ms where "darwin_sigaction_flags_to_linux (da_flags a) = Some fl"
    and "darwin_sigset_to_linux (da_mask a) = Some ms"
    and "l = \<lparr>la_handler = (if da_handler a = DARWIN_SIG_IGN then SIG_IGN else SIG_DFL),
              la_mask = ms, la_flags = fl\<rparr>"
    using assms by (auto simp: darwin_sigaction_to_linux_def split: if_splits option.splits)
  then show ?thesis
    using h sigaction_flags_back sigset_back_unblockable
    by (auto simp: linux_sigaction_to_darwin_def)
qed

text \<open>
  C14.  A disposition the guest installs for a signal, outside the forked child's \<open>SIGPIPE\<close>, is
  the one a later query of the same signal stores at the guest's address.
\<close>

theorem sigaction_set_then_get:
  assumes "posix_sigaction sigaction disp"
    and "darwin_signal_to_linux (int_arg s1 0) = sig" and "0 < sig" and "sig \<noteq> 9" and "sig \<noteq> 19"
    and "\<not> (child \<and> sig = SIGPIPE)"
    and "g_x s1 1 \<noteq> 0" and "g_x s1 2 = 0"
    and "rd_sigaction m (g_x s1 1) = act" and "darwin_sigaction_to_linux act \<noteq> None"
    and "handle_sigaction child sigaction s1 m k = (s1', m', k')"
    and "int_arg s2 0 = int_arg s1 0" and "g_x s2 1 = 0" and "g_x s2 2 \<noteq> 0"
    and "handle_sigaction child2 sigaction s2 m' k' = (s2', m'', k'')"
  shows "\<not> carry_set s1' \<and> \<not> carry_set s2' \<and>
    rd_sigaction m'' (g_x s2 2) = act\<lparr>da_mask := take_bit 31 (da_mask act) AND NOT unblockable_darwin\<rparr>"
proof -
  obtain l where l: "darwin_sigaction_to_linux act = Some l" using assms(10) by blast
  obtain k1 where k1: "sigaction sig (Some l) k = ((0, 0, disp k sig), k1)"
    "disp k1 = (disp k)(sig := l\<lparr>la_mask := la_mask l AND NOT unblockable_linux\<rparr>)"
    using assms(1,4,5) unfolding posix_sigaction_def by blast
  have s1: "s1' = set_success 0 s1" "k' = k1"
    using assms(11) l k1(1) assms(2,3,6-9) by (auto simp: handle_sigaction_def Let_def split: if_splits)
  obtain k2 where k2: "sigaction sig None k1 = ((0, 0, disp k1 sig), k2)"
    using assms(1) unfolding posix_sigaction_def by blast
  have "handle_sigaction child2 sigaction s2 m' k1 = (set_success 0 s2,
      wr_sigaction m' (g_x s2 2) (act\<lparr>da_mask := take_bit 31 (da_mask act) AND NOT unblockable_darwin\<rparr>), k2)"
    using assms(2,3,12-14) k2 k1(2) sigaction_back_unblockable [OF l]
    by (simp add: handle_sigaction_def Let_def)
  then show ?thesis using assms(15) s1 by auto
qed

text \<open>A kernel that has nothing but a table of dispositions.\<close>

definition dispositions_kernel ::
  "int \<Rightarrow> linux_sigaction option \<Rightarrow> (int \<Rightarrow> linux_sigaction) \<Rightarrow> (int \<times> int \<times> linux_sigaction) \<times> (int \<Rightarrow> linux_sigaction)" where
  "dispositions_kernel sig act k =
     ((0, 0, k sig), case act of None \<Rightarrow> k
        | Some a \<Rightarrow> k(sig := a\<lparr>la_mask := la_mask a AND NOT unblockable_linux\<rparr>))"

theorem sigaction_set_then_get_witness:
  "rd_sigaction (fst (snd (handle_sigaction False dispositions_kernel (example_gate 30 0 0x2000)
      (wr_sigaction (\<lambda>_. 0) 0x1000 \<lparr>da_handler = 1, da_mask = 0x4101, da_flags = 0x42\<rparr>)
      (snd (snd (handle_sigaction False dispositions_kernel (example_gate 30 0x1000 0)
        (wr_sigaction (\<lambda>_. 0) 0x1000 \<lparr>da_handler = 1, da_mask = 0x4101, da_flags = 0x42\<rparr>)
        (\<lambda>_. \<lparr>la_handler = 0, la_mask = 0, la_flags = 0\<rparr>))))))) 0x2000
    = \<lparr>da_handler = 1, da_mask = 0x4001, da_flags = 0x42\<rparr>"
proof -
  let ?a = "\<lparr>da_handler = 1, da_mask = 0x4101, da_flags = 0x42\<rparr>"
  let ?m = "wr_sigaction (\<lambda>_. 0) 0x1000 ?a"
  let ?k = "\<lambda>_ :: int. \<lparr>la_handler = 0, la_mask = 0, la_flags = 0\<rparr>"
  let ?r = "handle_sigaction False dispositions_kernel (example_gate 30 0x1000 0) ?m ?k"
  let ?q = "handle_sigaction False dispositions_kernel (example_gate 30 0 0x2000) ?m (snd (snd ?r))"
  have sig: "darwin_signal_to_linux 30 = 10" and acc: "darwin_sigaction_to_linux ?a \<noteq> None"
    and res: "take_bit 31 (0x4101 :: u32) AND NOT unblockable_darwin = 0x4001" by code_simp+
  have arg: "int_arg (example_gate 30 b c) 0 = 30" for b c by (simp add: int_arg_def example_gate_def)
  have m: "fst (snd ?r) = ?m" using acc sig
    by (auto simp: handle_sigaction_def arg dispositions_kernel_def Let_def example_gate_def)
  have "posix_sigaction dispositions_kernel (\<lambda>k. k)"
    by (simp add: posix_sigaction_def dispositions_kernel_def)
  then have "rd_sigaction (fst (snd ?q)) 0x2000 = ?a\<lparr>da_mask := take_bit 31 (da_mask ?a) AND NOT unblockable_darwin\<rparr>"
    using sigaction_set_then_get [of dispositions_kernel "\<lambda>k. k" "example_gate 30 0x1000 0" 10 False ?m ?a ?k
      "fst ?r" ?m "snd (snd ?r)" "example_gate 30 0 0x2000" False "fst ?q" "fst (snd ?q)" "snd (snd ?q)"]
      m sig acc arg by (simp add: prod_eq_iff) (simp add: example_gate_def)
  then show ?thesis using res by simp
qed

text \<open>
  The alternate stack flags of the two systems: a Darwin value that is accepted comes back as it was.
\<close>

lemma sigaltstack_flags_back:
  assumes "darwin_sigaltstack_flags_to_linux f = Some l"
  shows "linux_sigaltstack_flags_to_darwin l = f"
proof -
  have l: "l = translate_bits [(DARWIN_SS_ONSTACK, SS_ONSTACK), (DARWIN_SS_DISABLE, SS_DISABLE)] f 0"
    and z: "f AND NOT 5 = 0"
    using assms by (auto simp: darwin_sigaltstack_flags_to_linux_def split: if_splits)
  have "f = f AND 5" using masked_off [OF z] by simp
  then obtain g where g: "f = g AND 5" by blast
  show ?thesis unfolding l g linux_sigaltstack_flags_to_darwin_def
    by (rule u32_bitsI) (simp add: bit_translate_bits flag_bits bit_simps)
qed

end
