(* ===== verification/Macho.thy ===== *)
theory Macho
  imports Gate_State
begin

text \<open>
  The Mach-O structures of \<open>macho_defs.h\<close> that the patchers and the loader read, as they lie in
  memory, the walk over the load commands that all of them share, and the island pool of
  \<open>loader.h\<close>.
\<close>

section \<open>Fields in memory\<close>

text \<open>A fixed-size name field holds the characters up to the first null, at most sixteen.\<close>

definition rd_name16 :: "memory \<Rightarrow> u64 \<Rightarrow> u8 list" where
  "rd_name16 m a = takeWhile (\<lambda>b. b \<noteq> 0) (mem_read 16 m a)"

text \<open>A memory given by the bytes in it that are not zero.\<close>

definition sparse :: "(u64 \<times> u8) list \<Rightarrow> memory" where
  "sparse bs = (\<lambda>x. case map_of bs x of None \<Rightarrow> 0 | Some b \<Rightarrow> b)"

section \<open>Structures\<close>

abbreviation (input) VM_PROT_READ :: u32 where "VM_PROT_READ \<equiv> 1"
abbreviation (input) VM_PROT_WRITE :: u32 where "VM_PROT_WRITE \<equiv> 2"
abbreviation (input) VM_PROT_EXECUTE :: u32 where "VM_PROT_EXECUTE \<equiv> 4"
abbreviation (input) LC_SEGMENT_64 :: u32 where "LC_SEGMENT_64 \<equiv> 0x19"
abbreviation (input) S_ATTR_PURE_INSTRUCTIONS :: u32 where "S_ATTR_PURE_INSTRUCTIONS \<equiv> 0x80000000"
abbreviation (input) S_ATTR_SOME_INSTRUCTIONS :: u32 where "S_ATTR_SOME_INSTRUCTIONS \<equiv> 0x00000400"

record mach_header_64 =
  mh_magic :: u32
  mh_cputype :: u32
  mh_cpusubtype :: u32
  mh_filetype :: u32
  mh_ncmds :: u32
  mh_sizeofcmds :: u32
  mh_flags :: u32
  mh_reserved :: u32

record load_command =
  lc_cmd :: u32
  lc_cmdsize :: u32

record segment_command_64 =
  seg_name :: "u8 list"
  seg_vmaddr :: u64
  seg_vmsize :: u64
  seg_fileoff :: u64
  seg_filesize :: u64
  seg_maxprot :: u32
  seg_initprot :: u32
  seg_nsects :: u32
  seg_flags :: u32

record section_64 =
  sect_name :: "u8 list"
  sect_segname :: "u8 list"
  sect_addr :: u64
  sect_size :: u64
  sect_offset :: u32
  sect_align :: u32
  sect_reloff :: u32
  sect_nreloc :: u32
  sect_flags :: u32
  sect_reserved1 :: u32
  sect_reserved2 :: u32
  sect_reserved3 :: u32

definition mach_header_64_at :: "memory \<Rightarrow> u64 \<Rightarrow> mach_header_64" where
  "mach_header_64_at m a =
     \<lparr>mh_magic = rd32 m a, mh_cputype = rd32 m (a + 4), mh_cpusubtype = rd32 m (a + 8),
      mh_filetype = rd32 m (a + 12), mh_ncmds = rd32 m (a + 16), mh_sizeofcmds = rd32 m (a + 20),
      mh_flags = rd32 m (a + 24), mh_reserved = rd32 m (a + 28)\<rparr>"

definition load_command_at :: "memory \<Rightarrow> u64 \<Rightarrow> load_command" where
  "load_command_at m a = \<lparr>lc_cmd = rd32 m a, lc_cmdsize = rd32 m (a + 4)\<rparr>"

definition segment_command_64_at :: "memory \<Rightarrow> u64 \<Rightarrow> segment_command_64" where
  "segment_command_64_at m a =
     \<lparr>seg_name = rd_name16 m (a + 8), seg_vmaddr = rd64 m (a + 24), seg_vmsize = rd64 m (a + 32),
      seg_fileoff = rd64 m (a + 40), seg_filesize = rd64 m (a + 48), seg_maxprot = rd32 m (a + 56),
      seg_initprot = rd32 m (a + 60), seg_nsects = rd32 m (a + 64), seg_flags = rd32 m (a + 68)\<rparr>"

definition section_64_at :: "memory \<Rightarrow> u64 \<Rightarrow> section_64" where
  "section_64_at m a =
     \<lparr>sect_name = rd_name16 m a, sect_segname = rd_name16 m (a + 16), sect_addr = rd64 m (a + 32),
      sect_size = rd64 m (a + 40), sect_offset = rd32 m (a + 48), sect_align = rd32 m (a + 52),
      sect_reloff = rd32 m (a + 56), sect_nreloc = rd32 m (a + 60), sect_flags = rd32 m (a + 64),
      sect_reserved1 = rd32 m (a + 68), sect_reserved2 = rd32 m (a + 72), sect_reserved3 = rd32 m (a + 76)\<rparr>"

text \<open>The sections follow their segment command: \<open>(struct section_64*)(seg + 1)\<close>.\<close>

definition segment_sections :: "memory \<Rightarrow> u64 \<Rightarrow> section_64 list" where
  "segment_sections m seg =
     map (\<lambda>s. section_64_at m (seg + 72 + 80 * of_nat s)) [0..<unat (seg_nsects (segment_command_64_at m seg))]"

section \<open>The walk over the load commands\<close>

text \<open>
  \<open>for (i = 0; i < ncmds && offset < sizeofcmds; i++) { ...; offset += lc->cmdsize; }\<close>: the addresses
  visited.  The offset is a \<open>uint32_t\<close> and wraps.
\<close>

fun command_addrs :: "memory \<Rightarrow> u64 \<Rightarrow> u32 \<Rightarrow> nat \<Rightarrow> u32 \<Rightarrow> u64 list" where
  "command_addrs m cmds sizeofcmds 0 offset = []"
| "command_addrs m cmds sizeofcmds (Suc n) offset =
     (if offset < sizeofcmds
      then (cmds + ucast offset) # command_addrs m cmds sizeofcmds n (offset + lc_cmdsize (load_command_at m (cmds + ucast offset)))
      else [])"

definition load_command_addrs :: "memory \<Rightarrow> u64 \<Rightarrow> u64 list" where
  "load_command_addrs m mh =
     (let h = mach_header_64_at m mh
      in command_addrs m (mh + 32) (mh_sizeofcmds h) (unat (mh_ncmds h)) 0)"

lemma command_addrs_bounds:
  "length (command_addrs m cmds sz n off) \<le> n"
  "a \<in> set (command_addrs m cmds sz n off) \<Longrightarrow> \<exists>d. d < sz \<and> a = cmds + ucast d"
  by (induction n arbitrary: off) (auto split: if_splits)

section \<open>The island pool\<close>

record load_pool =
  pool_base :: u64
  pool_size :: u64
  pool_used :: u64

definition machgate_pool_alloc :: "load_pool \<Rightarrow> u64 \<Rightarrow> u64 option \<times> load_pool" where
  "machgate_pool_alloc lr sz =
     (let page = 4096;
          aligned_off = (pool_used lr + page - 1) AND NOT (page - 1)
      in if pool_base lr = 0 \<or> aligned_off + sz > pool_size lr then (None, lr)
         else (Some (pool_base lr + aligned_off), lr\<lparr>pool_used := aligned_off + sz\<rparr>))"

definition pool_ok :: "load_pool \<Rightarrow> bool" where
  "pool_ok lr \<longleftrightarrow> pool_used lr \<le> pool_size lr \<and> unat (pool_base lr) + unat (pool_size lr) < 2 ^ 52"

lemma page_round:
  assumes "unat (u :: u64) < 2 ^ 52"
  shows "unat ((u + 4096 - 1) AND NOT (4096 - 1)) = (unat u + 4095) div 4096 * 4096"
proof -
  have "unat (u + 4095) = unat u + 4095" using assms by (subst unat_add_lem [THEN iffD1]) simp_all
  then show ?thesis using unat_and_not_mask [of 12 "u + 4095"] by (simp add: add.commute)
qed

text \<open>
  C19.  The pool hands out chunks at page boundaries inside the pool, each above all that were handed
  out before, and keeps its invariant.
\<close>

theorem pool_alloc_fresh:
  assumes "pool_ok lr" and "unat sz < 2 ^ 52" and "machgate_pool_alloc lr sz = (Some p, lr')"
  shows "pool_ok lr' \<and> unat (pool_base lr) + unat (pool_used lr) \<le> unat p \<and>
    unat p + unat sz = unat (pool_base lr') + unat (pool_used lr') \<and>
    unat p + unat sz \<le> unat (pool_base lr) + unat (pool_size lr) \<and> 4096 dvd unat p - unat (pool_base lr)"
proof -
  define off where "off = (pool_used lr + 4096 - 1) AND NOT (4096 - 1 :: u64)"
  have u: "unat (pool_used lr) \<le> unat (pool_size lr)" "unat (pool_base lr) + unat (pool_size lr) < 2 ^ 52"
    using assms(1) by (simp_all add: pool_ok_def word_le_nat_alt)
  then have o: "unat off = (unat (pool_used lr) + 4095) div 4096 * 4096"
    unfolding off_def by (intro page_round) simp
  have "(unat (pool_used lr) + 4095) mod 4096 < 4096" by simp
  then have "unat (pool_used lr) \<le> (unat (pool_used lr) + 4095) div 4096 * 4096"
    using div_mult_mod_eq [of "unat (pool_used lr) + 4095" 4096] by linarith
  then have ge: "unat (pool_used lr) \<le> unat off" and lt: "unat off < 2 ^ 53" using o u by auto
  have os: "unat (off + sz) = unat off + unat sz"
    using lt assms(2) by (subst unat_add_lem [THEN iffD1]) simp_all
  have r: "off + sz \<le> pool_size lr" "p = pool_base lr + off" "lr' = lr\<lparr>pool_used := off + sz\<rparr>"
    using assms(3) by (auto simp: machgate_pool_alloc_def Let_def off_def not_less split: if_splits)
  then have le: "unat off + unat sz \<le> unat (pool_size lr)" using os by (simp add: word_le_nat_alt)
  have up: "unat p = unat (pool_base lr) + unat off"
    unfolding r(2) using u le by (subst unat_add_lem [THEN iffD1]) simp_all
  have "pool_ok lr'" using r u by (simp add: pool_ok_def)
  then show ?thesis using up ge os le r o by simp
qed

theorem pool_alloc_fresh_witness:
  "fst (machgate_pool_alloc \<lparr>pool_base = 0x500000, pool_size = 0x400000, pool_used = 10\<rparr> 0x40000) = Some 0x501000 \<and>
    pool_ok (snd (machgate_pool_alloc \<lparr>pool_base = 0x500000, pool_size = 0x400000, pool_used = 10\<rparr> 0x40000))"
proof -
  let ?lr = "\<lparr>pool_base = 0x500000, pool_size = 0x400000, pool_used = 10\<rparr>"
  have f: "fst (machgate_pool_alloc ?lr 0x40000) = Some 0x501000" by code_simp
  then have "machgate_pool_alloc ?lr 0x40000 = (Some 0x501000, snd (machgate_pool_alloc ?lr 0x40000))" by (metis prod.collapse)
  moreover have "pool_ok ?lr" by (simp add: pool_ok_def)
  ultimately show ?thesis using f pool_alloc_fresh [of ?lr "0x40000"] by simp
qed

end
