(* ===== verification/Syscall_Gate.thy ===== *)
theory Syscall_Gate
  imports Gate_Patch Guest_Vm Signal_Handlers Macho
begin

text \<open>
  The rest of \<open>syscall_gate.c\<close>: patching every executable segment of an image, and the
  dispatcher.  The kernel's system calls are one parameter, \<open>syscall\<close>, that takes the number and
  the arguments and returns the result, \<open>errno\<close>, and the new memory and kernel state.
\<close>

section \<open>Patching an image\<close>

abbreviation (input) PROT_READ :: u32 where "PROT_READ \<equiv> 1"
abbreviation (input) PROT_WRITE :: u32 where "PROT_WRITE \<equiv> 2"
abbreviation (input) PROT_EXEC :: u32 where "PROT_EXEC \<equiv> 4"

definition native_prot_from_macho :: "u32 \<Rightarrow> u32" where
  "native_prot_from_macho prot =
     translate_bits [(VM_PROT_READ, PROT_READ), (VM_PROT_WRITE, PROT_WRITE), (VM_PROT_EXECUTE, PROT_EXEC)] prot 0"

fun gate_patch_sections ::
  "'k mapper \<Rightarrow> 'k unmapper \<Rightarrow> u64 \<Rightarrow> u64 \<Rightarrow> u64 \<Rightarrow> section_64 list \<Rightarrow> 'k gate_patcher \<Rightarrow> nat option \<times> 'k gate_patcher" where
  "gate_patch_sections mmap munmap page dispatcher slide [] w = (Some 0, w)"
| "gate_patch_sections mmap munmap page dispatcher slide (sect # sects) w =
     (if sect_flags sect AND S_ATTR_SOME_INSTRUCTIONS = 0 \<and> sect_flags sect AND S_ATTR_PURE_INSTRUCTIONS = 0
      then gate_patch_sections mmap munmap page dispatcher slide sects w
      else case patch_section mmap munmap page dispatcher (sect_addr sect + slide) (sect_size sect) w of
        (None, w') \<Rightarrow> (None, w')
      | (Some n, w') \<Rightarrow> (case gate_patch_sections mmap munmap page dispatcher slide sects w' of
          (r, w'') \<Rightarrow> (map_option (\<lambda>total. n + total) r, w'')))"

text \<open>The calls of \<open>mprotect\<close> are kept in order: address, size, protection.\<close>

type_synonym prot_log = "(u64 \<times> u64 \<times> u32) list"

fun gate_patch_commands ::
  "'k mapper \<Rightarrow> 'k unmapper \<Rightarrow> u64 \<Rightarrow> u64 \<Rightarrow> u64 \<Rightarrow> memory \<Rightarrow> u64 list \<Rightarrow> 'k gate_patcher \<times> prot_log \<Rightarrow>
     nat option \<times> 'k gate_patcher \<times> prot_log" where
  "gate_patch_commands mmap munmap page dispatcher slide m [] (w, log) = (Some 0, w, log)"
| "gate_patch_commands mmap munmap page dispatcher slide m (lc # lcs) (w, log) =
     (let seg = segment_command_64_at m lc;
          seg_addr = seg_vmaddr seg + slide
      in if lc_cmd (load_command_at m lc) = LC_SEGMENT_64 \<and> seg_maxprot seg AND VM_PROT_EXECUTE \<noteq> 0
         then let log1 = log @ [(seg_addr, seg_vmsize seg, PROT_READ OR PROT_WRITE OR PROT_EXEC)]
           in case gate_patch_sections mmap munmap page dispatcher slide (segment_sections m lc) w of
             (None, w') \<Rightarrow> (None, w', log1)
           | (Some n, w') \<Rightarrow> (case gate_patch_commands mmap munmap page dispatcher slide m lcs
                 (w', log1 @ [(seg_addr, seg_vmsize seg, native_prot_from_macho (seg_initprot seg))]) of
               (r, w'') \<Rightarrow> (map_option (\<lambda>total. n + total) r, w''))
         else gate_patch_commands mmap munmap page dispatcher slide m lcs (w, log))"

definition syscall_gate_patch ::
  "'k mapper \<Rightarrow> 'k unmapper \<Rightarrow> u64 \<Rightarrow> u64 \<Rightarrow> u64 \<Rightarrow> u64 \<Rightarrow> memory \<Rightarrow> load_pool \<Rightarrow> 'k gate_patcher \<Rightarrow>
     nat option \<times> load_pool \<times> 'k gate_patcher \<times> prot_log" where
  "syscall_gate_patch mmap munmap page dispatcher mh slide m lr w =
     (if mh = 0 then (Some 0, lr, w, [])
      else let w0 = w\<lparr>gate_pools := []\<rparr>;
               (pool, lr') = machgate_pool_alloc lr SYSCALL_GATE_POOL_SIZE;
               registered = (case pool of None \<Rightarrow> Some w0
                 | Some p \<Rightarrow> map_option (\<lambda>(i, pools). w0\<lparr>gate_pools := pools\<rparr>)
                     (register_gate_pool p SYSCALL_GATE_POOL_SIZE (gate_pools w0)))
           in case registered of
                None \<Rightarrow> (None, lr', w0, [])
              | Some w1 \<Rightarrow> (case gate_patch_commands mmap munmap page dispatcher slide m (load_command_addrs m mh) (w1, []) of
                  (r, w2, log) \<Rightarrow> (r, lr', w2, log)))"

text \<open>After a run that succeeds, each executable segment was made writable once and then got its own
  protection back.\<close>

definition executable_segments :: "memory \<Rightarrow> u64 list \<Rightarrow> segment_command_64 list" where
  "executable_segments m lcs =
     map (segment_command_64_at m)
       (filter (\<lambda>lc. lc_cmd (load_command_at m lc) = LC_SEGMENT_64 \<and>
          seg_maxprot (segment_command_64_at m lc) AND VM_PROT_EXECUTE \<noteq> 0) lcs)"

definition segment_protections :: "u64 \<Rightarrow> segment_command_64 \<Rightarrow> prot_log" where
  "segment_protections slide seg =
     [(seg_vmaddr seg + slide, seg_vmsize seg, PROT_READ OR PROT_WRITE OR PROT_EXEC),
      (seg_vmaddr seg + slide, seg_vmsize seg, native_prot_from_macho (seg_initprot seg))]"

lemma gate_patch_commands_log:
  "gate_patch_commands mmap munmap page dispatcher slide m lcs (w, log) = (Some n, w', log') \<Longrightarrow>
     log' = log @ concat (map (segment_protections slide) (executable_segments m lcs))"
proof (induction lcs arbitrary: w log n)
  case (Cons lc lcs)
  show ?case using Cons.prems
    by (auto simp: Let_def executable_segments_def segment_protections_def comp_def
        split: if_splits option.splits prod.splits dest!: Cons.IH)
qed (simp add: executable_segments_def)

text \<open>
  C20.  When patching an image succeeds, every executable segment, in the order of the load commands,
  was made writable and then given the protection its segment command asks for, and no other
  protection was changed.
\<close>

theorem syscall_gate_patch_protections:
  assumes "syscall_gate_patch mmap munmap page dispatcher mh slide m lr w = (Some n, lr', w', log)" and "mh \<noteq> 0"
  shows "log = concat (map (segment_protections slide) (executable_segments m (load_command_addrs m mh)))"
  using assms gate_patch_commands_log
  by (fastforce simp: syscall_gate_patch_def Let_def split: prod.splits option.splits)

text \<open>An image with one executable segment and no section.\<close>

definition one_segment_image :: memory where
  "one_segment_image = sparse [(0x1010, 1), (0x1014, 72), (0x1020, 0x19), (0x1024, 72),
     (0x1039, 0x40), (0x1041, 0x80), (0x1058, 5), (0x105C, 5)]"

theorem syscall_gate_patch_protections_witness:
  "snd (snd (snd (syscall_gate_patch full_mmap full_munmap 0x1000 0x7F000000 0x1000 0x100000 one_segment_image
      \<lparr>pool_base = 0, pool_size = 0, pool_used = 0\<rparr> two_word_patcher))) =
    [(0x104000, 0x8000, 7), (0x104000, 0x8000, 5)]"
proof -
  let ?r = "syscall_gate_patch full_mmap full_munmap 0x1000 0x7F000000 0x1000 0x100000 one_segment_image
      \<lparr>pool_base = 0, pool_size = 0, pool_used = 0\<rparr> two_word_patcher"
  have "fst ?r = Some 0" by code_simp
  then have "?r = (Some 0, fst (snd ?r), fst (snd (snd ?r)), snd (snd (snd ?r)))" by (metis prod.collapse)
  from syscall_gate_patch_protections [OF this]
  have "snd (snd (snd ?r)) =
    concat (map (segment_protections 0x100000) (executable_segments one_segment_image (load_command_addrs one_segment_image 0x1000)))"
    by simp
  also have "\<dots> = [(0x104000, 0x8000, 7), (0x104000, 0x8000, 5)]" by code_simp
  finally show ?thesis .
qed

end
