(* ===== verification/Gate_Dispatch.thy ===== *)
theory Gate_Dispatch
  imports Guest_Vm Signal_Handlers Gate_Island
begin

text \<open>
  \<open>syscall_gate_dispatch\<close> (\<open>syscall_gate.c\<close>): the calls the gate serves itself, and the four
  range dispatchers it asks for the rest.  The kernel is one parameter \<open>syscall\<close> that takes the
  number and the arguments and returns the result, \<open>errno\<close>, and the new memory and kernel state;
  \<open>fstat\<close> and \<open>sigaction\<close>, whose results come back in structures, are parameters of their
  own.
\<close>

section \<open>Results of stat\<close>

record linux_stat =
  l_dev :: u64
  l_ino :: u64
  l_mode :: u32
  l_nlink :: u32
  l_uid :: u32
  l_gid :: u32
  l_rdev :: u64
  l_size :: u64
  l_blksize :: u32
  l_blocks :: u64
  l_atim :: "u64 \<times> u64"
  l_mtim :: "u64 \<times> u64"
  l_ctim :: "u64 \<times> u64"

record darwin_stat =
  st_dev :: u32
  st_mode :: u16
  st_nlink :: u16
  st_ino :: u64
  st_uid :: u32
  st_gid :: u32
  st_rdev :: u32
  st_atimespec :: "u64 \<times> u64"
  st_mtimespec :: "u64 \<times> u64"
  st_ctimespec :: "u64 \<times> u64"
  st_birthtimespec :: "u64 \<times> u64"
  st_size :: u64
  st_blocks :: u64
  st_blksize :: u32
  st_flags :: u32
  st_gen :: u32

definition linux_to_darwin_stat :: "linux_stat \<Rightarrow> darwin_stat" where
  "linux_to_darwin_stat l =
     \<lparr>st_dev = ucast (l_dev l), st_mode = ucast (l_mode l), st_nlink = ucast (l_nlink l), st_ino = l_ino l,
      st_uid = l_uid l, st_gid = l_gid l, st_rdev = ucast (l_rdev l), st_atimespec = l_atim l,
      st_mtimespec = l_mtim l, st_ctimespec = l_ctim l, st_birthtimespec = l_ctim l, st_size = l_size l,
      st_blocks = l_blocks l, st_blksize = l_blksize l, st_flags = 0, st_gen = 0\<rparr>"

definition timespec_bytes :: "u64 \<times> u64 \<Rightarrow> u8 list" where
  "timespec_bytes t = le_bytes 8 (fst t) @ le_bytes 8 (snd t)"

text \<open>The 144 bytes of \<open>struct darwin_stat\<close>.\<close>

definition darwin_stat_bytes :: "darwin_stat \<Rightarrow> u8 list" where
  "darwin_stat_bytes s =
     le_bytes 4 (st_dev s) @ le_bytes 2 (st_mode s) @ le_bytes 2 (st_nlink s) @ le_bytes 8 (st_ino s) @
     le_bytes 4 (st_uid s) @ le_bytes 4 (st_gid s) @ le_bytes 4 (st_rdev s) @ le_bytes 4 (0 :: u32) @
     timespec_bytes (st_atimespec s) @ timespec_bytes (st_mtimespec s) @ timespec_bytes (st_ctimespec s) @
     timespec_bytes (st_birthtimespec s) @ le_bytes 8 (st_size s) @ le_bytes 8 (st_blocks s) @
     le_bytes 4 (st_blksize s) @ le_bytes 4 (st_flags s) @ le_bytes 4 (st_gen s) @ le_bytes 4 (0 :: u32) @
     replicate 16 0"

lemma darwin_stat_bytes_length [simp]: "length (darwin_stat_bytes s) = 144"
  by (simp add: darwin_stat_bytes_def timespec_bytes_def)

section \<open>Flags of mmap\<close>

abbreviation (input) DARWIN_MAP_SHARED :: u32 where "DARWIN_MAP_SHARED \<equiv> 0x0001"
abbreviation (input) DARWIN_MAP_PRIVATE :: u32 where "DARWIN_MAP_PRIVATE \<equiv> 0x0002"
abbreviation (input) DARWIN_MAP_FIXED :: u32 where "DARWIN_MAP_FIXED \<equiv> 0x0010"
abbreviation (input) DARWIN_MAP_ANON :: u32 where "DARWIN_MAP_ANON \<equiv> 0x1000"
abbreviation (input) MAP_SHARED :: u32 where "MAP_SHARED \<equiv> 1"
abbreviation (input) MAP_PRIVATE :: u32 where "MAP_PRIVATE \<equiv> 2"

definition translate_mmap_flags :: "u32 \<Rightarrow> u32" where
  "translate_mmap_flags darwin_flags =
     translate_bits [(DARWIN_MAP_SHARED, MAP_SHARED), (DARWIN_MAP_PRIVATE, MAP_PRIVATE),
       (DARWIN_MAP_FIXED, MAP_FIXED), (DARWIN_MAP_ANON, MAP_ANONYMOUS)] darwin_flags 0"

section \<open>Writing without SIGPIPE\<close>

type_synonym 'k syscall = "int \<Rightarrow> u64 list \<Rightarrow> memory \<times> 'k \<Rightarrow> (int \<times> int) \<times> memory \<times> 'k"
type_synonym 'k sigaction = "int \<Rightarrow> linux_sigaction option \<Rightarrow> memory \<times> 'k \<Rightarrow> (int \<times> int \<times> linux_sigaction) \<times> memory \<times> 'k"

definition write_syscall_with_sigpipe_guard ::
  "'k syscall \<Rightarrow> 'k sigaction \<Rightarrow> int \<Rightarrow> u64 \<Rightarrow> u64 \<Rightarrow> u64 \<Rightarrow> memory \<times> 'k \<Rightarrow> (int \<times> int) \<times> memory \<times> 'k" where
  "write_syscall_with_sigpipe_guard syscall sigaction number fd buffer n k =
     (case sigaction SIGPIPE (Some \<lparr>la_handler = SIG_IGN, la_mask = 0, la_flags = 0\<rparr>) k of
        ((changed, _, old_action), k1) \<Rightarrow>
          (case syscall number [fd, buffer, n] k1 of
             (result, k2) \<Rightarrow>
               (result, if changed = 0 \<and> la_handler old_action \<noteq> SIG_DFL
                        then snd (sigaction SIGPIPE (Some old_action) k2) else k2)))"

section \<open>The dispatcher\<close>

abbreviation (input) SYS_openat :: int where "SYS_openat \<equiv> 56"
abbreviation (input) SYS_close :: int where "SYS_close \<equiv> 57"
abbreviation (input) SYS_lseek :: int where "SYS_lseek \<equiv> 62"
abbreviation (input) SYS_read :: int where "SYS_read \<equiv> 63"
abbreviation (input) SYS_write :: int where "SYS_write \<equiv> 64"
abbreviation (input) SYS_munmap :: int where "SYS_munmap \<equiv> 215"
abbreviation (input) SYS_mmap :: int where "SYS_mmap \<equiv> 222"
abbreviation (input) SYS_mprotect :: int where "SYS_mprotect \<equiv> 226"
abbreviation (input) AT_FDCWD :: u64 where "AT_FDCWD \<equiv> -100"

text \<open>An \<open>int\<close> argument in a register, as the kernel receives it.\<close>

definition int_reg :: "gate_state \<Rightarrow> nat \<Rightarrow> u64" where
  "int_reg s i = word_of_int (int_arg s i)"

definition kernel_mmap :: "'k syscall \<Rightarrow> (memory \<times> 'k) sys_mmap" where
  "kernel_mmap syscall addr len prot flags fd off k =
     syscall SYS_mmap [addr, len, ucast prot, ucast flags, word_of_int (sint fd), off] k"

definition kernel_munmap :: "'k syscall \<Rightarrow> (memory \<times> 'k) sys_munmap" where
  "kernel_munmap syscall addr len k = syscall SYS_munmap [addr, len] k"

text \<open>The two calls of \<open>guest_vm_dispatch.c\<close>.\<close>

definition machgate_dispatch_darwin_mmap ::
  "'k syscall \<Rightarrow> u64 \<Rightarrow> u64 \<Rightarrow> u32 \<Rightarrow> u32 \<Rightarrow> u32 \<Rightarrow> u64 \<Rightarrow>
     guest_vm_entry list \<times> memory \<times> 'k \<Rightarrow> (int \<times> int) \<times> guest_vm_entry list \<times> memory \<times> 'k" where
  "machgate_dispatch_darwin_mmap syscall = machgate_darwin_mmap (kernel_mmap syscall)"

definition machgate_dispatch_darwin_munmap ::
  "'k syscall \<Rightarrow> u64 \<Rightarrow> u64 \<Rightarrow>
     guest_vm_entry list \<times> memory \<times> 'k \<Rightarrow> (int \<times> int) \<times> guest_vm_entry list \<times> memory \<times> 'k" where
  "machgate_dispatch_darwin_munmap syscall = machgate_darwin_munmap (kernel_munmap syscall)"

text \<open>What the gate works on, and how a dispatch ends.\<close>

type_synonym 'k gate_world = "guest_vm_entry list \<times> memory \<times> 'k"

datatype 'k dispatched = Returned gate_state "'k gate_world" | Exited int | Replaced

text \<open>A range dispatcher says whether the number was one of its own.\<close>

type_synonym 'k range_dispatch = "gate_state \<times> 'k gate_world \<Rightarrow> bool \<times> 'k dispatched"

fun ask_ranges :: "'k range_dispatch list \<Rightarrow> gate_state \<times> 'k gate_world \<Rightarrow> bool \<times> 'k dispatched" where
  "ask_ranges [] sw = (False, Returned (fst sw) (snd sw))"
| "ask_ranges (d # ds) sw =
     (case d sw of
        (False, Returned state' w') \<Rightarrow> ask_ranges ds (state', w')
      | (_, outcome) \<Rightarrow> (True, outcome))"

definition syscall_gate_dispatch ::
  "'k syscall \<Rightarrow> 'k sigaction \<Rightarrow> (int \<Rightarrow> memory \<times> 'k \<Rightarrow> (int \<times> int \<times> linux_stat) \<times> memory \<times> 'k) \<Rightarrow>
     'k range_dispatch list \<Rightarrow> gate_state \<Rightarrow> 'k gate_world \<Rightarrow> 'k dispatched" where
  "syscall_gate_dispatch syscall sigaction fstat ranges state w =
     (let (t, k) = w;
          finish = (\<lambda>(r, k'). Returned (finish_syscall_result_gate (snd r) (fst r) state) (t, k'));
          finish_vm = (\<lambda>(r, w'). Returned (finish_syscall_result_gate (snd r) (fst r) state) w');
          number = g_x state 16
      in if number = 1 then Exited (int_arg state 0)
         else if number = 3 then finish (syscall SYS_read [int_reg state 0, g_x state 1, g_x state 2] k)
         else if number = 4
           then finish (write_syscall_with_sigpipe_guard syscall sigaction SYS_write (int_reg state 0) (g_x state 1) (g_x state 2) k)
         else if number = 5
           then finish (syscall SYS_openat [AT_FDCWD, g_x state 0,
             word_of_int (sint (translate_open_flags_gate (ucast (g_x state 1)))), ucast (ucast (g_x state 2) :: u32)] k)
         else if number = 6 then finish (syscall SYS_close [int_reg state 0] k)
         else if number = 73
           then finish_vm (machgate_dispatch_darwin_munmap syscall (g_x state 0) (g_x state 1) w)
         else if number = 74 then finish (syscall SYS_mprotect [g_x state 0, g_x state 1, int_reg state 2] k)
         else if number = 189
           then (case fstat (int_arg state 0) k of
             ((result, err, linux_stat), m', k') \<Rightarrow>
               if result < 0 then Returned (set_failure (errno_or_eio err) state) (t, m', k')
               else Returned (set_success 0 state)
                 (t, mem_write m' (g_x state 1) (darwin_stat_bytes (linux_to_darwin_stat linux_stat)), k'))
         else if number = 197
           then finish_vm (machgate_dispatch_darwin_mmap syscall (g_x state 0) (g_x state 1) (ucast (g_x state 2))
             (translate_mmap_flags (ucast (g_x state 3))) (ucast (g_x state 4)) (g_x state 5) w)
         else if number = 199 then finish (syscall SYS_lseek [int_reg state 0, g_x state 1, int_reg state 2] k)
         else (case ask_ranges ranges (state, w) of
           (False, Returned state' w') \<Rightarrow> Returned (set_failure DARWIN_ENOSYS state') w'
         | (_, outcome) \<Rightarrow> outcome))"

section \<open>What a dispatch may change\<close>

text \<open>The numbers of the calls the gate serves itself and returns from.\<close>

definition gate_calls :: "u64 set" where
  "gate_calls = {3, 4, 5, 6, 73, 74, 189, 197, 199}"

lemma finish_gate_cases: "\<exists>v. finish_syscall_result_gate err r s \<in> {set_success v s, set_failure (errno_or_eio err) s}"
  by (auto simp: finish_syscall_result_gate_def)

lemma gate_dispatch_result:
  assumes "g_x state 16 \<in> gate_calls"
  obtains v e w' where "syscall_gate_dispatch syscall sigaction fstat ranges state w \<in>
    {Returned (set_success v state) w', Returned (set_failure (errno_or_eio e) state) w'}"
proof -
  have "\<exists>v e w'. syscall_gate_dispatch syscall sigaction fstat ranges state w \<in>
    {Returned (set_success v state) w', Returned (set_failure (errno_or_eio e) state) w'}"
    using assms unfolding gate_calls_def syscall_gate_dispatch_def finish_syscall_result_gate_def
    by (elim insertE emptyE) (simp_all add: Let_def split: prod.splits, (metis | blast)+)
  then show ?thesis using that by blast
qed

definition same_but_result :: "gate_state \<Rightarrow> gate_state \<Rightarrow> bool" where
  "same_but_result s s' \<longleftrightarrow>
     (\<forall>i. i \<noteq> 0 \<longrightarrow> g_x s' i = g_x s i) \<and> g_x30 s' = g_x30 s \<and> g_pc s' = g_pc s \<and>
     g_nzcv s' AND NOT DARWIN_CARRY = g_nzcv s AND NOT DARWIN_CARRY"

lemma same_but_result_set [simp]:
  "same_but_result s (set_success v s)" "same_but_result s (set_failure e s)"
  by (auto simp: same_but_result_def set_success_def set_failure_def bit_eq_iff bit_simps)


definition failing_syscall :: "unit syscall" where "failing_syscall n args k = ((-1, 5), k)"

definition null_sigaction :: "unit sigaction" where
  "null_sigaction sig act k = ((0, 0, \<lparr>la_handler = SIG_DFL, la_mask = 0, la_flags = 0\<rparr>), k)"


section \<open>The disposition of SIGPIPE\<close>

lemma posix_sigaction_install:
  assumes "posix_sigaction sigaction disp"
  obtains k' where "sigaction SIGPIPE (Some a) k = ((0, 0, disp k SIGPIPE), k')"
    and "disp k' = (disp k)(SIGPIPE := a\<lparr>la_mask := la_mask a AND NOT unblockable_linux\<rparr>)"
proof -
  have "SIGPIPE \<noteq> 9 \<and> SIGPIPE \<noteq> 19" by simp
  then show ?thesis using assms that unfolding posix_sigaction_def by blast
qed

text \<open>
  C22.  A guarded write runs its system call with \<open>SIGPIPE\<close> ignored and returns that call's
  result.  Afterwards the dispositions are as before, unless \<open>SIGPIPE\<close> had its default
  disposition: then it stays ignored.
\<close>

theorem sigpipe_guard_dispositions:
  assumes "posix_sigaction sigaction disp" and "\<And>n args k. disp (snd (syscall n args k)) = disp k"
    and "la_mask (disp k SIGPIPE) AND unblockable_linux = 0"
    and "write_syscall_with_sigpipe_guard syscall sigaction number fd buffer n k = (result, k')"
  shows "(\<exists>k1. disp k1 SIGPIPE = \<lparr>la_handler = SIG_IGN, la_mask = 0, la_flags = 0\<rparr> \<and>
      result = fst (syscall number [fd, buffer, n] k1)) \<and>
    disp k' = (if la_handler (disp k SIGPIPE) = SIG_DFL
      then (disp k)(SIGPIPE := \<lparr>la_handler = SIG_IGN, la_mask = 0, la_flags = 0\<rparr>) else disp k)"
proof -
  let ?ign = "\<lparr>la_handler = SIG_IGN, la_mask = 0, la_flags = 0\<rparr>" and ?old = "disp k SIGPIPE"
  obtain k1 where k1: "sigaction SIGPIPE (Some ?ign) k = ((0, 0, ?old), k1)" "disp k1 = (disp k)(SIGPIPE := ?ign)"
    by (rule posix_sigaction_install [OF assms(1), of "?ign" k]) simp
  obtain r k2 where r: "syscall number [fd, buffer, n] k1 = (r, k2)"
    by (cases "syscall number [fd, buffer, n] k1")
  have d2: "disp k2 = disp k1" using assms(2) [of number "[fd, buffer, n]" k1] r by simp
  obtain k3 where k3: "sigaction SIGPIPE (Some ?old) k2 = ((0, 0, disp k2 SIGPIPE), k3)"
    "disp k3 = (disp k2)(SIGPIPE := ?old\<lparr>la_mask := la_mask ?old AND NOT unblockable_linux\<rparr>)"
    by (rule posix_sigaction_install [OF assms(1)])
  have "la_mask ?old AND NOT unblockable_linux = la_mask ?old"
    using assms(3) by (auto simp: bit_eq_iff bit_simps)
  then have "disp k3 = disp k" using k3(2) d2 k1(2) by simp
  then have "result = r \<and> disp k' = (if la_handler ?old = SIG_DFL then (disp k)(SIGPIPE := ?ign) else disp k)"
    using assms(4) k1 r d2 k3(1) by (auto simp: write_syscall_with_sigpipe_guard_def split: if_splits)
  then show ?thesis using k1(2) r by (intro conjI exI [of _ k1]) simp_all
qed

definition pipe_sigaction :: "(int \<Rightarrow> linux_sigaction) sigaction" where
  "pipe_sigaction sig act k =
     (case dispositions_kernel sig act (snd k) of (r, d) \<Rightarrow> (r, fst k, d))"

theorem sigpipe_guard_dispositions_witness:
  "la_handler (snd (snd (write_syscall_with_sigpipe_guard (\<lambda>n args k. ((-1, 32), k)) pipe_sigaction 64 1 0x1000 5
     (\<lambda>_. 0, \<lambda>_. \<lparr>la_handler = SIG_DFL, la_mask = 0, la_flags = 0\<rparr>))) SIGPIPE) = SIG_IGN"
proof -
  let ?k = "(\<lambda>_. 0 :: u8, \<lambda>_. \<lparr>la_handler = SIG_DFL, la_mask = 0, la_flags = 0\<rparr>)"
  let ?g = "write_syscall_with_sigpipe_guard (\<lambda>n args k. ((-1, 32), k)) pipe_sigaction 64 1 0x1000 5 ?k"
  have "posix_sigaction pipe_sigaction snd"
    by (simp add: posix_sigaction_def pipe_sigaction_def dispositions_kernel_def)
  from sigpipe_guard_dispositions [OF this, of "\<lambda>n args k. ((-1, 32), k)" ?k 64 1 "0x1000" 5 "fst ?g" "snd ?g"]
  show ?thesis by simp
qed

end
