(* ===== verification/Guest_Call.thy ===== *)
theory Guest_Call
  imports Syscall_Gate Gate_Dispatch
begin

text \<open>
  What the components of the gate share when they are put together: code read from memory, the
  registers an island restores, the flags, and the native dispatcher as the model describes it.
\<close>

section \<open>Code, registers and flags\<close>

lemma code_at_words: "code_at (rd32 m) a ws \<longleftrightarrow> words_at m a ws"
proof (induction ws arbitrary: a)
  case Nil
  then show ?case by (simp add: words_at_def mem_read_def)
next
  case (Cons v ws)
  have "mem_read (4 + 4 * length ws) m a = mem_read 4 m a @ mem_read (4 * length ws) m (a + 4)"
    by (rule nth_equalityI) (auto simp: mem_read_def nth_append algebra_simps)
  moreover have "le_bytes 4 (rd32 m a) = mem_read 4 m a"
    using le_bytes_val [of "mem_read 4 m a", where ?'a = 32] by (simp add: rd32_def)
  then have "rd32 m a = v \<longleftrightarrow> mem_read 4 m a = le_bytes 4 v"
    by (auto simp: rd32_def le_val_bytes)
  ultimately show ?case using Cons [of "a + 4"] by (simp add: words_at_def)
qed

lemma gate_register_cases:
  assumes "r < (31 :: u32)" and "r \<noteq> 30" and "r \<notin> callee_saved"
  shows "\<exists>i < 19. r = of_nat i"
proof (intro exI conjI)
  show "r = of_nat (unat r)" by simp
  have lt: "unat r < 31" using assms(1) by (simp add: word_less_nat_alt)
  have "unat r \<noteq> n" if "n \<in> {19, 20, 21, 22, 23, 24, 25, 26, 27, 28, 29, 30}" for n
  proof
    assume "unat r = n"
    then have "r = of_nat n" by auto
    then show False using assms(2,3) that unfolding callee_saved_def by (elim insertE emptyE) simp_all
  qed
  from this [of 19] this [of 20] this [of 21] this [of 22] this [of 23] this [of 24] this [of 25] this [of 26]
    this [of 27] this [of 28] this [of 29] this [of 30]
  show "unat r < 19" using lt by simp presburger
qed

lemma nzcv_restored:
  fixes f :: "4 word"
  assumes "v AND NOT DARWIN_CARRY = push_bit 28 (ucast f) AND NOT DARWIN_CARRY"
  shows "ucast (drop_bit 28 v) AND 13 = f AND (13 :: 4 word)" and "bit (ucast (drop_bit 28 v) :: 4 word) 1 = bit v 29"
proof -
  have b: "bit v n \<longleftrightarrow> bit (push_bit 28 (ucast f) :: u64) n" if "n \<noteq> 29" "n < 64" for n
  proof -
    have "bit (v AND NOT DARWIN_CARRY) n = bit (push_bit 28 (ucast f) AND NOT DARWIN_CARRY :: u64) n" using assms by simp
    moreover have "\<not> bit DARWIN_CARRY n"
    proof -
      have "DARWIN_CARRY = push_bit 29 1" by simp
      then show ?thesis using that by (simp only: bit_simps) auto
    qed
    ultimately show ?thesis using that by (simp add: bit_simps)
  qed
  show "ucast (drop_bit 28 v) AND 13 = f AND (13 :: 4 word)"
  proof (rule bit_word_eqI)
    fix n assume n: "n < LENGTH(4)"
    then have "n = 0 \<or> n = 1 \<or> n = 2 \<or> n = 3" by auto
    then show "bit (ucast (drop_bit 28 v) AND 13 :: 4 word) n = bit (f AND 13) n"
      using b [of 28] b [of 30] b [of 31] by (elim disjE) (simp_all add: bit_simps)
  qed
  show "bit (ucast (drop_bit 28 v) :: 4 word) 1 = bit v 29" by (simp add: bit_simps)
qed

section \<open>A system call, seen by the guest\<close>

text \<open>
  The native dispatcher, called with a structure: it returns as a native routine does, and what it
  leaves in the structure is what the model of the dispatcher makes of what was there.
\<close>

definition dispatcher_runs ::
  "(gate_state \<Rightarrow> memory \<Rightarrow> gate_state option) \<Rightarrow> cpu \<Rightarrow> cpu \<Rightarrow> bool" where
  "dispatcher_runs dispatch s1 s2 \<longleftrightarrow>
     host_returns s1 s2 \<and>
     dispatch (gate_state_at (mem s1) (xreg s1 0)) (mem s1) = Some (gate_state_at (mem s2) (xreg s1 0))"

definition gate_returns :: "'k dispatched \<Rightarrow> gate_state option" where
  "gate_returns d = (case d of Returned state w \<Rightarrow> Some state | _ \<Rightarrow> None)"

end
