(* ===== verification/Sockets.thy ===== *)
theory Sockets
  imports Signal_Handlers
begin

text \<open>
  Sockets of the system calls 0 to 99 (\<open>syscall_range_000_099.c\<close>): domains, types, message
  flags, addresses in both directions, and the handlers.  The kernel is a parameter of each handler.
  A local \<open>struct sockaddr_storage\<close> is a list of 128 bytes; a handler that does not
  initialise it takes its contents as an argument.
\<close>

section \<open>Domains, types and flags\<close>

abbreviation (input) AF_UNIX :: int where "AF_UNIX \<equiv> 1"
abbreviation (input) AF_INET :: int where "AF_INET \<equiv> 2"
abbreviation (input) AF_INET6 :: int where "AF_INET6 \<equiv> 10"
abbreviation (input) DARWIN_AF_UNIX :: int where "DARWIN_AF_UNIX \<equiv> 1"
abbreviation (input) DARWIN_AF_INET :: int where "DARWIN_AF_INET \<equiv> 2"
abbreviation (input) DARWIN_AF_INET6 :: int where "DARWIN_AF_INET6 \<equiv> 30"

definition translate_socket_domain :: "int \<Rightarrow> int option" where
  "translate_socket_domain darwin_domain =
     (if darwin_domain = DARWIN_AF_UNIX then Some AF_UNIX
      else if darwin_domain = DARWIN_AF_INET then Some AF_INET
      else if darwin_domain = DARWIN_AF_INET6 then Some AF_INET6
      else None)"

abbreviation (input) DARWIN_SOCK_CLOEXEC :: u32 where "DARWIN_SOCK_CLOEXEC \<equiv> 0x10000000"
abbreviation (input) DARWIN_SOCK_NONBLOCK :: u32 where "DARWIN_SOCK_NONBLOCK \<equiv> 0x20000000"
abbreviation (input) SOCK_CLOEXEC :: u32 where "SOCK_CLOEXEC \<equiv> 0x80000"
abbreviation (input) SOCK_NONBLOCK :: u32 where "SOCK_NONBLOCK \<equiv> 0x800"

definition translate_socket_type :: "u32 \<Rightarrow> u32" where
  "translate_socket_type darwin_type =
     translate_bits [(DARWIN_SOCK_CLOEXEC, SOCK_CLOEXEC), (DARWIN_SOCK_NONBLOCK, SOCK_NONBLOCK)] darwin_type
       (darwin_type AND NOT (DARWIN_SOCK_CLOEXEC OR DARWIN_SOCK_NONBLOCK))"

abbreviation (input) DARWIN_MSG_OOB :: u32 where "DARWIN_MSG_OOB \<equiv> 0x1"
abbreviation (input) DARWIN_MSG_PEEK :: u32 where "DARWIN_MSG_PEEK \<equiv> 0x2"
abbreviation (input) DARWIN_MSG_DONTROUTE :: u32 where "DARWIN_MSG_DONTROUTE \<equiv> 0x4"
abbreviation (input) DARWIN_MSG_TRUNC :: u32 where "DARWIN_MSG_TRUNC \<equiv> 0x10"
abbreviation (input) DARWIN_MSG_CTRUNC :: u32 where "DARWIN_MSG_CTRUNC \<equiv> 0x20"
abbreviation (input) DARWIN_MSG_WAITALL :: u32 where "DARWIN_MSG_WAITALL \<equiv> 0x40"
abbreviation (input) DARWIN_MSG_DONTWAIT :: u32 where "DARWIN_MSG_DONTWAIT \<equiv> 0x80"
abbreviation (input) DARWIN_MSG_NOSIGNAL :: u32 where "DARWIN_MSG_NOSIGNAL \<equiv> 0x80000"
abbreviation (input) MSG_OOB :: u32 where "MSG_OOB \<equiv> 0x1"
abbreviation (input) MSG_PEEK :: u32 where "MSG_PEEK \<equiv> 0x2"
abbreviation (input) MSG_DONTROUTE :: u32 where "MSG_DONTROUTE \<equiv> 0x4"
abbreviation (input) MSG_CTRUNC :: u32 where "MSG_CTRUNC \<equiv> 0x8"
abbreviation (input) MSG_TRUNC :: u32 where "MSG_TRUNC \<equiv> 0x20"
abbreviation (input) MSG_DONTWAIT :: u32 where "MSG_DONTWAIT \<equiv> 0x40"
abbreviation (input) MSG_WAITALL :: u32 where "MSG_WAITALL \<equiv> 0x100"
abbreviation (input) MSG_NOSIGNAL :: u32 where "MSG_NOSIGNAL \<equiv> 0x4000"

definition translate_send_flags :: "u32 \<Rightarrow> u32" where
  "translate_send_flags darwin_flags =
     translate_bits [(DARWIN_MSG_OOB, MSG_OOB), (DARWIN_MSG_DONTROUTE, MSG_DONTROUTE),
       (DARWIN_MSG_DONTWAIT, MSG_DONTWAIT), (DARWIN_MSG_NOSIGNAL, MSG_NOSIGNAL)] darwin_flags 0"

definition translate_recv_flags :: "u32 \<Rightarrow> u32" where
  "translate_recv_flags darwin_flags =
     translate_bits [(DARWIN_MSG_OOB, MSG_OOB), (DARWIN_MSG_PEEK, MSG_PEEK), (DARWIN_MSG_DONTROUTE, MSG_DONTROUTE),
       (DARWIN_MSG_TRUNC, MSG_TRUNC), (DARWIN_MSG_CTRUNC, MSG_CTRUNC), (DARWIN_MSG_WAITALL, MSG_WAITALL),
       (DARWIN_MSG_DONTWAIT, MSG_DONTWAIT)] darwin_flags 0"

section \<open>Addresses\<close>

abbreviation (input) SOCKADDR_STORAGE_SIZE :: nat where "SOCKADDR_STORAGE_SIZE \<equiv> 128"
abbreviation (input) SUN_PATH_SIZE :: nat where "SUN_PATH_SIZE \<equiv> 108"

text \<open>Fields written at the front of zeroed storage: the Linux family, then bytes of the Darwin address.\<close>

definition linux_storage :: "u16 \<Rightarrow> u8 list \<Rightarrow> u8 list" where
  "linux_storage family bs =
     (let front = le_bytes 2 family @ bs
      in front @ replicate (SOCKADDR_STORAGE_SIZE - length front) 0)"

definition translate_sockaddr :: "memory \<Rightarrow> u64 \<Rightarrow> u64 \<Rightarrow> u8 list \<Rightarrow> int + u8 list \<times> u32" where
  "translate_sockaddr m darwin_addr darwin_len linux_addr =
     (if darwin_addr = 0 then Inr (linux_addr, 0)
      else if darwin_len < 2 \<or> darwin_len > of_nat SOCKADDR_STORAGE_SIZE then Inl EINVAL
      else let raw = mem_read (unat darwin_len) m darwin_addr;
               family = uint (raw ! 1)
           in if translate_socket_domain family = None then Inl EAFNOSUPPORT
              else if family = DARWIN_AF_UNIX
                then if darwin_len - 2 > of_nat SUN_PATH_SIZE then Inl ENAMETOOLONG
                  else Inr (linux_storage 1 (drop 2 raw), 2 + ucast (darwin_len - 2))
              else if family = DARWIN_AF_INET
                then if darwin_len < 16 then Inl EINVAL
                  else Inr (linux_storage 2 (take 2 (drop 2 raw) @ take 4 (drop 4 raw)), 16)
              else if darwin_len < 28 then Inl EINVAL
                else Inr (linux_storage 10 (take 2 (drop 2 raw) @ take 4 (drop 4 raw) @ take 16 (drop 8 raw) @ take 4 (drop 24 raw)), 28))"

definition linux_sockaddr_to_darwin :: "u8 list \<Rightarrow> u32 \<Rightarrow> u64 \<Rightarrow> u32 option \<Rightarrow> memory \<Rightarrow> (int + u32 option) \<times> memory" where
  "linux_sockaddr_to_darwin linux_addr linux_len darwin_addr darwin_len m =
     (case darwin_len of
        None \<Rightarrow> (Inr None, m)
      | Some capacity \<Rightarrow>
          if darwin_addr = 0 then (Inr darwin_len, m)
          else let m1 = mem_write m darwin_addr (replicate (unat capacity) 0);
                   family = uint (le_val (take 2 linux_addr) :: u16)
               in if family = AF_UNIX
                  then let path_len = (if linux_len > 2 then linux_len - 2 else 0)
                    in if path_len + 2 > capacity \<or> path_len + 2 > 255 then (Inl EINVAL, m1)
                       else (Inr (Some (path_len + 2)),
                             mem_write m1 darwin_addr ([ucast (path_len + 2), 1] @ take (unat path_len) (drop 2 linux_addr)))
                  else if family = AF_INET
                  then if capacity < 16 then (Inl EINVAL, m1)
                    else (Inr (Some 16), mem_write m1 darwin_addr ([16, 2] @ take 2 (drop 2 linux_addr) @ take 4 (drop 4 linux_addr)))
                  else if family = AF_INET6
                  then if capacity < 28 then (Inl EINVAL, m1)
                    else (Inr (Some 28), mem_write m1 darwin_addr
                      ([28, 30] @ take 2 (drop 2 linux_addr) @ take 4 (drop 4 linux_addr) @ take 16 (drop 8 linux_addr) @ take 4 (drop 24 linux_addr)))
                  else (Inl EAFNOSUPPORT, m1))"

section \<open>Handlers\<close>

text \<open>
  The calls that fill in an address take the descriptor, whether there is a buffer, and what is in
  it, and return the result with \<open>errno\<close>, the buffer and its length.
\<close>

type_synonym 'k name_call = "int \<Rightarrow> bool \<Rightarrow> u8 list \<Rightarrow> 'k \<Rightarrow> (int \<times> int) \<times> (u8 list \<times> u32) \<times> 'k"

definition handle_socket_name_result ::
  "gate_state \<Rightarrow> int \<times> int \<Rightarrow> u8 list \<Rightarrow> u32 \<Rightarrow> memory \<Rightarrow> gate_state \<times> memory" where
  "handle_socket_name_result state r linux_name linux_name_len m =
     (if fst r < 0 then (finish_syscall_result_000 (snd r) (fst r) state, m)
      else if g_x state 1 \<noteq> 0 \<and> g_x state 2 \<noteq> 0
      then case linux_sockaddr_to_darwin linux_name linux_name_len (g_x state 1) (Some (rd32 m (g_x state 2))) m of
          (Inl err, m') \<Rightarrow> (set_failure (darwin_errno_from_linux_000 err) state, m')
        | (Inr darwin_len, m') \<Rightarrow> (set_success (word_of_int (fst r)) state, wr32 m' (g_x state 2) (the darwin_len))
      else (set_success (word_of_int (fst r)) state, m))"

definition handle_accept :: "'k name_call \<Rightarrow> u8 list \<Rightarrow> gate_state \<Rightarrow> memory \<times> 'k \<Rightarrow> gate_state \<times> memory \<times> 'k" where
  "handle_accept sys_accept linux_name state w =
     (case sys_accept (int_arg state 0) (g_x state 1 \<noteq> 0) linux_name (snd w) of
        (r, (name, len), k') \<Rightarrow> (case handle_socket_name_result state r name len (fst w) of (state', m') \<Rightarrow> (state', m', k')))"

definition handle_getpeername :: "'k name_call \<Rightarrow> u8 list \<Rightarrow> gate_state \<Rightarrow> memory \<times> 'k \<Rightarrow> gate_state \<times> memory \<times> 'k" where
  "handle_getpeername sys_getpeername linux_name state w =
     (case sys_getpeername (int_arg state 0) True linux_name (snd w) of
        (r, (name, len), k') \<Rightarrow> (case handle_socket_name_result state r name len (fst w) of (state', m') \<Rightarrow> (state', m', k')))"

definition handle_getsockname :: "'k name_call \<Rightarrow> u8 list \<Rightarrow> gate_state \<Rightarrow> memory \<times> 'k \<Rightarrow> gate_state \<times> memory \<times> 'k" where
  "handle_getsockname sys_getsockname linux_name state w =
     (case sys_getsockname (int_arg state 0) True linux_name (snd w) of
        (r, (name, len), k') \<Rightarrow> (case handle_socket_name_result state r name len (fst w) of (state', m') \<Rightarrow> (state', m', k')))"

definition handle_socket ::
  "(int \<Rightarrow> u32 \<Rightarrow> int \<Rightarrow> 'k \<Rightarrow> (int \<times> int) \<times> 'k) \<Rightarrow> gate_state \<Rightarrow> 'k \<Rightarrow> gate_state \<times> 'k" where
  "handle_socket sys_socket state k =
     (case translate_socket_domain (int_arg state 0) of
        None \<Rightarrow> (set_failure DARWIN_EAFNOSUPPORT state, k)
      | Some linux_domain \<Rightarrow>
          (case sys_socket linux_domain (translate_socket_type (ucast (g_x state 1))) (int_arg state 2) k of
             (r, k') \<Rightarrow> (finish_syscall_result_000 (snd r) (fst r) state, k')))"

definition handle_connect ::
  "(int \<Rightarrow> u8 list \<Rightarrow> u32 \<Rightarrow> 'k \<Rightarrow> (int \<times> int) \<times> 'k) \<Rightarrow> u8 list \<Rightarrow> gate_state \<Rightarrow> memory \<Rightarrow> 'k \<Rightarrow> gate_state \<times> 'k" where
  "handle_connect sys_connect linux_name state m k =
     (case translate_sockaddr m (g_x state 1) (g_x state 2) linux_name of
        Inl err \<Rightarrow> (set_failure (darwin_errno_from_linux_000 err) state, k)
      | Inr (name, len) \<Rightarrow> (case sys_connect (int_arg state 0) name len k of
          (r, k') \<Rightarrow> (finish_syscall_result_000 (snd r) (fst r) state, k')))"

text \<open>\<open>recvfrom\<close> also fills the guest's buffer, so the kernel's call has the memory.\<close>

definition handle_recvfrom ::
  "(int \<Rightarrow> u64 \<Rightarrow> u64 \<Rightarrow> u32 \<Rightarrow> bool \<Rightarrow> u8 list \<Rightarrow> memory \<times> 'k \<Rightarrow> (int \<times> int) \<times> (u8 list \<times> u32) \<times> memory \<times> 'k) \<Rightarrow>
     u8 list \<Rightarrow> gate_state \<Rightarrow> memory \<times> 'k \<Rightarrow> gate_state \<times> memory \<times> 'k" where
  "handle_recvfrom sys_recvfrom linux_name state w =
     (case sys_recvfrom (int_arg state 0) (g_x state 1) (g_x state 2) (translate_recv_flags (ucast (g_x state 3)))
             (g_x state 4 \<noteq> 0) linux_name w of
        (r, (name, len), m1, k') \<Rightarrow>
          if fst r < 0 then (finish_syscall_result_000 (snd r) (fst r) state, m1, k')
          else if g_x state 4 \<noteq> 0 \<and> g_x state 5 \<noteq> 0
          then case linux_sockaddr_to_darwin name len (g_x state 4) (Some (rd32 m1 (g_x state 5))) m1 of
              (Inl err, m2) \<Rightarrow> (set_failure (darwin_errno_from_linux_000 err) state, m2, k')
            | (Inr darwin_len, m2) \<Rightarrow> (set_success (word_of_int (fst r)) state, wr32 m2 (g_x state 5) (the darwin_len), k')
          else (set_success (word_of_int (fst r)) state, m1, k'))"

section \<open>Messages\<close>

record darwin_msghdr =
  dm_name :: u64
  dm_namelen :: u32
  dm_iov :: u64
  dm_iovlen :: u32
  dm_control :: u64
  dm_controllen :: u32
  dm_flags :: u32

definition darwin_msghdr_at :: "memory \<Rightarrow> u64 \<Rightarrow> darwin_msghdr" where
  "darwin_msghdr_at m a =
     \<lparr>dm_name = rd64 m a, dm_namelen = rd32 m (a + 8), dm_iov = rd64 m (a + 16), dm_iovlen = rd32 m (a + 24),
      dm_control = rd64 m (a + 32), dm_controllen = rd32 m (a + 40), dm_flags = rd32 m (a + 44)\<rparr>"

text \<open>The Linux header, with the address it points to.\<close>

record linux_msghdr =
  lm_name :: "u8 list option"
  lm_namelen :: u32
  lm_iov :: u64
  lm_iovlen :: u64
  lm_flags :: u32

definition prepare_linux_msghdr :: "memory \<Rightarrow> u64 \<Rightarrow> u8 list \<Rightarrow> int + linux_msghdr" where
  "prepare_linux_msghdr m darwin_msg linux_name =
     (let d = darwin_msghdr_at m darwin_msg;
          l = \<lparr>lm_name = None, lm_namelen = 0, lm_iov = dm_iov d, lm_iovlen = word_of_int (sint (dm_iovlen d)), lm_flags = dm_flags d\<rparr>
      in if darwin_msg = 0 then Inl EFAULT
         else if dm_control d \<noteq> 0 \<or> dm_controllen d \<noteq> 0 then Inl ENOSYS
         else if dm_name d \<noteq> 0
         then case translate_sockaddr m (dm_name d) (ucast (dm_namelen d)) linux_name of
             Inl err \<Rightarrow> Inl err
           | Inr (name, len) \<Rightarrow> Inr (l\<lparr>lm_name := Some name, lm_namelen := len\<rparr>)
         else Inr l)"

definition handle_sendmsg ::
  "(int \<Rightarrow> linux_msghdr \<Rightarrow> u32 \<Rightarrow> memory \<times> 'k \<Rightarrow> (int \<times> int) \<times> memory \<times> 'k) \<Rightarrow> u8 list \<Rightarrow>
     gate_state \<Rightarrow> memory \<times> 'k \<Rightarrow> gate_state \<times> memory \<times> 'k" where
  "handle_sendmsg sys_sendmsg linux_name state w =
     (case prepare_linux_msghdr (fst w) (g_x state 1) linux_name of
        Inl err \<Rightarrow> (set_failure (darwin_errno_from_linux_000 err) state, w)
      | Inr linux_msg \<Rightarrow> (case sys_sendmsg (int_arg state 0) linux_msg (translate_send_flags (ucast (g_x state 2))) w of
          (r, w') \<Rightarrow> (finish_syscall_result_000 (snd r) (fst r) state, w')))"

definition handle_recvmsg ::
  "(int \<Rightarrow> linux_msghdr \<Rightarrow> u32 \<Rightarrow> memory \<times> 'k \<Rightarrow> (int \<times> int) \<times> linux_msghdr \<times> memory \<times> 'k) \<Rightarrow> u8 list \<Rightarrow>
     gate_state \<Rightarrow> memory \<times> 'k \<Rightarrow> gate_state \<times> memory \<times> 'k" where
  "handle_recvmsg sys_recvmsg linux_name state w =
     (let a = g_x state 1;
          d = darwin_msghdr_at (fst w) a
      in if a = 0 then (set_failure DARWIN_EFAULT state, w)
         else if dm_control d \<noteq> 0 \<or> dm_controllen d \<noteq> 0 then (set_failure DARWIN_ENOSYS state, w)
         else case sys_recvmsg (int_arg state 0)
             \<lparr>lm_name = (if dm_name d \<noteq> 0 then Some linux_name else None),
              lm_namelen = (if dm_name d \<noteq> 0 then of_nat SOCKADDR_STORAGE_SIZE else 0),
              lm_iov = dm_iov d, lm_iovlen = word_of_int (sint (dm_iovlen d)), lm_flags = 0\<rparr>
             (translate_recv_flags (ucast (g_x state 2))) w of
           (r, linux_msg, m1, k') \<Rightarrow>
             if fst r < 0 then (finish_syscall_result_000 (snd r) (fst r) state, m1, k')
             else let m2 = wr32 m1 (a + 44) (lm_flags linux_msg)
               in if dm_name (darwin_msghdr_at m2 a) \<noteq> 0
                  then case linux_sockaddr_to_darwin (case lm_name linux_msg of None \<Rightarrow> linux_name | Some name \<Rightarrow> name)
                         (lm_namelen linux_msg) (dm_name (darwin_msghdr_at m2 a)) (Some (dm_namelen (darwin_msghdr_at m2 a))) m2 of
                      (Inl err, m3) \<Rightarrow> (set_failure (darwin_errno_from_linux_000 err) state, m3, k')
                    | (Inr darwin_len, m3) \<Rightarrow> (set_success (word_of_int (fst r)) state, wr32 m3 (a + 8) (the darwin_len), k')
                  else (set_success (word_of_int (fst r)) state, m2, k'))"

section \<open>An address there and back\<close>

text \<open>What an accepted Darwin address looks like when it comes back.\<close>

definition darwin_canonical :: "u8 list \<Rightarrow> u8 list" where
  "darwin_canonical bs =
     (if bs ! 1 = 1 then of_nat (length bs) # tl bs
      else if bs ! 1 = 2 then 16 # take 7 (tl bs) @ replicate 8 0
      else 28 # take 27 (tl bs))"

lemma darwin_canonical_family:
  assumes "2 \<le> length bs"
  shows "bs ! 1 = 1 \<Longrightarrow> darwin_canonical bs = [of_nat (length bs), 1] @ drop 2 bs"
    and "bs ! 1 = 2 \<Longrightarrow> darwin_canonical bs = [16, 2] @ take 6 (drop 2 bs) @ replicate 8 0"
    and "bs ! 1 = 30 \<Longrightarrow> darwin_canonical bs = [28, 30] @ take 26 (drop 2 bs)"
proof -
  obtain x y zs where "bs = x # y # zs" using assms by (cases bs; cases "tl bs") auto
  then show "bs ! 1 = 1 \<Longrightarrow> darwin_canonical bs = [of_nat (length bs), 1] @ drop 2 bs"
    and "bs ! 1 = 2 \<Longrightarrow> darwin_canonical bs = [16, 2] @ take 6 (drop 2 bs) @ replicate 8 0"
    and "bs ! 1 = 30 \<Longrightarrow> darwin_canonical bs = [28, 30] @ take 26 (drop 2 bs)"
    by (simp_all add: darwin_canonical_def)
qed

lemma mem_write_over:
  assumes "length xs \<le> length zs"
  shows "mem_write (mem_write m a zs) a xs = mem_write m a (xs @ drop (length xs) zs)"
  using assms by (auto simp: mem_write_def Let_def nth_append fun_eq_iff)

lemma linux_storage_parts:
  assumes "length bs \<le> 126"
  shows "le_val (take 2 (linux_storage f bs)) = f" and "i + n \<le> length bs \<Longrightarrow> take n (drop (2 + i) (linux_storage f bs)) = take n (drop i bs)"
proof -
  have "take_bit 16 f = f" using take_bit_length_eq [of f] by simp
  then show "le_val (take 2 (linux_storage f bs)) = f" by (simp add: linux_storage_def memory)
  show "take n (drop (2 + i) (linux_storage f bs)) = take n (drop i bs)" if "i + n \<le> length bs"
    using that by (simp add: linux_storage_def Let_def)
qed

lemma sockaddr_unix_back:
  assumes "bs ! 1 = 1" and "length bs = n" and "2 \<le> n" and "n \<le> 110" and "b \<noteq> 0" and "n \<le> unat cap"
  shows "linux_sockaddr_to_darwin (linux_storage 1 (drop 2 bs)) (of_nat n) b (Some cap) m =
    (Inr (Some (of_nat n)), mem_write m b (darwin_canonical bs @ replicate (unat cap - n) 0))"
proof -
  have un: "unat (of_nat n :: u32) = n" using assms(4) by (simp add: unat_of_nat)
  have pl: "(if of_nat n > (2 :: u32) then of_nat n - 2 else 0) + 2 = (of_nat n :: u32)"
    "(if of_nat n > (2 :: u32) then of_nat n - 2 else 0) = (of_nat (n - 2) :: u32)"
    using assms(3) un by (auto simp: word_less_nat_alt of_nat_diff not_less le_antisym)
  have un2: "unat (of_nat (n - 2) :: u32) = n - 2" using assms(4) by (simp add: unat_of_nat)
  have c: "\<not> (of_nat n :: u32) > cap" "\<not> (of_nat n :: u32) > 255"
    using un assms(4,6) by (simp_all add: word_less_nat_alt)
  have "take (n - 2) (drop 2 (linux_storage 1 (drop 2 bs))) = drop 2 bs"
    using linux_storage_parts(2) [of "drop 2 bs" 0 "n - 2" 1] assms(2-4) by simp
  moreover have "darwin_canonical bs = [of_nat n, 1] @ drop 2 bs" using darwin_canonical_family(1) [of bs] assms(1-3) by simp
  moreover have "Suc (Suc (n - 2)) = n" using assms(3) by simp
  moreover have "ucast (of_nat n :: u32) = (of_nat n :: u8)" using assms(4) by (simp add: unsigned_of_nat take_bit_nat_eq_self)
  ultimately show ?thesis
    unfolding linux_sockaddr_to_darwin_def Let_def option.case pl un2
    using assms(2-6) c linux_storage_parts(1) [of "drop 2 bs" 1]
    by (simp add: mem_write_over)
qed

lemma take_pieces:
  "take 2 (drop 2 xs) @ take 4 (drop 4 xs) = take 6 (drop 2 xs)"
  "take 2 (drop 2 xs) @ take 4 (drop 4 xs) @ take 16 (drop 8 xs) @ take 4 (drop 24 xs) = take 26 (drop 2 xs)"
proof -
  have t: "take k (drop i xs) @ take l (drop (i + k) xs) = take (k + l) (drop i xs)" for i k l
    by (simp add: take_add add.commute)
  show "take 2 (drop 2 xs) @ take 4 (drop 4 xs) = take 6 (drop 2 xs)" using t [where i = 2 and k = 2 and l = 4] by simp
  show "take 2 (drop 2 xs) @ take 4 (drop 4 xs) @ take 16 (drop 8 xs) @ take 4 (drop 24 xs) = take 26 (drop 2 xs)"
    using t [where i = 2 and k = 2 and l = 24] t [where i = 4 and k = 4 and l = 20] t [where i = 8 and k = 16 and l = 4] by simp
qed

lemma sockaddr_inet_back:
  assumes "bs ! 1 = 2" and "16 \<le> length bs" and "b \<noteq> 0" and "16 \<le> unat cap"
  shows "linux_sockaddr_to_darwin (linux_storage 2 (take 2 (drop 2 bs) @ take 4 (drop 4 bs))) 16 b (Some cap) m =
    (Inr (Some 16), mem_write m b (darwin_canonical bs @ replicate (unat cap - 16) 0))"
proof -
  have st: "take 6 (drop 2 (linux_storage 2 (take 6 (drop 2 bs)))) = take 6 (drop 2 bs)"
    using linux_storage_parts(2) [of "take 6 (drop 2 bs)" 0 6 2] assms(2) by simp
  have "darwin_canonical bs = [16, 2] @ take 6 (drop 2 bs) @ replicate 8 0"
    using darwin_canonical_family(2) [of bs] assms(1,2) by simp
  moreover have "replicate (unat cap - 8) (0 :: u8) = replicate 8 0 @ replicate (unat cap - 16) 0"
    using assms(4) by (simp flip: replicate_add)
  moreover have "\<not> cap < 16" using assms(4) by (simp add: word_less_nat_alt)
  ultimately show ?thesis unfolding take_pieces
    using assms(2-4) linux_storage_parts(1) [of "take 6 (drop 2 bs)" 2]
    by (simp add: linux_sockaddr_to_darwin_def take_pieces st mem_write_over)
qed

lemma sockaddr_inet6_back:
  assumes "bs ! 1 = 30" and "28 \<le> length bs" and "b \<noteq> 0" and "28 \<le> unat cap"
  shows "linux_sockaddr_to_darwin (linux_storage 10 (take 2 (drop 2 bs) @ take 4 (drop 4 bs) @ take 16 (drop 8 bs) @ take 4 (drop 24 bs))) 28 b (Some cap) m =
    (Inr (Some 28), mem_write m b (darwin_canonical bs @ replicate (unat cap - 28) 0))"
proof -
  have st: "take 26 (drop 2 (linux_storage 10 (take 26 (drop 2 bs)))) = take 26 (drop 2 bs)"
    using linux_storage_parts(2) [of "take 26 (drop 2 bs)" 0 26 10] assms(2) by simp
  have "darwin_canonical bs = [28, 30] @ take 26 (drop 2 bs)"
    using darwin_canonical_family(3) [of bs] assms(1,2) by simp
  moreover have "\<not> cap < 28" using assms(4) by (simp add: word_less_nat_alt)
  ultimately show ?thesis unfolding take_pieces
    using assms(2-4) linux_storage_parts(1) [of "take 26 (drop 2 bs)" 10]
    by (simp add: linux_sockaddr_to_darwin_def take_pieces st mem_write_over)
qed

lemma darwin_canonical_length:
  "bs ! 1 = 1 \<Longrightarrow> bs \<noteq> [] \<Longrightarrow> length (darwin_canonical bs) = length bs"
  "bs ! 1 = 2 \<Longrightarrow> 16 \<le> length bs \<Longrightarrow> length (darwin_canonical bs) = 16"
  "bs ! 1 = 30 \<Longrightarrow> 28 \<le> length bs \<Longrightarrow> length (darwin_canonical bs) = 28"
  by (simp_all add: darwin_canonical_def)

lemma uint_u8_cases: "uint (x :: u8) = 1 \<longleftrightarrow> x = 1" "uint (x :: u8) = 2 \<longleftrightarrow> x = 2" "uint (x :: u8) = 30 \<longleftrightarrow> x = 30"
  by (simp_all flip: word_uint_eq_iff add: word_uint_eq_iff)

lemma translate_sockaddr_cases:
  assumes tr: "translate_sockaddr m a len st = Inr (st', llen)" and "a \<noteq> 0" and bs: "bs = mem_read (unat len) m a"
  obtains (Unix) "bs ! 1 = 1" "2 \<le> length bs" "length bs \<le> 110" "st' = linux_storage 1 (drop 2 bs)" "llen = of_nat (length bs)"
  | (Inet) "bs ! 1 = 2" "16 \<le> length bs" "st' = linux_storage 2 (take 2 (drop 2 bs) @ take 4 (drop 4 bs))" "llen = 16"
  | (Inet6) "bs ! 1 = 30" "28 \<le> length bs" "llen = 28"
      "st' = linux_storage 10 (take 2 (drop 2 bs) @ take 4 (drop 4 bs) @ take 16 (drop 8 bs) @ take 4 (drop 24 bs))"
proof -
  have len: "length bs = unat len" "2 \<le> length bs"
    using tr assms(2) by (auto simp: bs translate_sockaddr_def not_less word_le_nat_alt split: if_splits)
  have "bs ! 1 = 1 \<or> bs ! 1 = 2 \<or> bs ! 1 = 30"
    using tr assms(2) by (auto simp: translate_sockaddr_def translate_socket_domain_def Let_def uint_u8_cases bs split: if_splits)
  then consider "bs ! 1 = 1" | "bs ! 1 = 2" | "bs ! 1 = 30" by blast
  then show thesis
  proof cases
    case 1
    have l: "unat len \<le> 110" and s: "st' = linux_storage 1 (drop 2 bs)" "llen = 2 + ucast (len - 2)"
      using tr assms(2) 1 len by (auto simp: translate_sockaddr_def translate_socket_domain_def Let_def
        bs [symmetric] not_less word_le_nat_alt unat_sub split: if_splits)
    have "len - 2 = of_nat (unat len - 2)" using len by (simp add: of_nat_diff)
    then have "ucast (len - 2) = (of_nat (unat len - 2) :: u32)"
      using l by (simp only: unsigned_of_nat) (simp add: take_bit_nat_eq_self)
    then have "llen = of_nat (length bs)" using len unfolding s(2) by (simp add: of_nat_diff)
    then show thesis using Unix 1 len l s(1) by simp
  qed (use tr assms(2) len Inet Inet6 in \<open>auto simp: translate_sockaddr_def translate_socket_domain_def Let_def
      bs [symmetric] not_less word_le_nat_alt split: if_splits\<close>)
qed

lemma sockaddr_back:
  assumes "translate_sockaddr m a len st = Inr (st', llen)" and "a \<noteq> 0" and "b \<noteq> 0"
    and "c = darwin_canonical (mem_read (unat len) m a)" and "length c \<le> unat cap"
  shows "linux_sockaddr_to_darwin st' llen b (Some cap) m' =
    (Inr (Some (of_nat (length c))), mem_write m' b (c @ replicate (unat cap - length c) 0))"
  using assms(1,2) refl
proof (cases rule: translate_sockaddr_cases)
  case Unix
  then have "length (mem_read (unat len) m a) \<noteq> 0" by linarith
  then have "mem_read (unat len) m a \<noteq> []" by (simp only: length_0_conv) simp
  then show ?thesis using Unix assms(3-5) darwin_canonical_length(1) [OF Unix(1)]
      sockaddr_unix_back [OF Unix(1) refl Unix(2,3), of b cap m'] by simp
next
  case Inet
  then show ?thesis using assms(3-5) darwin_canonical_length(2) sockaddr_inet_back by simp
next
  case Inet6
  then show ?thesis using assms(3-5) darwin_canonical_length(3) sockaddr_inet6_back by simp
qed

text \<open>
  C24.  An address the guest passes in, once accepted, comes back in a buffer that is large enough as
  the same address: its family, its path or its port, flow, address and scope, with the length byte
  set and the rest of the buffer zero.
\<close>

theorem sockaddr_round_trip:
  assumes "translate_sockaddr m a len st = Inr (st', llen)" and "a \<noteq> 0" and "b \<noteq> 0"
    and "length (darwin_canonical (mem_read (unat len) m a)) \<le> unat cap"
  shows "linux_sockaddr_to_darwin st' llen b (Some cap) m' =
    (Inr (Some (of_nat (length (darwin_canonical (mem_read (unat len) m a))))),
     mem_write m' b (darwin_canonical (mem_read (unat len) m a) @
       replicate (unat cap - length (darwin_canonical (mem_read (unat len) m a))) 0))"
  using sockaddr_back [OF assms(1-3) refl assms(4)] .

text \<open>An IPv4 address as a guest has it, port 80 of 127.0.0.1.\<close>

definition loopback_bytes :: "u8 list" where
  "loopback_bytes = [0, 2, 0, 80, 127, 0, 0, 1, 9, 9, 9, 9, 9, 9, 9, 9]"

lemma read_loopback: "mem_read 16 (mem_write m a loopback_bytes) a = loopback_bytes"
  by (rule mem_read_write_same) (simp_all add: loopback_bytes_def)

lemma translate_loopback:
  assumes "a \<noteq> 0"
  shows "translate_sockaddr (mem_write m a loopback_bytes) a 16 st = Inr (linux_storage 2 [0, 80, 127, 0, 0, 1], 16)"
  using assms by (simp add: translate_sockaddr_def read_loopback translate_socket_domain_def) (simp add: loopback_bytes_def)

theorem sockaddr_round_trip_witness:
  "linux_sockaddr_to_darwin (linux_storage 2 [0, 80, 127, 0, 0, 1]) 16 0x2000 (Some 20) (\<lambda>_. 7) =
    (Inr (Some 16), mem_write (\<lambda>_. 7) 0x2000 ([16, 2, 0, 80, 127, 0, 0, 1, 0, 0, 0, 0, 0, 0, 0, 0] @ [0, 0, 0, 0]))"
proof -
  have "darwin_canonical loopback_bytes = [16, 2, 0, 80, 127, 0, 0, 1, 0, 0, 0, 0, 0, 0, 0, 0]" by code_simp
  moreover have "replicate 4 (0 :: u8) = [0, 0, 0, 0]" by code_simp
  ultimately show ?thesis
    using sockaddr_round_trip [OF translate_loopback [of "0x1000" "\<lambda>_. 0" "[]"], of "0x2000" 20 "\<lambda>_. 7"]
    by (simp add: read_loopback)
qed

section \<open>Connecting and asking for the peer\<close>

lemma linux_sockaddr_prefix:
  assumes pre: "take (unat l) x = take (unat l) y" and "2 \<le> unat l"
    and "uint (le_val (take 2 x) :: u16) = AF_INET \<Longrightarrow> 8 \<le> unat l"
    and "uint (le_val (take 2 x) :: u16) = AF_INET6 \<Longrightarrow> 28 \<le> unat l"
  shows "linux_sockaddr_to_darwin x l b cap m = linux_sockaddr_to_darwin y l b cap m"
proof -
  have part: "take k (drop i x) = take k (drop i y)" if "i + k \<le> unat l" for i k
  proof -
    have "take (i + k) x = take (i + k) y" using arg_cong [OF pre, of "take (i + k)"] that by (simp add: min_absorb1)
    then show ?thesis by (simp add: take_drop add.commute)
  qed
  have two: "take 2 x = take 2 y" using part [of 0 2] assms(2) by simp
  have path: "take (unat (if l > 2 then l - 2 else 0)) (drop 2 x) = take (unat (if l > 2 then l - 2 else 0)) (drop 2 y)"
    by (rule part) (use assms(2) in \<open>auto simp: unat_sub word_le_nat_alt word_less_nat_alt\<close>)
  consider (inet) "uint (le_val (take 2 y) :: u16) = AF_INET" | (inet6) "uint (le_val (take 2 y) :: u16) = AF_INET6"
    | (other) "uint (le_val (take 2 y) :: u16) \<noteq> AF_INET" "uint (le_val (take 2 y) :: u16) \<noteq> AF_INET6" by blast
  then show ?thesis
  proof cases
    case inet
    then show ?thesis using part [of 2 2] part [of 4 4] assms(3)
      unfolding linux_sockaddr_to_darwin_def Let_def two by (simp split: option.splits)
  next
    case inet6
    then show ?thesis using part [of 2 2] part [of 4 4] part [of 8 16] part [of 24 4] assms(4)
      unfolding linux_sockaddr_to_darwin_def Let_def two by (simp split: option.splits)
  next
    case other
    then show ?thesis unfolding linux_sockaddr_to_darwin_def Let_def path two by (simp split: option.splits)
  qed
qed

lemma linux_storage_length: "length bs \<le> 126 \<Longrightarrow> length (linux_storage f bs) = 128"
  by (simp add: linux_storage_def Let_def)

lemma translate_sockaddr_known:
  assumes "translate_sockaddr m a len st = Inr (st', llen)" and "a \<noteq> 0"
  shows "length st' = 128" and "2 \<le> unat llen" and "unat llen \<le> 128"
    and "uint (le_val (take 2 st') :: u16) = AF_INET \<Longrightarrow> 8 \<le> unat llen"
    and "uint (le_val (take 2 st') :: u16) = AF_INET6 \<Longrightarrow> 28 \<le> unat llen"
proof -
  have "length st' = 128 \<and> 2 \<le> unat llen \<and> unat llen \<le> 128 \<and>
    (uint (le_val (take 2 st') :: u16) = AF_INET \<longrightarrow> 8 \<le> unat llen) \<and>
    (uint (le_val (take 2 st') :: u16) = AF_INET6 \<longrightarrow> 28 \<le> unat llen)"
    using assms refl
  proof (cases rule: translate_sockaddr_cases)
    case Unix
    have "unat llen = length (mem_read (unat len) m a)" unfolding Unix(5) using Unix(3) by (subst unat_of_nat) simp
    then show ?thesis using Unix(1-4) linux_storage_parts(1) [of "drop 2 (mem_read (unat len) m a)" 1]
      by (simp add: linux_storage_length)
  next
    case Inet
    then show ?thesis
      using linux_storage_parts(1) [of "take 6 (drop 2 (mem_read (unat len) m a))" 2]
      by (simp add: linux_storage_length take_pieces)
  next
    case Inet6
    then show ?thesis
      using linux_storage_parts(1) [of "take 26 (drop 2 (mem_read (unat len) m a))" 10]
      by (simp add: linux_storage_length take_pieces)
  qed
  then show "length st' = 128" and "2 \<le> unat llen" and "unat llen \<le> 128"
    and "uint (le_val (take 2 st') :: u16) = AF_INET \<Longrightarrow> 8 \<le> unat llen"
    and "uint (le_val (take 2 st') :: u16) = AF_INET6 \<Longrightarrow> 28 \<le> unat llen" by blast+
qed

text \<open>
  What \<open>connect(2)\<close> and \<open>getpeername(2)\<close> document: a descriptor that was connected has the
  bytes of the address as its peer, and asking for the peer stores them and their number in the buffer.
\<close>

definition posix_peer ::
  "(int \<Rightarrow> u8 list \<Rightarrow> u32 \<Rightarrow> 'k \<Rightarrow> (int \<times> int) \<times> 'k) \<Rightarrow> 'k name_call \<Rightarrow> ('k \<Rightarrow> int \<Rightarrow> u8 list option) \<Rightarrow> bool" where
  "posix_peer sys_connect sys_getpeername peer \<longleftrightarrow>
     (\<forall>fd name len k r k'. sys_connect fd name len k = (r, k') \<and> 0 \<le> fst r \<longrightarrow> peer k' fd = Some (take (unat len) name)) \<and>
     (\<forall>fd buf k bs. peer k fd = Some bs \<longrightarrow>
       (\<exists>k'. sys_getpeername fd True buf k = ((0, 0), (bs @ drop (length bs) buf, of_nat (length bs)), k')))"


text \<open>A kernel that has nothing but the peers of descriptors.\<close>

definition peer_connect :: "int \<Rightarrow> u8 list \<Rightarrow> u32 \<Rightarrow> (int \<Rightarrow> u8 list option) \<Rightarrow> (int \<times> int) \<times> (int \<Rightarrow> u8 list option)" where
  "peer_connect fd name len k = ((0, 0), k(fd := Some (take (unat len) name)))"

definition peer_getpeername :: "(int \<Rightarrow> u8 list option) name_call" where
  "peer_getpeername fd want buf k =
     (case k fd of None \<Rightarrow> ((-1, 107), (buf, 128), k)
      | Some bs \<Rightarrow> ((0, 0), (bs @ drop (length bs) buf, of_nat (length bs)), k))"


end
