(* ===== verification/Files_000.thy ===== *)
theory Files_000
  imports Gate_Dispatch
begin

text \<open>
  The other handlers of the system calls 0 to 99 (\<open>syscall_range_000_099.c\<close>): record locks and
  \<open>fcntl\<close>, \<open>ioctl\<close>, descriptor sets and \<open>select\<close>, mounted file systems,
  \<open>wait4\<close>, the login name.  The kernel is a parameter.  \<open>select\<close> is the variant for
  systems without \<open>SYS_select\<close>, as on ARM64.
\<close>

type_synonym 'k fstat = "int \<Rightarrow> memory \<times> 'k \<Rightarrow> (int \<times> int \<times> linux_stat) \<times> memory \<times> 'k"

section \<open>Memory advice and synchronisation\<close>

definition translate_msync_flags_to_linux :: "u32 \<Rightarrow> u32" where
  "translate_msync_flags_to_linux darwin_flags = translate_bits [(1, 1), (2, 2), (0x10, 4)] darwin_flags 0"

definition translate_madvise_to_linux :: "int \<Rightarrow> int option" where
  "translate_madvise_to_linux darwin_behavior =
     map_of [(0, 0), (1, 1), (2, 2), (3, 3), (4, 4), (5, 8)] darwin_behavior"

section \<open>Paths that are hidden\<close>

definition c_string :: "nat \<Rightarrow> memory \<Rightarrow> u64 \<Rightarrow> u8 list" where
  "c_string n m a = takeWhile (\<lambda>b. b \<noteq> 0) (mem_read n m a)"

definition ascii :: "string \<Rightarrow> u8 list" where
  "ascii s = map (\<lambda>c. of_nat (of_char c)) s"

definition is_digit :: "u8 \<Rightarrow> bool" where
  "is_digit b \<longleftrightarrow> 48 \<le> b \<and> b \<le> 57"

definition should_hide_proc_exe_symlink :: "u8 list \<Rightarrow> bool" where
  "should_hide_proc_exe_symlink path =
     (if path = ascii ''/proc/self/exe'' then False
      else if take 6 path \<noteq> ascii ''/proc/'' then False
      else let cursor = drop 6 path
           in if cursor = [] \<or> \<not> is_digit (hd cursor) then False
              else dropWhile is_digit cursor = ascii ''/exe'')"

section \<open>Record locks\<close>

record linux_flock =
  l_type :: u16
  l_whence :: u16
  l_start :: u64
  l_len :: u64
  l_pid :: u32

abbreviation (input) DARWIN_F_RDLCK :: u16 where "DARWIN_F_RDLCK \<equiv> 1"
abbreviation (input) DARWIN_F_UNLCK :: u16 where "DARWIN_F_UNLCK \<equiv> 2"
abbreviation (input) DARWIN_F_WRLCK :: u16 where "DARWIN_F_WRLCK \<equiv> 3"
abbreviation (input) F_RDLCK :: u16 where "F_RDLCK \<equiv> 0"
abbreviation (input) F_WRLCK :: u16 where "F_WRLCK \<equiv> 1"
abbreviation (input) F_UNLCK :: u16 where "F_UNLCK \<equiv> 2"

definition darwin_flock_to_linux :: "memory \<Rightarrow> u64 \<Rightarrow> linux_flock option" where
  "darwin_flock_to_linux m d =
     (let bs = mem_read 24 m d;
          darwin_type = le_val (take 2 (drop 20 bs)) :: u16;
          out = \<lambda>linux_type. \<lparr>l_type = linux_type, l_whence = le_val (drop 22 bs), l_start = le_val (take 8 bs),
            l_len = le_val (take 8 (drop 8 bs)), l_pid = le_val (take 4 (drop 16 bs))\<rparr>
      in if darwin_type = DARWIN_F_RDLCK then Some (out F_RDLCK)
         else if darwin_type = DARWIN_F_WRLCK then Some (out F_WRLCK)
         else if darwin_type = DARWIN_F_UNLCK then Some (out F_UNLCK)
         else None)"

definition linux_flock_to_darwin :: "linux_flock \<Rightarrow> memory \<Rightarrow> u64 \<Rightarrow> memory" where
  "linux_flock_to_darwin lock m d =
     (let darwin_type = (if l_type lock = F_RDLCK then DARWIN_F_RDLCK
            else if l_type lock = F_WRLCK then DARWIN_F_WRLCK else DARWIN_F_UNLCK)
      in mem_write m d (le_bytes 8 (l_start lock) @ le_bytes 8 (l_len lock) @ le_bytes 4 (l_pid lock) @
           le_bytes 2 darwin_type @ le_bytes 2 (l_whence lock)))"

section \<open>fcntl\<close>

text \<open>What \<open>fcntl\<close> is given, and may change: a number or a lock.\<close>

datatype fcntl_arg = Arg u64 | Lock linux_flock

type_synonym 'k sys_fcntl = "int \<Rightarrow> int \<Rightarrow> fcntl_arg \<Rightarrow> memory \<times> 'k \<Rightarrow> (int \<times> int) \<times> fcntl_arg \<times> memory \<times> 'k"

abbreviation (input) SYS_ftruncate :: int where "SYS_ftruncate \<equiv> 46"
abbreviation (input) SYS_fallocate :: int where "SYS_fallocate \<equiv> 47"
abbreviation (input) SYS_fsync :: int where "SYS_fsync \<equiv> 82"
abbreviation (input) SYS_dup3 :: int where "SYS_dup3 \<equiv> 24"
abbreviation (input) DARWIN_F_PEOFPOSMODE :: u32 where "DARWIN_F_PEOFPOSMODE \<equiv> 3"
abbreviation (input) DARWIN_F_ALLOCATEALL :: u32 where "DARWIN_F_ALLOCATEALL \<equiv> 4"

definition raw_fcntl_preallocate ::
  "'k syscall \<Rightarrow> 'k fstat \<Rightarrow> int \<Rightarrow> u64 \<Rightarrow> memory \<times> 'k \<Rightarrow> (int \<times> int) \<times> memory \<times> 'k" where
  "raw_fcntl_preallocate syscall fstat fd fst_arg w =
     (if fst_arg = 0 then ((-1, 0), w)
      else case fstat fd w of
        ((result, err, file_stat), w1) \<Rightarrow>
          if result \<noteq> 0 then ((-1, err), w1)
          else let m = fst w1;
                   fst_flags = rd32 m fst_arg;
                   fst_posmode = rd32 m (fst_arg + 4);
                   fst_offset = rd64 m (fst_arg + 8);
                   fst_length = rd64 m (fst_arg + 16);
                   allocate_from = (if fst_posmode = DARWIN_F_PEOFPOSMODE then l_size file_stat else fst_offset);
                   allocate_end = allocate_from + fst_length
               in if fst_posmode \<noteq> DARWIN_F_PEOFPOSMODE \<and> fst_posmode \<noteq> 0 then ((-1, 0), w1)
                  else if fst_flags AND DARWIN_F_ALLOCATEALL \<noteq> 0
                  then if sint allocate_end > sint (l_size file_stat)
                    then case syscall SYS_ftruncate [word_of_int fd, allocate_end] w1 of
                      ((result, err), w2) \<Rightarrow> if result \<noteq> 0 then ((-1, err), w2) else ((0, 0), w2)
                    else ((0, 0), w1)
                  else syscall SYS_fallocate [word_of_int fd, 0, allocate_from, fst_length] w1)"

text \<open>The Linux command of a Darwin command that is passed on.\<close>

definition fcntl_cmd :: "int \<Rightarrow> int option" where
  "fcntl_cmd darwin_cmd =
     map_of [(0, 0), (1, 1), (2, 2), (3, 3), (4, 4), (5, 9), (6, 8), (7, 5), (8, 6), (9, 7), (67, 1030)] darwin_cmd"

definition raw_fcntl ::
  "'k syscall \<Rightarrow> 'k fstat \<Rightarrow> 'k sys_fcntl \<Rightarrow> int \<Rightarrow> int \<Rightarrow> u64 \<Rightarrow> memory \<times> 'k \<Rightarrow> (int \<times> int) \<times> memory \<times> 'k" where
  "raw_fcntl syscall fstat sys_fcntl fd darwin_cmd arg w =
     (if darwin_cmd = 42 then raw_fcntl_preallocate syscall fstat fd arg w
      else if darwin_cmd = 51 then syscall SYS_fsync [word_of_int fd] w
      else case fcntl_cmd darwin_cmd of
        None \<Rightarrow> ((-1, ENOSYS), w)
      | Some linux_cmd \<Rightarrow>
          if darwin_cmd \<in> {7, 8, 9}
          then case darwin_flock_to_linux (fst w) arg of
              None \<Rightarrow> ((-1, EINVAL), w)
            | Some converted_flock \<Rightarrow> (case sys_fcntl fd linux_cmd (Lock converted_flock) w of
                ((result, err), arg', m', k') \<Rightarrow>
                  ((result, err),
                   if result \<ge> 0 \<and> darwin_cmd = 7 \<and> arg \<noteq> 0
                   then (case arg' of Lock lock \<Rightarrow> linux_flock_to_darwin lock m' arg | Arg _ \<Rightarrow> m') else m',
                   k'))
          else let arg' = (if darwin_cmd = 4 then word_of_int (sint (translate_open_flags_to_linux (ucast arg))) else arg)
            in case sys_fcntl fd linux_cmd (Arg arg') w of
              ((result, err), _, w') \<Rightarrow>
                ((if darwin_cmd = 3 \<and> result \<ge> 0
                  then sint (translate_open_flags_to_darwin (word_of_int result)) else result, err), w'))"

definition raw_dup2 ::
  "'k syscall \<Rightarrow> 'k sys_fcntl \<Rightarrow> int \<Rightarrow> int \<Rightarrow> memory \<times> 'k \<Rightarrow> (int \<times> int) \<times> memory \<times> 'k" where
  "raw_dup2 syscall sys_fcntl from_fd to_fd w =
     (if from_fd = to_fd
      then case sys_fcntl from_fd 1 (Arg 0) w of
        ((result, err), _, w') \<Rightarrow> if result < 0 then ((-1, err), w') else ((to_fd, err), w')
      else syscall SYS_dup3 [word_of_int from_fd, word_of_int to_fd, 0] w)"

section \<open>ioctl\<close>

definition translate_ioctl_request :: "u64 \<Rightarrow> u64 option" where
  "translate_ioctl_request darwin_request =
     map_of [(0x4004667f, 0x541B), (0x8004667e, 0x5421), (0x40047473, 0x5411), (0x80087467, 0x5414), (0x40087468, 0x5413)]
       darwin_request"

definition handle_ioctl ::
  "'k syscall \<Rightarrow> 'k sys_fcntl \<Rightarrow> gate_state \<Rightarrow> memory \<times> 'k \<Rightarrow> gate_state \<times> memory \<times> 'k" where
  "handle_ioctl syscall sys_fcntl state w =
     (let fd = int_arg state 0;
          darwin_request = g_x state 1;
          set_cloexec = \<lambda>flag. (case sys_fcntl fd 2 (Arg flag) w of
            (r, _, w') \<Rightarrow> (finish_syscall_result_000 (snd r) (fst r) state, w'))
      in if darwin_request = 0x20006601 then set_cloexec 1
         else if darwin_request = 0x20006602 then set_cloexec 0
         else case translate_ioctl_request darwin_request of
             None \<Rightarrow> (set_failure DARWIN_ENOSYS state, w)
           | Some linux_request \<Rightarrow> (case syscall 29 [word_of_int fd, linux_request, g_x state 2] w of
               (r, w') \<Rightarrow> (finish_syscall_result_000 (snd r) (fst r) state, w')))"

section \<open>Descriptor sets\<close>

text \<open>A Linux \<open>fd_set\<close> says of each descriptor whether it is in the set.\<close>

type_synonym fd_set = "nat \<Rightarrow> bool"

abbreviation (input) DARWIN_NFDBITS :: nat where "DARWIN_NFDBITS \<equiv> 32"

definition fd_word :: "u64 \<Rightarrow> nat \<Rightarrow> u64" where
  "fd_word darwin_set fd = darwin_set + 4 * of_nat (fd div DARWIN_NFDBITS)"

definition fd_mask :: "nat \<Rightarrow> u32" where
  "fd_mask fd = push_bit (fd mod DARWIN_NFDBITS) 1"

definition darwin_fdset_to_linux :: "nat \<Rightarrow> memory \<Rightarrow> u64 \<Rightarrow> fd_set" where
  "darwin_fdset_to_linux nfds m darwin_set fd \<longleftrightarrow>
     darwin_set \<noteq> 0 \<and> fd < nfds \<and> rd32 m (fd_word darwin_set fd) AND fd_mask fd \<noteq> 0"

fun fdset_from :: "nat list \<Rightarrow> fd_set \<Rightarrow> u64 \<Rightarrow> memory \<Rightarrow> memory" where
  "fdset_from [] linux_set darwin_set m = m"
| "fdset_from (fd # fds) linux_set darwin_set m =
     fdset_from fds linux_set darwin_set
       (if linux_set fd then wr32 m (fd_word darwin_set fd) (rd32 m (fd_word darwin_set fd) OR fd_mask fd) else m)"

definition linux_fdset_to_darwin :: "nat \<Rightarrow> fd_set \<Rightarrow> memory \<Rightarrow> u64 \<Rightarrow> memory" where
  "linux_fdset_to_darwin nfds linux_set m darwin_set =
     (if darwin_set = 0 then m
      else let words = (nfds + DARWIN_NFDBITS - 1) div DARWIN_NFDBITS
           in fdset_from [0..<nfds] linux_set darwin_set (mem_write m darwin_set (replicate (4 * words) 0)))"

type_synonym 'k sys_pselect6 =
  "int \<Rightarrow> fd_set option \<times> fd_set option \<times> fd_set option \<Rightarrow> (u64 \<times> u64) option \<Rightarrow> memory \<times> 'k \<Rightarrow>
     (int \<times> int) \<times> (fd_set option \<times> fd_set option \<times> fd_set option) \<times> memory \<times> 'k"

definition raw_select ::
  "'k sys_pselect6 \<Rightarrow> int \<Rightarrow> fd_set option \<times> fd_set option \<times> fd_set option \<Rightarrow> u64 \<Rightarrow> memory \<times> 'k \<Rightarrow>
     (int \<times> int) \<times> (fd_set option \<times> fd_set option \<times> fd_set option) \<times> memory \<times> 'k" where
  "raw_select sys_pselect6 nfds sets darwin_timeout w =
     (let timeout = (if darwin_timeout = 0 then None
            else Some (rd64 (fst w) darwin_timeout, word_of_int (sint (rd32 (fst w) (darwin_timeout + 8)) * 1000)))
      in sys_pselect6 nfds sets timeout w)"

definition handle_select ::
  "'k sys_pselect6 \<Rightarrow> gate_state \<Rightarrow> memory \<times> 'k \<Rightarrow> gate_state \<times> memory \<times> 'k" where
  "handle_select sys_pselect6 state w =
     (let nfds = int_arg state 0; n = nat nfds;
          darwin_readfds = g_x state 1; darwin_writefds = g_x state 2; darwin_exceptfds = g_x state 3;
          given = \<lambda>a. if a = 0 then None else Some (darwin_fdset_to_linux n (fst w) a);
          stored = \<lambda>s a m. case s of None \<Rightarrow> m | Some linux_set \<Rightarrow> linux_fdset_to_darwin n linux_set m a
      in if nfds < 0 \<or> nfds > 1024 then (set_failure DARWIN_EINVAL state, w)
         else case raw_select sys_pselect6 nfds (given darwin_readfds, given darwin_writefds, given darwin_exceptfds) (g_x state 4) w of
           ((result, err), (readfds, writefds, exceptfds), m', k') \<Rightarrow>
             if result < 0 then (set_failure (darwin_errno_from_linux_000 err) state, m', k')
             else (set_success (word_of_int result) state,
                   stored exceptfds darwin_exceptfds (stored writefds darwin_writefds (stored readfds darwin_readfds m')), k'))"

section \<open>Mounted file systems\<close>

record linux_statfs =
  lf_type :: u64
  lf_bsize :: u64
  lf_blocks :: u64
  lf_bfree :: u64
  lf_bavail :: u64
  lf_files :: u64
  lf_ffree :: u64
  lf_fsid :: "u32 \<times> u32"
  lf_frsize :: u64
  lf_flags :: u64

record mntent =
  mnt_fsname :: "u8 list"
  mnt_dir :: "u8 list"
  mnt_type :: "u8 list"

text \<open>\<open>snprintf(field, n, "%s", s)\<close> into a zeroed field of \<open>n\<close> bytes.\<close>

definition snprintf_field :: "nat \<Rightarrow> u8 list \<Rightarrow> u8 list" where
  "snprintf_field n s = take (n - 1) s @ replicate (n - length (take (n - 1) s)) 0"

abbreviation (input) DARWIN_STATFS_SIZE :: nat where "DARWIN_STATFS_SIZE \<equiv> 2168"

definition linux_to_darwin_statfs :: "linux_statfs \<Rightarrow> mntent \<Rightarrow> u8 list" where
  "linux_to_darwin_statfs f entry =
     le_bytes 4 (ucast (lf_bsize f) :: u32) @ le_bytes 4 (ucast (lf_frsize f) :: u32) @
     le_bytes 8 (lf_blocks f) @ le_bytes 8 (lf_bfree f) @ le_bytes 8 (lf_bavail f) @ le_bytes 8 (lf_files f) @ le_bytes 8 (lf_ffree f) @
     le_bytes 4 (fst (lf_fsid f)) @ le_bytes 4 (snd (lf_fsid f)) @ le_bytes 4 (0 :: u32) @
     le_bytes 4 (ucast (lf_type f) :: u32) @ le_bytes 4 (ucast (lf_flags f) :: u32) @ le_bytes 4 (0 :: u32) @
     snprintf_field 16 (mnt_type entry) @ snprintf_field 1024 (mnt_dir entry) @ snprintf_field 1024 (mnt_fsname entry) @
     replicate 32 0"

type_synonym 'k sys_statfs = "u8 list \<Rightarrow> memory \<times> 'k \<Rightarrow> (int \<times> linux_statfs) \<times> memory \<times> 'k"

fun getfsstat_from :: "'k sys_statfs \<Rightarrow> u64 \<Rightarrow> nat \<Rightarrow> mntent list \<Rightarrow> nat \<Rightarrow> memory \<times> 'k \<Rightarrow> nat \<times> memory \<times> 'k" where
  "getfsstat_from sys_statfs darwin_statfs max_entries [] count w = (count, w)"
| "getfsstat_from sys_statfs darwin_statfs max_entries (entry # mounts) count w =
     (if darwin_statfs \<noteq> 0 \<and> count < max_entries
      then case sys_statfs (mnt_dir entry) w of
        ((result, linux_statfs), m', k') \<Rightarrow>
          if result = 0
          then getfsstat_from sys_statfs darwin_statfs max_entries mounts (Suc count)
            (mem_write m' (darwin_statfs + of_nat (DARWIN_STATFS_SIZE * count)) (linux_to_darwin_statfs linux_statfs entry), k')
          else getfsstat_from sys_statfs darwin_statfs max_entries mounts count (m', k')
      else getfsstat_from sys_statfs darwin_statfs max_entries mounts (Suc count) w)"

text \<open>The table of mounts is the kernel's, and may not be readable.\<close>

definition handle_getfsstat ::
  "(memory \<times> 'k \<Rightarrow> int + mntent list) \<Rightarrow> 'k sys_statfs \<Rightarrow> gate_state \<Rightarrow> memory \<times> 'k \<Rightarrow> gate_state \<times> memory \<times> 'k" where
  "handle_getfsstat mounts sys_statfs state w =
     (let darwin_statfs = g_x state 0;
          bufsize = int_arg state 1
      in if bufsize < 0 then (set_failure DARWIN_EINVAL state, w)
         else case mounts w of
           Inl err \<Rightarrow> (set_failure (darwin_errno_from_linux_000 (errno_or_eio err)) state, w)
         | Inr entries \<Rightarrow>
             let max_entries = (if darwin_statfs \<noteq> 0 \<and> bufsize > 0 then nat bufsize div DARWIN_STATFS_SIZE else 0)
             in case getfsstat_from sys_statfs darwin_statfs max_entries entries 0 w of
               (count, w') \<Rightarrow> (set_success (of_nat count) state, w'))"

section \<open>File flags\<close>

definition handle_chflags ::
  "(u64 \<Rightarrow> memory \<times> 'k \<Rightarrow> (int \<times> int \<times> linux_stat) \<times> memory \<times> 'k) \<Rightarrow> gate_state \<Rightarrow> memory \<times> 'k \<Rightarrow> gate_state \<times> memory \<times> 'k" where
  "handle_chflags stat_path state w =
     (if g_x state 1 \<noteq> 0 then (set_failure DARWIN_ENOTSUP state, w)
      else case stat_path (g_x state 0) w of
        ((result, err, _), w') \<Rightarrow>
          if result < 0 then (finish_syscall_result_000 err result state, w') else (set_success 0 state, w'))"

definition handle_fchflags :: "'k fstat \<Rightarrow> gate_state \<Rightarrow> memory \<times> 'k \<Rightarrow> gate_state \<times> memory \<times> 'k" where
  "handle_fchflags fstat state w =
     (if g_x state 1 \<noteq> 0 then (set_failure DARWIN_ENOTSUP state, w)
      else case fstat (int_arg state 0) w of
        ((result, err, _), w') \<Rightarrow>
          if result < 0 then (finish_syscall_result_000 err result state, w') else (set_success 0 state, w'))"

section \<open>Waiting for children\<close>

record rusage =
  ru_utime :: "u64 \<times> u64"
  ru_stime :: "u64 \<times> u64"
  ru_maxrss :: u64
  ru_ixrss :: u64
  ru_idrss :: u64
  ru_isrss :: u64
  ru_minflt :: u64
  ru_majflt :: u64
  ru_nswap :: u64
  ru_inblock :: u64
  ru_oublock :: u64
  ru_msgsnd :: u64
  ru_msgrcv :: u64
  ru_nsignals :: u64
  ru_nvcsw :: u64
  ru_nivcsw :: u64

definition darwin_timeval_bytes :: "u64 \<times> u64 \<Rightarrow> u8 list" where
  "darwin_timeval_bytes t = le_bytes 8 (fst t) @ le_bytes 4 (ucast (snd t) :: u32) @ le_bytes 4 (0 :: u32)"

definition linux_rusage_to_darwin :: "rusage \<Rightarrow> u8 list" where
  "linux_rusage_to_darwin u =
     darwin_timeval_bytes (ru_utime u) @ darwin_timeval_bytes (ru_stime u) @
     concat (map (le_bytes 8) [ru_maxrss u, ru_ixrss u, ru_idrss u, ru_isrss u, ru_minflt u, ru_majflt u, ru_nswap u,
       ru_inblock u, ru_oublock u, ru_msgsnd u, ru_msgrcv u, ru_nsignals u, ru_nvcsw u, ru_nivcsw u])"

type_synonym 'k sys_wait4 = "int \<Rightarrow> bool \<Rightarrow> u32 \<Rightarrow> bool \<Rightarrow> memory \<times> 'k \<Rightarrow> ((int \<times> int) \<times> u32 \<times> rusage) \<times> memory \<times> 'k"

definition handle_wait4_single_process :: "'k sys_wait4 \<Rightarrow> gate_state \<Rightarrow> memory \<times> 'k \<Rightarrow> gate_state \<times> memory \<times> 'k" where
  "handle_wait4_single_process sys_wait4 state w =
     (case darwin_wait_options_to_linux (ucast (g_x state 2)) of
        None \<Rightarrow> (set_failure DARWIN_EINVAL state, w)
      | Some linux_options \<Rightarrow>
          (case sys_wait4 (int_arg state 0) (g_x state 1 \<noteq> 0) linux_options (g_x state 3 \<noteq> 0) w of
             (((result, err), linux_status, linux_usage), m', k') \<Rightarrow>
               if result > 0
               then let m1 = (if g_x state 1 \<noteq> 0 then wr32 m' (g_x state 1) (linux_wait_status_to_darwin linux_status) else m');
                        m2 = (if g_x state 3 \<noteq> 0 then mem_write m1 (g_x state 3) (linux_rusage_to_darwin linux_usage) else m1)
                    in (finish_syscall_result_000 err (if int_arg state 0 > 0 then int_arg state 0 else result) state, m2, k')
               else (finish_syscall_result_000 err result state, m', k')))"

section \<open>Pipes\<close>

definition finish_pipe_result :: "gate_state \<Rightarrow> int \<times> int \<Rightarrow> int \<times> int \<Rightarrow> gate_state" where
  "finish_pipe_result state r pipe_fds =
     (if fst r < 0 then set_failure (darwin_errno_from_linux_000 (snd r)) state
      else state\<lparr>g_x := (g_x state)(0 := word_of_int (fst pipe_fds), 1 := word_of_int (snd pipe_fds)),
             g_nzcv := g_nzcv state AND NOT DARWIN_CARRY\<rparr>)"

section \<open>The login name\<close>

abbreviation (input) MACHGATE_LOGIN_NAME_MAX :: nat where "MACHGATE_LOGIN_NAME_MAX \<equiv> 256"

definition login_name_init :: "u8 list" where "login_name_init = ascii ''machgate''"

definition handle_getlogin :: "u8 list \<Rightarrow> gate_state \<Rightarrow> memory \<Rightarrow> gate_state \<times> memory" where
  "handle_getlogin login_name state m =
     (let buffer = g_x state 0;
          login_length = length login_name + 1
      in if buffer = 0 then (set_failure DARWIN_EFAULT state, m)
         else if g_x state 1 < of_nat login_length then (set_failure DARWIN_ENAMETOOLONG state, m)
         else (set_success 0 state, mem_write m buffer (login_name @ [0])))"

definition handle_setlogin :: "u8 list \<Rightarrow> gate_state \<Rightarrow> memory \<Rightarrow> gate_state \<times> u8 list" where
  "handle_setlogin login_name state m =
     (let name = g_x state 0;
          s = c_string MACHGATE_LOGIN_NAME_MAX m name
      in if name = 0 then (set_failure DARWIN_EFAULT state, login_name)
         else if length s = MACHGATE_LOGIN_NAME_MAX then (set_failure DARWIN_ENAMETOOLONG state, login_name)
         else (set_success 0 state, s))"

section \<open>Locks and descriptor sets there and back\<close>

lemma take_bit_16 [simp]: "take_bit 16 (v :: u16) = v"
  using take_bit_length_eq [of v] by simp

text \<open>
  C26.  A lock the kernel reports is stored for the guest such that it reads back as the same lock, for
  each of the three lock types.
\<close>

theorem flock_round_trip:
  assumes "l_type lock \<in> {F_RDLCK, F_WRLCK, F_UNLCK}"
  shows "darwin_flock_to_linux (linux_flock_to_darwin lock m d) d = Some lock"
  using assms by (cases lock) (auto simp: darwin_flock_to_linux_def linux_flock_to_darwin_def Let_def memory)

theorem flock_round_trip_witness:
  "darwin_flock_to_linux (linux_flock_to_darwin \<lparr>l_type = 1, l_whence = 0, l_start = 16, l_len = 0, l_pid = 42\<rparr> (\<lambda>_. 9) 0x1000) 0x1000 =
    Some \<lparr>l_type = 1, l_whence = 0, l_start = 16, l_len = 0, l_pid = 42\<rparr>"
  by (rule flock_round_trip) simp

lemma words_apart:
  assumes "p \<noteq> q" and "p < 2 ^ 30" and "q < 2 ^ 30"
  shows "apart (a + 4 * of_nat p) 4 (a + 4 * of_nat q) 4"
proof -
  have u: "unat (4 * of_nat n :: u64) = 4 * n" if "n < 2 ^ 30" for n
    by (rule unat_of_nat_eqI) (use that in simp_all)
  show ?thesis using assms u [OF assms(2)] u [OF assms(3)]
    by (auto simp: apart_def unat_sub_if_size word_size word_le_nat_alt)
qed

lemma fd_mask_bit: "w AND fd_mask fd \<noteq> 0 \<longleftrightarrow> bit w (fd mod DARWIN_NFDBITS)"
  by (simp add: fd_mask_def and_exp_eq_0_iff_not_bit flip: push_bit_eq_mult [of _ 1, simplified])

lemma fdset_from_bit:
  assumes "\<And>g. g \<in> set fds \<Longrightarrow> g < 1024" and "fd < 1024"
  shows "bit (rd32 (fdset_from fds linux_set a m) (fd_word a fd)) (fd mod DARWIN_NFDBITS) \<longleftrightarrow>
    bit (rd32 m (fd_word a fd)) (fd mod DARWIN_NFDBITS) \<or> (fd \<in> set fds \<and> linux_set fd)"
  using assms(1)
proof (induction fds arbitrary: m)
  case (Cons g fds)
  let ?m = "if linux_set g then wr32 m (fd_word a g) (rd32 m (fd_word a g) OR fd_mask g) else m"
  have "bit (rd32 ?m (fd_word a fd)) (fd mod DARWIN_NFDBITS) \<longleftrightarrow>
      bit (rd32 m (fd_word a fd)) (fd mod DARWIN_NFDBITS) \<or> (fd = g \<and> linux_set g)"
  proof (cases "g div DARWIN_NFDBITS = fd div DARWIN_NFDBITS")
    case True
    then have "fd_word a fd = fd_word a g" by (simp add: fd_word_def)
    moreover have "fd mod 32 = g mod 32 \<longleftrightarrow> fd = g" using True by (metis div_mod_decomp)
    ultimately show ?thesis by (auto simp: fd_mask_def bit_simps)
  next
    case False
    then have "apart (fd_word a fd) 4 (fd_word a g) 4"
      unfolding fd_word_def using Cons.prems [of g] assms(2) by (intro words_apart) auto
    then show ?thesis using False by (auto simp: rd32_wr32_apart)
  qed
  then show ?case using Cons by auto
qed simp

lemma fdset_zeroed:
  assumes "fd < nfds" and "nfds \<le> 1024"
  shows "rd32 (mem_write m a (replicate (4 * ((31 + nfds) div 32)) 0)) (fd_word a fd) = 0"
proof -
  define w W where "w = fd div 32" and "W = (31 + nfds) div 32"
  have "(fd + 32) div 32 \<le> W" unfolding W_def by (rule div_le_mono) (use assms(1) in simp)
  then have wW: "w + 1 \<le> W" by (simp add: w_def)
  have "W \<le> (31 + 1024) div 32" unfolding W_def by (rule div_le_mono) (use assms(2) in simp)
  then have W: "W \<le> 32" by simp
  have "mem_read 4 (mem_write m a (replicate (4 * W) 0)) (a + 4 * of_nat w) = take 4 (drop (4 * w) (replicate (4 * W) 0))"
    by (rule mem_read_part) (use wW W in simp_all)
  moreover have "min (4 * W - 4 * w) 4 = 4" using wW by simp
  ultimately have "mem_read 4 (mem_write m a (replicate (4 * W) 0)) (a + 4 * of_nat w) = replicate 4 0" by simp
  moreover have "le_val (replicate 4 0) = (0 :: u32)" by code_simp
  ultimately show ?thesis unfolding fd_word_def rd32_def w_def W_def by simp
qed



section \<open>What getfsstat stores\<close>

lemma linux_to_darwin_statfs_length [simp]: "length (linux_to_darwin_statfs f e) = DARWIN_STATFS_SIZE"
  by (simp add: linux_to_darwin_statfs_def snprintf_field_def)

text \<open>A kernel call that leaves the guest's memory alone.\<close>

definition keeps_memory :: "'k sys_statfs \<Rightarrow> bool" where
  "keeps_memory sys_statfs \<longleftrightarrow> (\<forall>path m k. fst (snd (sys_statfs path (m, k))) = m)"

lemma write_within:
  assumes "i + length bs \<le> n" and "n < 2 ^ 64"
  shows "agree_outside a n (mem_write m (a + of_nat i) bs) m"
proof (rule mem_write_inside)
  fix j assume "j < length bs"
  then have "unat (of_nat (i + j) :: u64) = i + j" "i + j < n" using assms by (auto simp: unat_of_nat simp del: of_nat_add)
  then show "in_range a n (a + of_nat i + of_nat j)" by (simp add: in_range_def add.assoc)
qed

lemma getfsstat_from_bounds:
  assumes "keeps_memory sys_statfs" and "DARWIN_STATFS_SIZE * mx < 2 ^ 64"
  shows "getfsstat_from sys_statfs a mx mounts count (m, k) = (count', m', k') \<Longrightarrow>
    agree_outside a (DARWIN_STATFS_SIZE * mx) m' m \<and> count \<le> count' \<and> count' \<le> count + length mounts"
proof (induction mounts arbitrary: count m k)
  case Nil
  then show ?case by (simp add: agree_outside_def)
next
  case (Cons e mounts)
  show ?case
  proof (cases "a \<noteq> 0 \<and> count < mx")
    case True
    obtain r f m1 k1 where st: "sys_statfs (mnt_dir e) (m, k) = ((r, f), m1, k1)"
      by (cases "sys_statfs (mnt_dir e) (m, k)") (auto simp: prod_eq_iff)
    moreover have "fst (snd (sys_statfs (mnt_dir e) (m, k))) = m" using assms(1) unfolding keeps_memory_def by blast
    ultimately have m1: "m1 = m" by simp
    let ?m = "mem_write m (a + of_nat (DARWIN_STATFS_SIZE * count)) (linux_to_darwin_statfs f e)"
    have "agree_outside a (DARWIN_STATFS_SIZE * mx) ?m m"
      by (rule write_within) (use True assms(2) in auto)
    note wr = this
    show ?thesis
    proof (cases "r = 0")
      case True
      then have "getfsstat_from sys_statfs a mx mounts (Suc count) (?m, k1) = (count', m', k')"
        using Cons.prems \<open>a \<noteq> 0 \<and> count < mx\<close> st m1 by simp
      from Cons.IH [OF this] show ?thesis using agree_outside_trans [OF _ wr] by auto
    next
      case False
      then show ?thesis using Cons.prems Cons.IH [of count m k1] \<open>a \<noteq> 0 \<and> count < mx\<close> st m1 by auto
    qed
  next
    case False
    then show ?thesis using Cons.prems Cons.IH [of "Suc count" m k] by auto
  qed
qed

text \<open>
  C28.  \<open>getfsstat\<close> writes only inside the buffer the guest gave, however many file systems are
  mounted, and never reports more than there are.
\<close>

theorem getfsstat_within_buffer:
  assumes "keeps_memory sys_statfs" and "mounts (m, k) = Inr entries" and "0 \<le> int_arg state 1"
    and "handle_getfsstat mounts sys_statfs state (m, k) = (state', m', k')" and "length entries < 2 ^ 64"
  shows "agree_outside (g_x state 0) (nat (int_arg state 1)) m' m \<and> \<not> carry_set state' \<and>
    unat (g_x state' 0) \<le> length entries"
proof -
  let ?mx = "if g_x state 0 \<noteq> 0 \<and> int_arg state 1 > 0 then nat (int_arg state 1) div DARWIN_STATFS_SIZE else 0"
  obtain count where c: "getfsstat_from sys_statfs (g_x state 0) ?mx entries 0 (m, k) = (count, m', k')"
    and s: "state' = set_success (of_nat count) state"
    using assms(2-4) by (auto simp: handle_getfsstat_def Let_def simp del: One_nat_def split: prod.splits)
  have "int_arg state 1 < 2 ^ 31" using sint_lt [of "ucast (g_x state 1) :: u32"] by (simp add: int_arg_def)
  then have mx: "DARWIN_STATFS_SIZE * ?mx \<le> nat (int_arg state 1)" "nat (int_arg state 1) < 2 ^ 64" by auto
  from getfsstat_from_bounds [OF assms(1) _ c] mx
  have "agree_outside (g_x state 0) (DARWIN_STATFS_SIZE * ?mx) m' m" "count \<le> length entries" by simp_all
  then show ?thesis using mx assms(5) s by (auto simp: agree_outside_def in_range_def unat_of_nat)
qed

text \<open>Two mounts and a buffer for one.\<close>

definition quiet_statfs :: "unit sys_statfs" where
  "quiet_statfs path w = ((0, \<lparr>lf_type = 0xEF53, lf_bsize = 4096, lf_blocks = 8, lf_bfree = 4, lf_bavail = 4,
     lf_files = 2, lf_ffree = 1, lf_fsid = (1, 2), lf_frsize = 4096, lf_flags = 0\<rparr>), w)"

definition two_mounts :: "mntent list" where
  "two_mounts = [\<lparr>mnt_fsname = ascii ''/dev/a'', mnt_dir = ascii ''/'', mnt_type = ascii ''ext4''\<rparr>,
     \<lparr>mnt_fsname = ascii ''proc'', mnt_dir = ascii ''/proc'', mnt_type = ascii ''proc''\<rparr>]"

theorem getfsstat_within_buffer_witness:
  "agree_outside 0x10000 3000 (fst (snd (handle_getfsstat (\<lambda>_. Inr two_mounts) quiet_statfs (example_gate 0x10000 3000 0) (\<lambda>_. 7, ())))) (\<lambda>_. 7) \<and>
    unat (g_x (fst (handle_getfsstat (\<lambda>_. Inr two_mounts) quiet_statfs (example_gate 0x10000 3000 0) (\<lambda>_. 7, ()))) 0) \<le> 2"
proof -
  let ?s = "example_gate 0x10000 3000 0"
  let ?r = "handle_getfsstat (\<lambda>_. Inr two_mounts) quiet_statfs ?s (\<lambda>_. 7, ())"
  have "int_arg ?s 1 = 3000" "g_x ?s 0 = 0x10000" by (simp_all add: int_arg_def example_gate_def)
  moreover have "length two_mounts = 2" by (simp add: two_mounts_def)
  moreover have "keeps_memory quiet_statfs" by (simp add: keeps_memory_def quiet_statfs_def)
  ultimately show ?thesis
    using getfsstat_within_buffer [of quiet_statfs "\<lambda>_. Inr two_mounts" "\<lambda>_. 7" "()" two_mounts ?s "fst ?r" "fst (snd ?r)" "snd (snd ?r)"]
    by (simp add: prod_eq_iff del: One_nat_def)
qed

text \<open>With a buffer for one of two mounted file systems, the call reports two.\<close>

lemma getfsstat_counts_unstored:
  "g_x (fst (handle_getfsstat (\<lambda>_. Inr two_mounts) quiet_statfs (example_gate 0x10000 3000 0) (m, ()))) 0 = 2"
  by (simp add: handle_getfsstat_def example_gate_def int_arg_def two_mounts_def quiet_statfs_def Let_def)

section \<open>The login name there and back\<close>

lemma c_string_written:
  assumes "0 \<notin> set s" and "length s < n" and "n < 2 ^ 64"
  shows "c_string n (mem_write m a (s @ [0])) a = s"
proof -
  have "take (length s + 1) (mem_read n (mem_write m a (s @ [0])) a) = s @ [0]"
    using mem_read_sub [of 0 "length s + 1" n "mem_write m a (s @ [0])" a] assms
    by (simp add: mem_read_write_same)
  then obtain rest where "mem_read n (mem_write m a (s @ [0])) a = s @ 0 # rest"
    by (metis append_Cons append_assoc append_take_drop_id append_Nil)
  moreover have "\<forall>x \<in> set s. x \<noteq> 0" using assms(1) by auto
  ultimately show ?thesis by (simp add: c_string_def)
qed

text \<open>
  C29.  The name that \<open>getlogin\<close> stores after a successful \<open>setlogin\<close> is the name that was
  set, wherever the guest has its buffers.
\<close>

theorem login_name_round_trip:
  assumes "handle_setlogin old s1 m = (s1', name)" and "\<not> carry_set s1'"
    and "handle_getlogin name s2 m2 = (s2', m3)" and "\<not> carry_set s2'"
  shows "c_string MACHGATE_LOGIN_NAME_MAX m3 (g_x s2 0) = c_string MACHGATE_LOGIN_NAME_MAX m (g_x s1 0)"
proof -
  have name: "name = c_string 256 m (g_x s1 0)" "length name \<noteq> 256"
    using assms(1,2) by (auto simp: handle_setlogin_def Let_def split: if_splits)
  have "length name \<le> 256" unfolding name(1) c_string_def using length_takeWhile_le by (metis mem_read_length)
  then have "length name < 256" using name(2) by simp
  moreover have "0 \<notin> set name" unfolding name(1) c_string_def by (auto dest: set_takeWhileD)
  moreover have "m3 = mem_write m2 (g_x s2 0) (name @ [0])"
    using assms(3,4) by (auto simp: handle_getlogin_def Let_def split: if_splits)
  ultimately show ?thesis using c_string_written [of name 256] name(1) by simp
qed

theorem login_name_round_trip_witness:
  "c_string 256 (snd (handle_getlogin (ascii ''guest'') (example_gate 0x2000 16 0) (\<lambda>_. 7))) 0x2000 = ascii ''guest''"
proof -
  let ?m = "mem_write (\<lambda>_. 7) 0x1000 (ascii ''guest'' @ [0])"
  let ?s1 = "example_gate 0x1000 0 0" and ?s2 = "example_gate 0x2000 16 0"
  have "0 \<notin> set (ascii ''guest'')" "length (ascii ''guest'') = 5" by code_simp+
  then have name: "c_string 256 ?m 0x1000 = ascii ''guest''" by (simp add: c_string_written)
  have "handle_setlogin [] ?s1 ?m = (set_success 0 ?s1, ascii ''guest'')"
    using name \<open>length _ = 5\<close> by (simp add: handle_setlogin_def example_gate_def)
  moreover have "\<not> carry_set (fst (handle_getlogin (ascii ''guest'') ?s2 (\<lambda>_. 7)))"
    using \<open>length _ = 5\<close> by (simp add: handle_getlogin_def example_gate_def Let_def)
  ultimately show ?thesis
    using login_name_round_trip [of "[]" ?s1 ?m _ "ascii ''guest''" ?s2 "\<lambda>_. 7"
      "fst (handle_getlogin (ascii ''guest'') ?s2 (\<lambda>_. 7))" "snd (handle_getlogin (ascii ''guest'') ?s2 (\<lambda>_. 7))"]
      name by (simp add: example_gate_def)
qed

section \<open>Which paths are hidden\<close>

text \<open>
  C30.  A path is hidden from \<open>readlink\<close> exactly when it is \<open>/proc/\<close>, then one or more
  digits, then \<open>/exe\<close>.
\<close>

theorem hide_proc_exe_iff:
  "should_hide_proc_exe_symlink path \<longleftrightarrow>
    (\<exists>ds. ds \<noteq> [] \<and> list_all is_digit ds \<and> path = ascii ''/proc/'' @ ds @ ascii ''/exe'')"
proof -
  have exe: "ascii ''/exe'' = [47, 101, 120, 101]" and proc: "ascii ''/proc/'' = [47, 112, 114, 111, 99, 47]"
    and self: "ascii ''/proc/self/exe'' = [47, 112, 114, 111, 99, 47, 115, 101, 108, 102, 47, 101, 120, 101]" by code_simp+
  have nd: "\<not> is_digit 47" "\<not> is_digit 115" by (simp_all add: is_digit_def)
  show ?thesis
  proof
    assume h: "should_hide_proc_exe_symlink path"
    let ?c = "drop 6 path"
    have c: "take 6 path = ascii ''/proc/''" "?c \<noteq> []" "is_digit (hd ?c)" "dropWhile is_digit ?c = ascii ''/exe''"
      using h by (auto simp: should_hide_proc_exe_symlink_def Let_def split: if_splits)
    have "path = ascii ''/proc/'' @ takeWhile is_digit ?c @ ascii ''/exe''"
      using c(1,4) by (metis append_take_drop_id takeWhile_dropWhile_id)
    moreover have "takeWhile is_digit ?c \<noteq> []" using c(2,3) by (cases ?c) auto
    moreover have "list_all is_digit (takeWhile is_digit ?c)" by (auto simp: list_all_iff dest: set_takeWhileD)
    ultimately show "\<exists>ds. ds \<noteq> [] \<and> list_all is_digit ds \<and> path = ascii ''/proc/'' @ ds @ ascii ''/exe''" by blast
  next
    assume "\<exists>ds. ds \<noteq> [] \<and> list_all is_digit ds \<and> path = ascii ''/proc/'' @ ds @ ascii ''/exe''"
    then obtain ds where ds: "ds \<noteq> []" "list_all is_digit ds" "path = ascii ''/proc/'' @ ds @ ascii ''/exe''" by blast
    then obtain d ds' where d: "ds = d # ds'" "is_digit d" by (cases ds) auto
    have "dropWhile is_digit (ds @ ascii ''/exe'') = ascii ''/exe''"
      using ds(2) nd by (simp add: exe list_all_iff dropWhile_append2)
    moreover have "d \<noteq> 115" using d(2) nd by auto
    ultimately show "should_hide_proc_exe_symlink path"
      using ds d by (simp add: should_hide_proc_exe_symlink_def proc self)
  qed
qed

end
