(* ===== verification/Range_000.thy ===== *)
theory Range_000
  imports Sockets Files_000
begin

text \<open>
  \<open>syscall_range_000_099_dispatch\<close> (\<open>syscall_range_000_099.c\<close>): the switch over the
  numbers 0 to 99.  The kernel's calls are the fields of \<open>kernel_000\<close>; the state besides the
  guest's memory and the table of mappings is the login name and the kernel.
\<close>

record 'k kernel_000 =
  k_syscall :: "'k syscall"
  k_fstat :: "'k fstat"
  k_stat_path :: "u64 \<Rightarrow> memory \<times> 'k \<Rightarrow> (int \<times> int \<times> linux_stat) \<times> memory \<times> 'k"
  k_fcntl :: "'k sys_fcntl"
  k_pselect6 :: "'k sys_pselect6"
  k_mounts :: "memory \<times> 'k \<Rightarrow> int + mntent list"
  k_statfs :: "'k sys_statfs"
  k_wait4 :: "'k sys_wait4"
  k_pipe2 :: "memory \<times> 'k \<Rightarrow> ((int \<times> int) \<times> int \<times> int) \<times> memory \<times> 'k"
  k_nofile :: "memory \<times> 'k \<Rightarrow> ((int \<times> int) \<times> u64) \<times> memory \<times> 'k"
  k_accept :: "'k name_call"
  k_getpeername :: "'k name_call"
  k_getsockname :: "'k name_call"
  k_recvfrom :: "int \<Rightarrow> u64 \<Rightarrow> u64 \<Rightarrow> u32 \<Rightarrow> bool \<Rightarrow> u8 list \<Rightarrow> memory \<times> 'k \<Rightarrow> (int \<times> int) \<times> (u8 list \<times> u32) \<times> memory \<times> 'k"
  k_sendmsg :: "int \<Rightarrow> linux_msghdr \<Rightarrow> u32 \<Rightarrow> memory \<times> 'k \<Rightarrow> (int \<times> int) \<times> memory \<times> 'k"
  k_recvmsg :: "int \<Rightarrow> linux_msghdr \<Rightarrow> u32 \<Rightarrow> memory \<times> 'k \<Rightarrow> (int \<times> int) \<times> linux_msghdr \<times> memory \<times> 'k"
  k_socket :: "int \<Rightarrow> u32 \<Rightarrow> int \<Rightarrow> 'k \<Rightarrow> (int \<times> int) \<times> 'k"
  k_connect :: "int \<Rightarrow> u8 list \<Rightarrow> u32 \<Rightarrow> 'k \<Rightarrow> (int \<times> int) \<times> 'k"
  k_kill :: "int \<Rightarrow> int \<Rightarrow> 'k \<Rightarrow> (int \<times> int) \<times> 'k"
  k_sigaction :: "int \<Rightarrow> linux_sigaction option \<Rightarrow> 'k \<Rightarrow> (int \<times> int \<times> linux_sigaction) \<times> 'k"
  k_sigprocmask :: "int \<Rightarrow> u64 option \<Rightarrow> 'k \<Rightarrow> (int \<times> int \<times> u64) \<times> 'k"
  k_sigpending :: "'k \<Rightarrow> (int \<times> int \<times> u64) \<times> 'k"
  k_sigaltstack :: "sig_stack option \<Rightarrow> 'k \<Rightarrow> (int \<times> int \<times> sig_stack) \<times> 'k"
  k_in_fork_child :: "'k \<Rightarrow> bool"
  k_execve :: "u64 \<Rightarrow> u64 \<Rightarrow> u64 \<Rightarrow> memory \<times> 'k \<Rightarrow> int option \<times> memory \<times> 'k"

section \<open>Numbers that are not served\<close>

definition enosys_numbers :: "u64 list" where
  "enosys_numbers =
     [0, 8, 11, 17, 19, 21, 22, 40, 44, 45, 62, 63, 64, 69, 70, 71, 72, 76, 77, 84, 87, 88, 91, 94, 99]"

section \<open>Numbers that are passed on\<close>

text \<open>
  The calls that go to one Linux call with the guest's arguments: the Linux number and the
  arguments, by the groups of the switch.
\<close>

definition uint_reg :: "gate_state \<Rightarrow> nat \<Rightarrow> u64" where
  "uint_reg s i = ucast (ucast (g_x s i) :: u32)"

definition passed_on_low :: "gate_state \<Rightarrow> (int \<times> u64 list) option" where
  "passed_on_low s =
     (let n = g_x s 16 in
      if n = 2 then Some (220, [17, 0, 0, 0, 0])
      else if n = 3 then Some (SYS_read, [int_reg s 0, g_x s 1, g_x s 2])
      else if n = 5 then Some (SYS_openat, [AT_FDCWD, g_x s 0,
        word_of_int (sint (translate_open_flags_to_linux (ucast (g_x s 1)))), uint_reg s 2])
      else if n = 6 then Some (SYS_close, [int_reg s 0])
      else if n = 9 then Some (37, [AT_FDCWD, g_x s 0, AT_FDCWD, g_x s 1, 0])
      else if n = 10 then Some (35, [AT_FDCWD, g_x s 0, 0])
      else if n = 12 then Some (49, [g_x s 0])
      else if n = 13 then Some (50, [int_reg s 0])
      else if n = 14 then Some (33, [AT_FDCWD, g_x s 0, uint_reg s 1, g_x s 2])
      else if n = 15 then Some (53, [AT_FDCWD, g_x s 0, uint_reg s 1, 0])
      else if n = 16 then Some (54, [AT_FDCWD, g_x s 0, uint_reg s 1, uint_reg s 2, 0])
      else if n = 20 then Some (172, [])
      else if n = 23 then Some (146, [uint_reg s 0])
      else if n = 24 then Some (174, [])
      else if n = 25 then Some (175, [])
      else None)"

definition passed_on_mid :: "gate_state \<Rightarrow> (int \<times> u64 list) option" where
  "passed_on_mid s =
     (let n = g_x s 16 in
      if n = 33 then Some (48, [AT_FDCWD, g_x s 0, int_reg s 1, 0])
      else if n = 39 then Some (173, [])
      else if n = 41 then Some (23, [int_reg s 0])
      else if n = 43 then Some (177, [])
      else if n = 51 \<and> g_x s 0 \<noteq> 0 then Some (89, [g_x s 0])
      else if n = 47 then Some (176, [])
      else if n = 57 then Some (36, [g_x s 0, AT_FDCWD, g_x s 1])
      else if n = 60 then Some (166, [uint_reg s 0])
      else None)"

definition passed_on_high :: "gate_state \<Rightarrow> (int \<times> u64 list) option" where
  "passed_on_high s =
     (let n = g_x s 16 in
      if n = 65 then Some (227, [g_x s 0, g_x s 1, word_of_int (sint (translate_msync_flags_to_linux (ucast (g_x s 2))))])
      else if n = 74 then Some (SYS_mprotect, [g_x s 0, g_x s 1, int_reg s 2])
      else if n = 78 then Some (232, [g_x s 0, g_x s 1, g_x s 2])
      else if n = 79 then Some (158, [int_reg s 0, g_x s 1])
      else if n = 80 then Some (159, [g_x s 0, g_x s 1])
      else if n = 81 then Some (155, [0])
      else if n = 82 then Some (154, [int_reg s 0, int_reg s 1])
      else if n = 83 then Some (103, [int_reg s 0, g_x s 1, g_x s 2])
      else if n = 86 then Some (102, [int_reg s 0, g_x s 1])
      else if n = 95 then Some (SYS_fsync, [int_reg s 0])
      else if n = 96 then Some (140, [int_reg s 0, uint_reg s 1, int_reg s 2])
      else None)"

definition passed_on :: "gate_state \<Rightarrow> (int \<times> u64 list) option" where
  "passed_on s =
     (case passed_on_low s of Some c \<Rightarrow> Some c
      | None \<Rightarrow> (case passed_on_mid s of Some c \<Rightarrow> Some c | None \<Rightarrow> passed_on_high s))"

section \<open>Numbers with an answer of their own\<close>

definition answered_numbers :: "(u64 \<times> int) list" where
  "answered_numbers =
     [(66, DARWIN_EAGAIN), (26, DARWIN_EPERM), (38, DARWIN_EINVAL), (55, DARWIN_EPERM), (56, DARWIN_ENOTSUP),
      (61, DARWIN_EPERM), (85, DARWIN_EPERM)]"

section \<open>The switch\<close>

definition PATH_LIMIT :: nat where "PATH_LIMIT = 4096"

definition raw_getdtablesize ::
  "(memory \<times> 'k \<Rightarrow> ((int \<times> int) \<times> u64) \<times> memory \<times> 'k) \<Rightarrow> memory \<times> 'k \<Rightarrow> (int \<times> int) \<times> memory \<times> 'k" where
  "raw_getdtablesize nofile w =
     (case nofile w of (((result, err), rlim_cur), w') \<Rightarrow>
        if result < 0 then ((result, err), w') else ((sint rlim_cur, err), w'))"

definition handle_readlink :: "'k syscall \<Rightarrow> gate_state \<Rightarrow> memory \<times> 'k \<Rightarrow> gate_state \<times> memory \<times> 'k" where
  "handle_readlink syscall state w =
     (if g_x state 0 \<noteq> 0 \<and> should_hide_proc_exe_symlink (c_string PATH_LIMIT (fst w) (g_x state 0))
      then (set_failure DARWIN_ENOENT state, w)
      else case syscall 78 [AT_FDCWD, g_x state 0, g_x state 1, g_x state 2] w of
        (r, w') \<Rightarrow> (finish_syscall_result_000 (snd r) (fst r) state, w'))"

definition handle_madvise :: "'k syscall \<Rightarrow> gate_state \<Rightarrow> memory \<times> 'k \<Rightarrow> gate_state \<times> memory \<times> 'k" where
  "handle_madvise syscall state w =
     (case translate_madvise_to_linux (int_arg state 2) of
        None \<Rightarrow> (finish_syscall_result_000 ENOSYS (-1) state, w)
      | Some linux_behavior \<Rightarrow> (case syscall 233 [g_x state 0, g_x state 1, word_of_int linux_behavior] w of
          (r, w') \<Rightarrow> (finish_syscall_result_000 (snd r) (fst r) state, w')))"

text \<open>The handlers that change neither the table of mappings nor the login name.\<close>

definition dispatch_handlers ::
  "'k kernel_000 \<Rightarrow> u8 list \<Rightarrow> gate_state \<Rightarrow> memory \<times> 'k \<Rightarrow> (gate_state \<times> memory \<times> 'k) option" where
  "dispatch_handlers K junk state w =
     (let n = g_x state 16;
          on_kernel = \<lambda>h. (case h (snd w) of (state', k') \<Rightarrow> (state', fst w, k'));
          finish = \<lambda>(r, w'). (finish_syscall_result_000 (snd r) (fst r) state, w')
      in if n = 18 then Some (handle_getfsstat (k_mounts K) (k_statfs K) state w)
         else if n = 7 then Some (handle_wait4_single_process (k_wait4 K) state w)
         else if n = 4 then Some (finish (write_syscall_with_sigpipe_guard (k_syscall K)
           (\<lambda>sig act (m, k). case k_sigaction K sig act k of (r, k') \<Rightarrow> (r, m, k')) SYS_write (int_reg state 0) (g_x state 1) (g_x state 2) w))
         else if n = 27 then Some (handle_recvmsg (k_recvmsg K) junk state w)
         else if n = 28 then Some (handle_sendmsg (k_sendmsg K) junk state w)
         else if n = 29 then Some (handle_recvfrom (k_recvfrom K) junk state w)
         else if n = 30 then Some (handle_accept (k_accept K) junk state w)
         else if n = 31 then Some (handle_getpeername (k_getpeername K) junk state w)
         else if n = 32 then Some (handle_getsockname (k_getsockname K) junk state w)
         else if n = 34 then Some (handle_chflags (k_stat_path K) state w)
         else if n = 35 then Some (handle_fchflags (k_fstat K) state w)
         else if n = 36 then Some (set_success 0 state, snd (k_syscall K 81 [] w))
         else if n = 37 then Some (on_kernel (handle_kill (k_kill K) state))
         else if n = 42 then Some (case k_pipe2 K w of ((r, fds), w') \<Rightarrow> (finish_pipe_result state r fds, w'))
         else if n = 46 then Some (handle_sigaction (k_in_fork_child K (snd w)) (k_sigaction K) state (fst w) (snd w))
         else if n = 48 then Some (handle_sigprocmask (k_sigprocmask K) state (fst w) (snd w))
         else if n = 52 then Some (handle_sigpending (k_sigpending K) state (fst w) (snd w))
         else if n = 53 then Some (handle_sigaltstack (k_sigaltstack K) state (fst w) (snd w))
         else if n = 54 then Some (handle_ioctl (k_syscall K) (k_fcntl K) state w)
         else if n = 58 then Some (handle_readlink (k_syscall K) state w)
         else if n = 75 then Some (handle_madvise (k_syscall K) state w)
         else if n = 89 then Some (finish (raw_getdtablesize (k_nofile K) w))
         else if n = 90 then Some (finish (raw_dup2 (k_syscall K) (k_fcntl K) (int_arg state 0) (int_arg state 1) w))
         else if n = 92 then Some (finish (raw_fcntl (k_syscall K) (k_fstat K) (k_fcntl K) (int_arg state 0) (int_arg state 1) (g_x state 2) w))
         else if n = 93 then Some (handle_select (k_pselect6 K) state w)
         else if n = 97 then Some (on_kernel (handle_socket (k_socket K) state))
         else if n = 98 then Some (on_kernel (handle_connect (k_connect K) junk state (fst w)))
         else None)"

definition syscall_range_000_099_dispatch ::
  "'k kernel_000 \<Rightarrow> u8 list \<Rightarrow> (u8 list \<times> 'k) range_dispatch" where
  "syscall_range_000_099_dispatch K junk sw =
     (let (state, t, m, login_name, k) = sw;
          n = g_x state 16;
          keep = \<lambda>state'. (True, Returned state' (t, m, login_name, k));
          finish = \<lambda>(r, m', k'). (True, Returned (finish_syscall_result_000 (snd r) (fst r) state) (t, m', login_name, k'))
      in if n > 99 then (False, Returned state (t, m, login_name, k))
         else if n \<in> set enosys_numbers then keep (set_failure DARWIN_ENOSYS state)
         else if n = 1 then (True, Exited (int_arg state 0))
         else case map_of answered_numbers n of Some err \<Rightarrow> keep (set_failure err state)
         | None \<Rightarrow> (case passed_on state of Some (number, args) \<Rightarrow> finish (k_syscall K number args (m, k))
         | None \<Rightarrow> (case dispatch_handlers K junk state (m, k) of
             Some (state', m', k') \<Rightarrow> (True, Returned state' (t, m', login_name, k'))
           | None \<Rightarrow>
               if n = 49 then (case handle_getlogin login_name state m of (state', m') \<Rightarrow> (True, Returned state' (t, m', login_name, k)))
               else if n = 50 then (case handle_setlogin login_name state m of (state', name) \<Rightarrow> (True, Returned state' (t, m, name, k)))
               else if n = 51 \<or> n = 67 \<or> n = 68 then keep (set_success 0 state)
               else if n = 59 then (case k_execve K (g_x state 0) (g_x state 1) (g_x state 2) (m, k) of
                   (None, _) \<Rightarrow> (True, Replaced)
                 | (Some err, m', k') \<Rightarrow> (True, Returned (set_failure err state) (t, m', login_name, k')))
               else if n = 73 then (case machgate_dispatch_darwin_munmap (k_syscall K) (g_x state 0) (g_x state 1) (t, m, k) of
                   (r, t', m', k') \<Rightarrow> (True, Returned (finish_syscall_result_000 (snd r) (fst r) state) (t', m', login_name, k')))
               else keep (set_failure DARWIN_ENOSYS state))))"

section \<open>What a call may change\<close>

named_theorems answers

lemma same_but_result_finish [simp]: "same_but_result s (finish_syscall_result_000 e r s)"
  by (simp add: finish_syscall_result_000_def)

lemma answers_simple [answers]:
  "same_but_result s (fst (handle_getfsstat mounts statfs s w))"
  "same_but_result s (fst (handle_wait4_single_process wait4 s w))"
  "same_but_result s (fst (handle_chflags stat s w))"
  "same_but_result s (fst (handle_fchflags fstat s w))"
  "same_but_result s (fst (handle_kill kill s k))"
  "same_but_result s (fst (handle_readlink syscall s w))"
  "same_but_result s (fst (handle_madvise syscall s w))"
  "same_but_result s (fst (handle_getlogin name s m))"
  "same_but_result s (fst (handle_setlogin name s m))"
  by (auto simp: handle_getfsstat_def handle_wait4_single_process_def handle_chflags_def handle_fchflags_def
      handle_kill_def handle_readlink_def handle_madvise_def handle_getlogin_def handle_setlogin_def Let_def
      split: prod.splits sum.splits option.splits)

lemma answers_signals [answers]:
  "same_but_result s (fst (handle_sigprocmask f s m k))"
  "same_but_result s (fst (handle_sigpending g s m k))"
  "same_but_result s (fst (handle_sigaltstack h s m k))"
  "same_but_result s (fst (handle_sigaction c j s m k))"
  by (auto simp: handle_sigprocmask_def handle_sigpending_def handle_sigaltstack_def handle_sigaction_def Let_def
      split: prod.splits option.splits)

lemma answers_name_result: "same_but_result s (fst (handle_socket_name_result s r name len m))"
  by (auto simp: handle_socket_name_result_def split: prod.splits sum.splits)

lemma answers_sockets [answers]:
  "same_but_result s (fst (handle_accept f junk s w))"
  "same_but_result s (fst (handle_getpeername f junk s w))"
  "same_but_result s (fst (handle_getsockname f junk s w))"
  "same_but_result s (fst (handle_socket g s k))"
  "same_but_result s (fst (handle_connect h junk s m k))"
  "same_but_result s (fst (handle_recvfrom i junk s w))"
  "same_but_result s (fst (handle_sendmsg j junk s w))"
  using answers_name_result [of s]
  by (auto simp: handle_accept_def handle_getpeername_def handle_getsockname_def handle_socket_def handle_connect_def
      handle_recvfrom_def handle_sendmsg_def split: prod.splits sum.splits option.splits) (metis fst_conv)+

lemma answers_recvmsg [answers]: "same_but_result s (fst (handle_recvmsg f junk s w))"
  by (auto simp: handle_recvmsg_def Let_def split: prod.splits sum.splits)

lemma answers_ioctl [answers]: "same_but_result s (fst (handle_ioctl f g s w))"
  by (auto simp: handle_ioctl_def Let_def split: prod.splits option.splits)

lemma answers_select [answers]: "same_but_result s (fst (handle_select f s w))"
  by (auto simp: handle_select_def Let_def split: prod.splits)

lemma dispatch_handlers_answer:
  assumes "dispatch_handlers K junk state w = Some (state', w')" and "g_x state 16 \<noteq> 42"
  shows "same_but_result state state'"
proof -
  have "dispatch_handlers K junk state w = None \<or> same_but_result state (fst (the (dispatch_handlers K junk state w)))"
    using assms(2) unfolding dispatch_handlers_def Let_def
    by (simp add: answers case_prod_beta)
  then show ?thesis using assms(1) by simp
qed

lemma pipe_answer:
  "i \<noteq> 0 \<Longrightarrow> i \<noteq> 1 \<Longrightarrow> g_x (finish_pipe_result s r fds) i = g_x s i"
  "g_x30 (finish_pipe_result s r fds) = g_x30 s" "g_pc (finish_pipe_result s r fds) = g_pc s"
  "g_nzcv (finish_pipe_result s r fds) AND NOT DARWIN_CARRY = g_nzcv s AND NOT DARWIN_CARRY"
  using same_but_result_set(2) [of s]
  by (auto simp: finish_pipe_result_def same_but_result_def bit_eq_iff bit_simps)

lemma range_000_answer:
  assumes "g_x state 16 \<le> 99" and "g_x state 16 \<notin> {1, 42, 59}"
  shows "\<exists>state' w'. syscall_range_000_099_dispatch K junk (state, w) = (True, Returned state' w') \<and> same_but_result state state'"
proof -
  let ?d = "syscall_range_000_099_dispatch K junk (state, w)" and ?n = "g_x state 16"
  obtain t m name k where w: "w = (t, m, name, k)" by (cases w)
  have n: "\<not> ?n > 99" "?n \<noteq> 1" "?n \<noteq> 59" "?n \<noteq> 42" using assms by auto
  note d = syscall_range_000_099_dispatch_def w
  consider (unserved) "?n \<in> set enosys_numbers"
    | (refused) err where "?n \<notin> set enosys_numbers" "map_of answered_numbers ?n = Some err"
    | (passed) c where "?n \<notin> set enosys_numbers" "map_of answered_numbers ?n = None" "passed_on state = Some c"
    | (handled) r where "?n \<notin> set enosys_numbers" "map_of answered_numbers ?n = None" "passed_on state = None"
        "dispatch_handlers K junk state (m, k) = Some r"
    | (rest) "?n \<notin> set enosys_numbers" "map_of answered_numbers ?n = None" "passed_on state = None"
        "dispatch_handlers K junk state (m, k) = None"
    by blast
  then show ?thesis
  proof cases
    case unserved
    then have "?d = (True, Returned (set_failure DARWIN_ENOSYS state) w)" using n by (simp add: d)
    then show ?thesis using same_but_result_set by blast
  next
    case refused
    then have "?d = (True, Returned (set_failure err state) w)" using n by (simp add: d)
    then show ?thesis using same_but_result_set by blast
  next
    case passed
    obtain number args r m' k' where "c = (number, args)" "k_syscall K number args (m, k) = (r, m', k')" by (metis surj_pair)
    then have "?d = (True, Returned (finish_syscall_result_000 (snd r) (fst r) state) (t, m', name, k'))"
      using passed n by (simp add: d)
    then show ?thesis using same_but_result_finish by blast
  next
    case handled
    obtain state' m' k' where r: "r = (state', m', k')" by (cases r)
    then have "?d = (True, Returned state' (t, m', name, k'))" using handled n by (simp add: d)
    then show ?thesis using dispatch_handlers_answer [OF _ n(4)] handled(4) r by blast
  next
    case rest
    obtain s1 m1 s2 name2 r t' m' k' where "handle_getlogin name state m = (s1, m1)"
      "handle_setlogin name state m = (s2, name2)"
      "machgate_dispatch_darwin_munmap (k_syscall K) (g_x state 0) (g_x state 1) (t, m, k) = (r, t', m', k')"
      by (metis surj_pair)
    note h = this
    have "?d \<in> {(True, Returned s1 (t, m1, name, k)), (True, Returned s2 (t, m, name2, k)),
        (True, Returned (set_success 0 state) w), (True, Returned (set_failure DARWIN_ENOSYS state) w),
        (True, Returned (finish_syscall_result_000 (snd r) (fst r) state) (t', m', name, k'))}"
      using rest n h by (simp add: d Let_def)
    moreover have "same_but_result state s1" "same_but_result state s2"
      using h(1,2) answers_simple(8,9) [of state name m] by simp_all
    ultimately show ?thesis using same_but_result_set same_but_result_finish by blast
  qed
qed


text \<open>A kernel that refuses everything.\<close>

definition refusing_kernel :: "unit kernel_000" where
  "refusing_kernel =
     \<lparr>k_syscall = (\<lambda>n args w. ((-1, 38), w)), k_fstat = (\<lambda>fd w. ((-1, 9, undefined), w)),
      k_stat_path = (\<lambda>p w. ((-1, 2, undefined), w)), k_fcntl = (\<lambda>fd cmd arg w. ((-1, 9), arg, w)),
      k_pselect6 = (\<lambda>n sets t w. ((-1, 22), sets, w)), k_mounts = (\<lambda>w. Inl 2), k_statfs = (\<lambda>p w. ((-1, undefined), w)),
      k_wait4 = (\<lambda>pid s opt u w. (((-1, 10), 0, undefined), w)), k_pipe2 = (\<lambda>w. (((-1, 24), 0, 0), w)),
      k_nofile = (\<lambda>w. (((-1, 22), 0), w)), k_accept = (\<lambda>fd b n k. ((-1, 9), (n, 0), k)),
      k_getpeername = (\<lambda>fd b n k. ((-1, 9), (n, 0), k)), k_getsockname = (\<lambda>fd b n k. ((-1, 9), (n, 0), k)),
      k_recvfrom = (\<lambda>fd a sz fl b n w. ((-1, 9), (n, 0), w)), k_sendmsg = (\<lambda>fd h fl w. ((-1, 9), w)),
      k_recvmsg = (\<lambda>fd h fl w. ((-1, 9), h, w)), k_socket = (\<lambda>d ty p k. ((-1, 97), k)),
      k_connect = (\<lambda>fd n len k. ((-1, 111), k)), k_kill = (\<lambda>pid sig k. ((-1, 3), k)),
      k_sigaction = (\<lambda>sig act k. ((-1, 22, \<lparr>la_handler = 0, la_mask = 0, la_flags = 0\<rparr>), k)),
      k_sigprocmask = (\<lambda>how s k. ((-1, 22, 0), k)), k_sigpending = (\<lambda>k. ((-1, 14, 0), k)),
      k_sigaltstack = (\<lambda>s k. ((-1, 22, \<lparr>ss_sp = 0, ss_size = 0, ss_flags = 0\<rparr>), k)),
      k_in_fork_child = (\<lambda>k. False), k_execve = (\<lambda>p a e w. (Some 2, w))\<rparr>"


section \<open>Below the gate\<close>

text \<open>The numbers that come back to the guest with one result.\<close>

definition served_calls :: "u64 set" where
  "served_calls = gate_calls \<union> {n. n \<le> 99 \<and> n \<notin> {1, 42, 59}}"

lemma gate_served:
  assumes "g_x state 16 \<in> served_calls"
  obtains state' w' where
    "syscall_gate_dispatch syscall sigaction fstat (syscall_range_000_099_dispatch K junk # ranges) state w = Returned state' w'"
    "same_but_result state state'"
proof (cases "g_x state 16 \<in> gate_calls")
  case True
  obtain v e w' where "syscall_gate_dispatch syscall sigaction fstat (syscall_range_000_099_dispatch K junk # ranges) state w \<in>
    {Returned (set_success v state) w', Returned (set_failure (errno_or_eio e) state) w'}"
    by (rule gate_dispatch_result [OF True])
  then show thesis using that same_but_result_set by blast
next
  case False
  then have n: "g_x state 16 \<le> 99" "g_x state 16 \<notin> {1, 42, 59}" using assms by (auto simp: served_calls_def)
  obtain state' w' where r: "syscall_range_000_099_dispatch K junk (state, w) = (True, Returned state' w')" "same_but_result state state'"
    using range_000_answer [OF n] by blast
  have "syscall_gate_dispatch syscall sigaction fstat (syscall_range_000_099_dispatch K junk # ranges) state w = Returned state' w'"
    using False n r(1) by (simp add: syscall_gate_dispatch_def gate_calls_def case_prod_beta)
  then show thesis using that r(2) by blast
qed

end
