(* ===== verification/Macho_Symtab.thy ===== *)
theory Macho_Symtab
  imports Macho
begin

text \<open>
  The symbol table of a Mach-O image, as \<open>macho_defs.h\<close> declares it: the load command, the entries, and
  the comparison of the strings of its string table.
\<close>

section \<open>Structures\<close>

abbreviation (input) LC_SYMTAB :: u32 where "LC_SYMTAB \<equiv> 2"
abbreviation (input) N_STAB :: u8 where "N_STAB \<equiv> 0xE0"
abbreviation (input) N_TYPE :: u8 where "N_TYPE \<equiv> 0x0E"
abbreviation (input) N_EXT :: u8 where "N_EXT \<equiv> 0x01"
abbreviation (input) N_SECT :: u8 where "N_SECT \<equiv> 0x0E"

record symtab_command =
  symoff :: u32
  nsyms :: u32
  stroff :: u32
  strsize :: u32

definition symtab_command_at :: "memory \<Rightarrow> u64 \<Rightarrow> symtab_command" where
  "symtab_command_at m a =
     \<lparr>symoff = rd32 m (a + 8), nsyms = rd32 m (a + 12), stroff = rd32 m (a + 16), strsize = rd32 m (a + 20)\<rparr>"

record nlist_64 =
  n_strx :: u32
  n_type :: u8
  n_sect :: u8
  n_desc :: u16
  n_value :: u64

definition nlist_64_at :: "memory \<Rightarrow> u64 \<Rightarrow> nlist_64" where
  "nlist_64_at m a =
     \<lparr>n_strx = rd32 m a, n_type = m (a + 4), n_sect = m (a + 5), n_desc = le_val (mem_read 2 m (a + 6)),
      n_value = rd64 m (a + 8)\<rparr>"

section \<open>Strings\<close>

text \<open>\<open>strcmp(p, s) == 0\<close> for a string \<open>s\<close> of non-null bytes.\<close>

definition cstr_eq :: "memory \<Rightarrow> u64 \<Rightarrow> u8 list \<Rightarrow> bool" where
  "cstr_eq m a s \<longleftrightarrow> mem_read (Suc (length s)) m a = s @ [0]"

definition bytes_of :: "string \<Rightarrow> u8 list" where
  "bytes_of s = map (\<lambda>c. of_nat (of_char c)) s"

text \<open>The string of a table that ends at \<open>n\<close> bytes, and when it ends inside.\<close>

definition cstr_within :: "nat \<Rightarrow> memory \<Rightarrow> u64 \<Rightarrow> u8 list" where
  "cstr_within n m a = takeWhile (\<lambda>b. b \<noteq> 0) (mem_read n m a)"

definition cstr_ends :: "nat \<Rightarrow> memory \<Rightarrow> u64 \<Rightarrow> bool" where
  "cstr_ends n m a \<longleftrightarrow> 0 \<in> set (mem_read n m a)"

lemma takeWhile_stop: "x \<notin> set s \<Longrightarrow> takeWhile (\<lambda>b. b \<noteq> x) (s @ x # r) = s"
  by (induction s) auto

lemma takeWhile_first:
  assumes "x \<notin> set s" and "take (Suc (length s)) xs = s @ [x]" shows "takeWhile (\<lambda>b. b \<noteq> x) xs = s"
proof -
  have "xs = s @ x # drop (Suc (length s)) xs"
    using append_take_drop_id [of "Suc (length s)" xs] assms(2) by simp
  then have "takeWhile (\<lambda>b. b \<noteq> x) xs = takeWhile (\<lambda>b. b \<noteq> x) (s @ x # drop (Suc (length s)) xs)" by (rule arg_cong)
  then show ?thesis by (simp only: takeWhile_stop [OF assms(1)])
qed

lemma cstr_eq_within:
  assumes "cstr_ends n m a" and "0 \<notin> set s"
  shows "cstr_eq m a s \<longleftrightarrow> cstr_within n m a = s"
proof -
  let ?xs = "mem_read n m a"
  have pre: "k \<le> n \<Longrightarrow> mem_read k m a = take k ?xs" for k using mem_read_sub [of 0 k n m a] by simp
  have ends: "takeWhile (\<lambda>b. b \<noteq> 0) ?xs @ [0] = take (Suc (length (takeWhile (\<lambda>b. b \<noteq> 0) ?xs))) ?xs"
    and lt: "length (takeWhile (\<lambda>b. b \<noteq> 0) ?xs) < n"
  proof -
    obtain us vs where x: "?xs = us @ 0 # vs" "0 \<notin> set us" using assms(1) split_list_first by (metis cstr_ends_def)
    have tw: "takeWhile (\<lambda>b. b \<noteq> 0) ?xs = us" unfolding x(1) by (rule takeWhile_stop [OF x(2)])
    show "takeWhile (\<lambda>b. b \<noteq> 0) ?xs @ [0] = take (Suc (length (takeWhile (\<lambda>b. b \<noteq> 0) ?xs))) ?xs"
      unfolding tw unfolding x by simp
    have "length ?xs = n" by simp
    then show "length (takeWhile (\<lambda>b. b \<noteq> 0) ?xs) < n" unfolding tw unfolding x by simp
  qed
  show ?thesis
  proof
    assume c: "cstr_eq m a s"
    show "cstr_within n m a = s"
    proof (cases "Suc (length s) \<le> n")
      case True
      then have "take (Suc (length s)) ?xs = s @ [0]" using c pre [OF True] by (simp only: cstr_eq_def)
      then show ?thesis unfolding cstr_within_def by (rule takeWhile_first [OF assms(2)])
    next
      case False
      have "?xs = take n (mem_read (Suc (length s)) m a)"
        using mem_read_sub [of 0 n "Suc (length s)" m a] False by (simp only: of_nat_0 add_0_right drop_0) simp
      also have "\<dots> = take n (s @ [0])" using c by (simp only: cstr_eq_def)
      also have "\<dots> = take n s" using False by simp
      finally have "0 \<in> set (take n s)" using assms(1) by (simp only: cstr_ends_def)
      then show ?thesis using assms(2) by (auto dest: in_set_takeD)
    qed
  next
    assume w: "cstr_within n m a = s"
    then have "Suc (length s) \<le> n" using lt by (simp only: cstr_within_def Suc_le_eq)
    from pre [OF this] show "cstr_eq m a s" using ends w by (simp only: cstr_eq_def cstr_within_def)
  qed
qed

end
