(* ===== verification/Trampoline.thy ===== *)
theory Trampoline
  imports Guest_Call Macho_Symtab
begin

text \<open>
  The trampolines of \<open>trampoline.c\<close>: the functions of a library that was linked into the guest
  statically are replaced at their entry by a branch to an island, which jumps to the native
  function.  The theory has the islands, the search for a native name, the loop over the symbol
  table, and what a call of a patched function does.
\<close>

section \<open>Islands\<close>

abbreviation (input) TRAMPOLINE_LDR_X16 :: u32 where "TRAMPOLINE_LDR_X16 \<equiv> 0x58000050"
abbreviation (input) TRAMPOLINE_BR_X16 :: u32 where "TRAMPOLINE_BR_X16 \<equiv> 0xD61F0200"
abbreviation (input) ISLAND_SIZE :: u64 where "ISLAND_SIZE \<equiv> 16"

record trampoline_pool =
  island_pool :: u64
  island_pool_size :: u64
  island_pool_used :: u64
  stub_island_addr :: u64
  abort_caller_addr :: u64

text \<open>
  A function that writes to the pool takes the variables of the pool and the memory.  The address 0
  stands for a failure, as in the code.
\<close>

type_synonym pool_world = "trampoline_pool \<times> memory"

definition trampoline_set_pool :: "u64 \<Rightarrow> u64 \<Rightarrow> trampoline_pool \<Rightarrow> trampoline_pool" where
  "trampoline_set_pool base sz p = p\<lparr>island_pool := base, island_pool_size := sz, island_pool_used := 0\<rparr>"

definition init_island_pool :: "trampoline_pool \<Rightarrow> int" where
  "init_island_pool p = (if island_pool p \<noteq> 0 then 0 else -1)"

definition pool_exhausted :: "trampoline_pool \<Rightarrow> bool" where
  "pool_exhausted p \<longleftrightarrow> island_pool p = 0 \<or> island_pool_used p + ISLAND_SIZE > island_pool_size p"

definition trampoline_island :: "u64 \<Rightarrow> u8 list" where
  "trampoline_island target_addr =
     le_bytes 4 TRAMPOLINE_LDR_X16 @ le_bytes 4 TRAMPOLINE_BR_X16 @ le_bytes 8 target_addr"

definition alloc_island :: "u64 \<Rightarrow> pool_world \<Rightarrow> u64 \<times> pool_world" where
  "alloc_island native_addr = (\<lambda>(p, m).
     if pool_exhausted p then (0, p, m)
     else let island = island_pool p + island_pool_used p
       in (island, p\<lparr>island_pool_used := island_pool_used p + ISLAND_SIZE\<rparr>,
           mem_write m island (trampoline_island native_addr)))"

definition stub_island :: "u8 list" where
  "stub_island =
     le_bytes 4 (0x52800000 :: u32) @ le_bytes 4 (0xD65F03C0 :: u32) @ le_bytes 4 (0xD503201F :: u32)
     @ le_bytes 4 (0xD503201F :: u32)"

definition get_stub_island :: "pool_world \<Rightarrow> u64 \<times> pool_world" where
  "get_stub_island = (\<lambda>(p, m).
     if stub_island_addr p \<noteq> 0 then (stub_island_addr p, p, m)
     else if pool_exhausted p then (0, p, m)
     else let code = island_pool p + island_pool_used p
       in (code, p\<lparr>stub_island_addr := code, island_pool_used := island_pool_used p + ISLAND_SIZE\<rparr>,
           mem_write m code stub_island))"

text \<open>The address of \<open>trampoline_abort\<close> is that of a function of the loader.\<close>

definition get_abort_caller :: "u64 \<Rightarrow> pool_world \<Rightarrow> u64 \<times> pool_world" where
  "get_abort_caller trampoline_abort = (\<lambda>(p, m).
     if abort_caller_addr p \<noteq> 0 then (abort_caller_addr p, p, m)
     else if pool_exhausted p then (0, p, m)
     else let island = island_pool p + island_pool_used p
       in (island, p\<lparr>abort_caller_addr := island, island_pool_used := island_pool_used p + ISLAND_SIZE\<rparr>,
           mem_write m island (trampoline_island trampoline_abort)))"

text \<open>The range check on the byte offset of a branch, and the branch.\<close>

definition branch_too_far :: "u64 \<Rightarrow> bool" where
  "branch_too_far offset \<longleftrightarrow>
     sint offset < - (128 * 1024 * 1024) \<or> sint offset \<ge> 128 * 1024 * 1024 \<or> offset AND 3 \<noteq> 0"

definition b_insn :: "u64 \<Rightarrow> u32" where
  "b_insn offset = 0x14000000 OR (ucast (signed_drop_bit 2 offset AND 0x03FFFFFF))"

text \<open>The first word of an abort island is written before the range check.\<close>

definition make_abort_island :: "u64 \<Rightarrow> u64 \<Rightarrow> pool_world \<Rightarrow> u64 \<times> pool_world" where
  "make_abort_island trampoline_abort symbol_name w =
     (case get_abort_caller trampoline_abort w of
        (caller, p, m) \<Rightarrow>
          if caller = 0 then (0, p, m)
          else if pool_exhausted p then (0, p, m)
          else let island_addr = island_pool p + island_pool_used p;
                   m1 = wr32 m island_addr 0x58000040;
                   offset = caller - (island_addr + 4)
            in if branch_too_far offset then (0, p, m1)
               else (island_addr, p\<lparr>island_pool_used := island_pool_used p + ISLAND_SIZE\<rparr>,
                     wr64 (wr32 m1 (island_addr + 4) (b_insn offset)) (island_addr + 8) symbol_name))"

definition write_trampoline :: "u64 \<Rightarrow> u64 \<Rightarrow> pool_world \<Rightarrow> int \<times> pool_world" where
  "write_trampoline func_addr native_addr w =
     (case alloc_island native_addr w of
        (island_addr, p, m) \<Rightarrow>
          if island_addr = 0 then (-1, p, m)
          else let offset = island_addr - func_addr
            in if branch_too_far offset then (-1, p, m)
               else (0, p, wr32 m func_addr (b_insn offset)))"

section \<open>Names\<close>

text \<open>
  Both loops of \<open>try_mangling_variants\<close>: the first sixteen positions of a letter, and the names
  with a non-empty subset of them replaced, in the order of the mask.
\<close>

definition letter_positions :: "u8 \<Rightarrow> u8 list \<Rightarrow> nat list" where
  "letter_positions c name = take 16 (filter (\<lambda>i. name ! i = c) [0..<length name])"

fun replace_masked :: "u8 \<Rightarrow> nat \<Rightarrow> nat list \<Rightarrow> u8 list \<Rightarrow> u8 list" where
  "replace_masked d msk [] buf = buf"
| "replace_masked d msk (i # pos) buf =
     replace_masked d (msk div 2) pos (if odd msk then buf[i := d] else buf)"

definition variants :: "u8 \<Rightarrow> u8 \<Rightarrow> u8 list \<Rightarrow> u8 list list" where
  "variants c d name =
     (let pos = letter_positions c name
      in map (\<lambda>msk. replace_masked d msk pos name) [1..<2 ^ length pos])"

text \<open>A library is what \<open>dlsym\<close> answers for it: an address, or 0.\<close>

fun first_found :: "(u8 list \<Rightarrow> u64) \<Rightarrow> u8 list list \<Rightarrow> u64" where
  "first_found dlsym [] = 0"
| "first_found dlsym (buf # bufs) = (if dlsym buf \<noteq> 0 then dlsym buf else first_found dlsym bufs)"

abbreviation (input) chr_y :: u8 where "chr_y \<equiv> 0x79"
abbreviation (input) chr_m :: u8 where "chr_m \<equiv> 0x6D"
abbreviation (input) chr_underscore :: u8 where "chr_underscore \<equiv> 0x5F"

definition try_mangling_variants :: "(u8 list \<Rightarrow> u64) \<Rightarrow> u8 list \<Rightarrow> u64" where
  "try_mangling_variants dlsym name =
     (if letter_positions chr_y name = [] then 0
      else let addr = first_found dlsym (variants chr_y chr_m name)
        in if addr \<noteq> 0 then addr else first_found dlsym (variants chr_m chr_y name))"

definition matches_prefix :: "u8 list \<Rightarrow> u8 list list \<Rightarrow> bool" where
  "matches_prefix name prefixes \<longleftrightarrow> (\<exists>p \<in> set prefixes. take (length p) name = p)"

fun find_override :: "u8 list \<Rightarrow> (u8 list \<times> u64) list \<Rightarrow> u64" where
  "find_override name [] = 0"
| "find_override name ((symbol_name, target) # overrides) =
     (if name = symbol_name then target else find_override name overrides)"

definition lookup_name :: "u8 list \<Rightarrow> u8 list" where
  "lookup_name name = (if name \<noteq> [] \<and> hd name = chr_underscore then tl name else name)"

section \<open>The image\<close>

text \<open>\<open>for (i = 0; i < ncmds; i++) { ...; cmd_ptr += lc->cmdsize; }\<close>: the commands visited.\<close>

fun cmd_ptrs :: "memory \<Rightarrow> u64 \<Rightarrow> nat \<Rightarrow> u64 list" where
  "cmd_ptrs m cmd_ptr 0 = []"
| "cmd_ptrs m cmd_ptr (Suc n) =
     cmd_ptr # cmd_ptrs m (cmd_ptr + ucast (lc_cmdsize (load_command_at m cmd_ptr))) n"

definition all_commands :: "memory \<Rightarrow> u64 \<Rightarrow> u64 list" where
  "all_commands m mh = cmd_ptrs m (mh + 32) (unat (mh_ncmds (mach_header_64_at m mh)))"

definition find_symtab :: "memory \<Rightarrow> u64 \<Rightarrow> symtab_command option" where
  "find_symtab m mh =
     map_option (symtab_command_at m) (find (\<lambda>lc. lc_cmd (load_command_at m lc) = LC_SYMTAB) (all_commands m mh))"

definition fileoff_to_mem :: "memory \<Rightarrow> u64 \<Rightarrow> u64 \<Rightarrow> u32 \<Rightarrow> u64" where
  "fileoff_to_mem m mh slide fileoff =
     (case find (\<lambda>lc. lc_cmd (load_command_at m lc) = LC_SEGMENT_64 \<and>
                (let seg = segment_command_64_at m lc
                 in ucast fileoff \<ge> seg_fileoff seg \<and> ucast fileoff < seg_fileoff seg + seg_filesize seg))
             (all_commands m mh) of
        None \<Rightarrow> 0
      | Some lc \<Rightarrow> (let seg = segment_command_64_at m lc
                   in seg_vmaddr seg + slide + (ucast fileoff - seg_fileoff seg)))"

text \<open>The pages of \<open>__TEXT\<close>, which both patching functions make writable.\<close>

definition seg_TEXT :: "u8 list" where
  "seg_TEXT = [0x5F, 0x5F, 0x54, 0x45, 0x58, 0x54]"

definition text_pages :: "u64 \<Rightarrow> memory \<Rightarrow> u64 \<Rightarrow> u64 \<Rightarrow> (u64 \<times> u64) option" where
  "text_pages sys_page_size m mh slide =
     (case find (\<lambda>lc. lc_cmd (load_command_at m lc) = LC_SEGMENT_64 \<and>
                seg_name (segment_command_64_at m lc) = seg_TEXT) (all_commands m mh) of
        None \<Rightarrow> None
      | Some lc \<Rightarrow>
          let seg = segment_command_64_at m lc;
              text_patch_base = (seg_vmaddr seg + slide) AND NOT (sys_page_size - 1);
              seg_end = seg_vmaddr seg + slide + seg_vmsize seg;
              seg_end = (seg_end + sys_page_size - 1) AND NOT (sys_page_size - 1)
          in Some (text_patch_base, seg_end - text_patch_base))"

section \<open>Patching\<close>

abbreviation (input) PROT_RX :: u32 where "PROT_RX \<equiv> 5"
abbreviation (input) PROT_RWX :: u32 where "PROT_RWX \<equiv> 7"

text \<open>
  What the loop over the symbols of one library knows: the string table, the pages of \<open>__TEXT\<close>, and
  how a name is resolved.  Without a library the loop is in stub mode.
\<close>

record patch_job =
  job_slide :: u64
  strtab :: u64
  job_strsize :: u32
  text_patch_base :: u64
  text_patch_size :: u64
  prefixes :: "u8 list list"
  overrides :: "(u8 list \<times> u64) list"
  native_lib :: "(u8 list \<Rightarrow> u64) option"
  trampoline_abort :: u64

text \<open>What the entry of a patched function leads to: a target, or the trap of a named symbol.\<close>

datatype patch_target = To u64 | Trap u64

definition symbol_name :: "patch_job \<Rightarrow> memory \<Rightarrow> nlist_64 \<Rightarrow> u8 list" where
  "symbol_name job m nl =
     takeWhile (\<lambda>b. b \<noteq> 0) (mem_read (unat (job_strsize job - n_strx nl)) m (strtab job + ucast (n_strx nl)))"

definition in_text :: "patch_job \<Rightarrow> u64 \<Rightarrow> bool" where
  "in_text job func_addr \<longleftrightarrow>
     \<not> (func_addr < text_patch_base job \<or> func_addr \<ge> text_patch_base job + text_patch_size job)"

definition native_target :: "(u8 list \<Rightarrow> u64) \<Rightarrow> u8 list \<Rightarrow> u64" where
  "native_target dlsym name =
     (let l = lookup_name name;
          target = dlsym l
      in if target = 0 \<and> take 3 l = [0x5F, 0x5A, 0x4E] then try_mangling_variants dlsym l else target)"

definition symbol_target :: "patch_job \<Rightarrow> u8 list \<Rightarrow> pool_world \<Rightarrow> u64 \<times> pool_world" where
  "symbol_target job name w =
     (let target = find_override name (overrides job)
      in if target \<noteq> 0 then (target, w)
         else case native_lib job of
           None \<Rightarrow> get_stub_island w
         | Some dlsym \<Rightarrow> (native_target dlsym name, w))"

definition patch_symbol :: "patch_job \<Rightarrow> nlist_64 \<Rightarrow> pool_world \<Rightarrow> (u64 \<times> patch_target) option \<times> pool_world" where
  "patch_symbol job nl w =
     (let name = symbol_name job (snd w) nl;
          func_addr = n_value nl + job_slide job
      in if n_type nl AND N_TYPE \<noteq> N_SECT then (None, w)
         else if n_type nl AND N_EXT = 0 then (None, w)
         else if n_type nl AND N_STAB \<noteq> 0 then (None, w)
         else if n_strx nl \<ge> job_strsize job then (None, w)
         else if \<not> matches_prefix name (prefixes job) then (None, w)
         else if \<not> in_text job func_addr then (None, w)
         else case symbol_target job name w of
           (target, w1) \<Rightarrow>
             if target = 0 \<and> native_lib job \<noteq> None
             then case make_abort_island (trampoline_abort job) (strtab job + ucast (n_strx nl)) w1 of
               (abort_island, w2) \<Rightarrow>
                 if abort_island = 0 then (None, w2)
                 else case write_trampoline func_addr abort_island w2 of
                   (r, w3) \<Rightarrow> (if r = 0 then Some (func_addr, Trap (strtab job + ucast (n_strx nl))) else None, w3)
             else if target = 0 then (None, w1)
             else case write_trampoline func_addr target w1 of
               (r, w2) \<Rightarrow> (if r = 0 then Some (func_addr, To target) else None, w2))"

definition override_symbol ::
  "bool \<Rightarrow> patch_job \<Rightarrow> nlist_64 \<Rightarrow> pool_world \<Rightarrow> (u64 \<times> patch_target) option \<times> pool_world" where
  "override_symbol match_local job nl w =
     (let name = symbol_name job (snd w) nl;
          func_addr = n_value nl + job_slide job
      in if n_type nl AND N_TYPE \<noteq> N_SECT then (None, w)
         else if \<not> match_local \<and> n_type nl AND N_EXT = 0 then (None, w)
         else if n_type nl AND N_STAB \<noteq> 0 then (None, w)
         else if n_strx nl \<ge> job_strsize job then (None, w)
         else if \<not> in_text job func_addr then (None, w)
         else let target = (case native_lib job of None \<Rightarrow> 0 | Some dlsym \<Rightarrow> dlsym (lookup_name name))
           in if target = 0 then (None, w)
              else case write_trampoline func_addr target w of
                (r, w1) \<Rightarrow> (if r = 0 then Some (func_addr, To target) else None, w1))"

text \<open>The loop over the symbol table: the trampolines written, in order.\<close>

fun each_symbol ::
  "(nlist_64 \<Rightarrow> pool_world \<Rightarrow> (u64 \<times> patch_target) option \<times> pool_world) \<Rightarrow>
     u64 \<Rightarrow> nat \<Rightarrow> pool_world \<Rightarrow> (u64 \<times> patch_target) list \<times> pool_world" where
  "each_symbol per_symbol nlist_arr 0 w = ([], w)"
| "each_symbol per_symbol nlist_arr (Suc n) w =
     (case per_symbol (nlist_64_at (snd w) nlist_arr) w of
        (r, w1) \<Rightarrow>
          (case each_symbol per_symbol (nlist_arr + 16) n w1 of
             (written, w2) \<Rightarrow> ((case r of None \<Rightarrow> written | Some x \<Rightarrow> x # written), w2)))"

definition patched_count :: "(u64 \<times> patch_target) list \<Rightarrow> int" where
  "patched_count written = int (length (filter (\<lambda>(f, t). case t of To _ \<Rightarrow> True | Trap _ \<Rightarrow> False) written))"

type_synonym 'k sys_mprotect = "u64 \<Rightarrow> u64 \<Rightarrow> u32 \<Rightarrow> 'k \<Rightarrow> int \<times> 'k"

definition make_text_writable ::
  "'k sys_mprotect \<Rightarrow> u64 \<Rightarrow> u64 \<Rightarrow> u64 \<Rightarrow> pool_world \<Rightarrow> 'k \<Rightarrow> (u64 \<times> u64) option \<times> 'k" where
  "make_text_writable mprotect page_size mh slide w k =
     (case text_pages page_size (snd w) mh slide of
        None \<Rightarrow> (None, k)
      | Some (base, sz) \<Rightarrow>
          (case mprotect base sz PROT_RWX k of
             (r, k1) \<Rightarrow> if r \<noteq> 0 then (None, k1)
                       else if init_island_pool (fst w) < 0 then (None, k1)
                       else (Some (base, sz), k1)))"

text \<open>Both patching functions: the symbol table, the pages of the text, the loop, and the pages again.\<close>

definition patch_image ::
  "'k sys_mprotect \<Rightarrow> u64 \<Rightarrow> (patch_job \<Rightarrow> nlist_64 \<Rightarrow> pool_world \<Rightarrow> (u64 \<times> patch_target) option \<times> pool_world) \<Rightarrow>
     u64 \<Rightarrow> patch_job \<Rightarrow> symtab_command \<Rightarrow> pool_world \<Rightarrow> 'k \<Rightarrow>
     (int \<times> (u64 \<times> patch_target) list) \<times> pool_world \<times> 'k" where
  "patch_image mprotect page_size per_symbol mh job symtab w k =
     (let nlist_arr = fileoff_to_mem (snd w) mh (job_slide job) (symoff symtab);
          strs = fileoff_to_mem (snd w) mh (job_slide job) (stroff symtab)
      in if nlist_arr = 0 \<or> strs = 0 then ((-1, []), w, k)
         else case make_text_writable mprotect page_size mh (job_slide job) w k of
           (None, k1) \<Rightarrow> ((-1, []), w, k1)
         | (Some (base, sz), k1) \<Rightarrow>
             (case each_symbol
                (per_symbol (job\<lparr>strtab := strs, job_strsize := strsize symtab, text_patch_base := base, text_patch_size := sz\<rparr>))
                nlist_arr (unat (nsyms symtab)) w of
                (written, w1) \<Rightarrow>
                  ((patched_count written, written), w1,
                   if base \<noteq> 0 \<and> sz \<noteq> 0 then snd (mprotect base sz PROT_RX k1) else k1)))"

abbreviation (input) str_STUB :: "u8 list" where "str_STUB \<equiv> [0x53, 0x54, 0x55, 0x42]"

definition trampoline_patch_lib ::
  "'k sys_mprotect \<Rightarrow> u64 \<Rightarrow> u64 \<Rightarrow> (u8 list \<Rightarrow> (u8 list \<Rightarrow> u64) option) \<Rightarrow> u64 \<Rightarrow> u64 \<Rightarrow> u8 list \<Rightarrow>
     u8 list list \<Rightarrow> (u8 list \<times> u64) list \<Rightarrow> pool_world \<Rightarrow> 'k \<Rightarrow>
     (int \<times> (u64 \<times> patch_target) list) \<times> pool_world \<times> 'k" where
  "trampoline_patch_lib mprotect page_size abort_fn dlopen mh slide lib_path pfx ovs w k =
     (case find_symtab (snd w) mh of
        None \<Rightarrow> ((-1, []), w, k)
      | Some symtab \<Rightarrow>
          let stub_mode = (lib_path = str_STUB);
              lib = (if stub_mode then None else dlopen lib_path)
          in if \<not> stub_mode \<and> lib = None then ((-1, []), w, k)
             else patch_image mprotect page_size patch_symbol mh
               \<lparr>job_slide = slide, strtab = 0, job_strsize = 0, text_patch_base = 0, text_patch_size = 0,
                prefixes = pfx, overrides = ovs, native_lib = lib, trampoline_abort = abort_fn\<rparr>
               symtab w k)"

definition trampoline_patch_overrides ::
  "'k sys_mprotect \<Rightarrow> u64 \<Rightarrow> u64 \<Rightarrow> u64 \<Rightarrow> (u8 list \<Rightarrow> u64) \<Rightarrow> bool \<Rightarrow> pool_world \<Rightarrow> 'k \<Rightarrow>
     (int \<times> (u64 \<times> patch_target) list) \<times> pool_world \<times> 'k" where
  "trampoline_patch_overrides mprotect page_size mh slide override_handle match_local w k =
     (case find_symtab (snd w) mh of
        None \<Rightarrow> ((-1, []), w, k)
      | Some symtab \<Rightarrow>
          patch_image mprotect page_size (override_symbol match_local) mh
            \<lparr>job_slide = slide, strtab = 0, job_strsize = 0, text_patch_base = 0, text_patch_size = 0,
             prefixes = [], overrides = [], native_lib = Some override_handle, trampoline_abort = 0\<rparr>
            symtab w k)"

text \<open>The interface by environment variables, with its defaults.\<close>

definition getenv_compat :: "(u8 list \<Rightarrow> u8 list option) \<Rightarrow> u8 list \<Rightarrow> u8 list \<Rightarrow> u8 list option" where
  "getenv_compat getenv name legacy_name =
     (case getenv name of Some value \<Rightarrow> Some value | None \<Rightarrow> getenv legacy_name)"

definition trampoline_patch ::
  "(u8 list \<Rightarrow> u8 list option) \<Rightarrow> 'k sys_mprotect \<Rightarrow> u64 \<Rightarrow> u64 \<Rightarrow> (u8 list \<Rightarrow> (u8 list \<Rightarrow> u64) option) \<Rightarrow>
     u64 \<Rightarrow> u64 \<Rightarrow> pool_world \<Rightarrow> 'k \<Rightarrow> (int \<times> (u64 \<times> patch_target) list) \<times> pool_world \<times> 'k" where
  "trampoline_patch getenv mprotect page_size abort_fn dlopen mh slide w k =
     (let lib_path = getenv_compat getenv (bytes_of ''MACHGATE_TRAMPOLINE_LIB'') (bytes_of ''MACHISMO_TRAMPOLINE_LIB'');
          prefix = getenv_compat getenv (bytes_of ''MACHGATE_TRAMPOLINE_PREFIX'') (bytes_of ''MACHISMO_TRAMPOLINE_PREFIX'')
      in trampoline_patch_lib mprotect page_size abort_fn dlopen mh slide
           (case lib_path of None \<Rightarrow> bytes_of ''libSDL2-2.0.so.0'' | Some l \<Rightarrow> l)
           [case prefix of None \<Rightarrow> bytes_of ''_SDL_'' | Some p \<Rightarrow> p] [] w k)"

section \<open>Guarding stale data\<close>

abbreviation (input) MAX_GUARDED_PAGES :: nat where "MAX_GUARDED_PAGES \<equiv> 4096"

definition seg_DATA :: "u8 list" where
  "seg_DATA = [0x5F, 0x5F, 0x44, 0x41, 0x54, 0x41]"

definition data_range :: "memory \<Rightarrow> u64 \<Rightarrow> u64 \<Rightarrow> u64 \<times> u64" where
  "data_range m mh slide =
     (case find (\<lambda>lc. lc_cmd (load_command_at m lc) = LC_SEGMENT_64 \<and>
                seg_name (segment_command_64_at m lc) = seg_DATA) (all_commands m mh) of
        None \<Rightarrow> (0, 0)
      | Some lc \<Rightarrow> (let seg = segment_command_64_at m lc; data_base = seg_vmaddr seg + slide
                   in (data_base, data_base + seg_vmsize seg)))"

text \<open>
  The two bitmaps of the pages, as lists of page indices: the pages with a symbol of a library, and
  those with another symbol.
\<close>

definition data_page ::
  "patch_job \<Rightarrow> u64 \<Rightarrow> u64 \<Rightarrow> u64 \<Rightarrow> nlist_64 \<Rightarrow> nat option" where
  "data_page job page_size data_base data_end nl =
     (let addr = n_value nl + job_slide job;
          num_pages = unat ((data_end - data_base + page_size - 1) div page_size);
          page_idx = unat ((addr - data_base) div page_size)
      in if n_type nl AND N_TYPE \<noteq> N_SECT then None
         else if n_type nl AND N_STAB \<noteq> 0 then None
         else if n_strx nl \<ge> job_strsize job then None
         else if addr < data_base \<or> addr \<ge> data_end then None
         else if page_idx \<ge> num_pages then None
         else Some page_idx)"

definition symbol_list :: "memory \<Rightarrow> u64 \<Rightarrow> nat \<Rightarrow> nlist_64 list" where
  "symbol_list m nlist_arr n = map (\<lambda>i. nlist_64_at m (nlist_arr + 16 * of_nat i)) [0..<n]"

definition has_library :: "patch_job \<Rightarrow> memory \<Rightarrow> u64 \<Rightarrow> u64 \<Rightarrow> u64 \<Rightarrow> nlist_64 list \<Rightarrow> nat list" where
  "has_library job m page_size data_base data_end syms =
     List.map_filter (data_page job page_size data_base data_end)
       (filter (\<lambda>nl. matches_prefix (symbol_name job m nl) (prefixes job)) syms)"

definition has_other :: "patch_job \<Rightarrow> memory \<Rightarrow> u64 \<Rightarrow> u64 \<Rightarrow> u64 \<Rightarrow> nlist_64 list \<Rightarrow> nat list" where
  "has_other job m page_size data_base data_end syms =
     List.map_filter (data_page job page_size data_base data_end)
       (filter (\<lambda>nl. \<not> matches_prefix (symbol_name job m nl) (prefixes job)) syms)"

fun guard_pages ::
  "'k sys_mprotect \<Rightarrow> u64 \<Rightarrow> u64 \<Rightarrow> nat list \<Rightarrow> nat list \<Rightarrow> nat list \<Rightarrow> (u64 \<times> u64) list \<Rightarrow> 'k \<Rightarrow> (u64 \<times> u64) list \<times> 'k" where
  "guard_pages mprotect page_size data_base lib other [] guarded k = (guarded, k)"
| "guard_pages mprotect page_size data_base lib other (i # is') guarded k =
     (if i \<notin> set lib \<or> i \<in> set other then guard_pages mprotect page_size data_base lib other is' guarded k
      else if length guarded \<ge> MAX_GUARDED_PAGES then (guarded, k)
      else let page_addr = data_base + of_nat i * page_size
        in case mprotect page_addr page_size 0 k of
          (r, k1) \<Rightarrow> guard_pages mprotect page_size data_base lib other is'
            (if r = 0 then guarded @ [(page_addr, page_size)] else guarded) k1)"

text \<open>The guarded pages after the call; the table is the one of the calls before, extended.\<close>

definition trampoline_guard_stale_data ::
  "'k sys_mprotect \<Rightarrow> u64 \<Rightarrow> u64 \<Rightarrow> u64 \<Rightarrow> u8 list list \<Rightarrow> memory \<Rightarrow> (u64 \<times> u64) list \<Rightarrow> 'k \<Rightarrow> (u64 \<times> u64) list \<times> 'k" where
  "trampoline_guard_stale_data mprotect page_size mh slide pfx m guarded k =
     (case data_range m mh slide of
        (data_base, data_end) \<Rightarrow>
          if data_base = 0 then (guarded, k)
          else let num_pages = unat ((data_end - data_base + page_size - 1) div page_size)
            in if num_pages = 0 then (guarded, k)
               else case find_symtab m mh of
                 None \<Rightarrow> (guarded, k)
               | Some symtab \<Rightarrow>
                   let nlist_arr = fileoff_to_mem m mh slide (symoff symtab);
                       strs = fileoff_to_mem m mh slide (stroff symtab);
                       job = \<lparr>job_slide = slide, strtab = strs, job_strsize = strsize symtab, text_patch_base = 0,
                              text_patch_size = 0, prefixes = pfx, overrides = [], native_lib = None,
                              trampoline_abort = 0\<rparr>;
                       syms = symbol_list m nlist_arr (unat (nsyms symtab));
                       lib = has_library job m page_size data_base data_end syms;
                       other = has_other job m page_size data_base data_end syms
                   in if nlist_arr = 0 \<or> strs = 0 then (guarded, k)
                      else if lib = [] then (guarded, k)
                      else guard_pages mprotect page_size data_base lib other [0..<num_pages] guarded k)"

text \<open>Whether the handler of \<open>SIGSEGV\<close> reports a fault as an access to stale data.\<close>

definition stale_data_fault :: "(u64 \<times> u64) list \<Rightarrow> u64 \<Rightarrow> bool" where
  "stale_data_fault guarded fault_addr \<longleftrightarrow>
     (\<exists>(base, sz) \<in> set guarded. fault_addr \<ge> base \<and> fault_addr < base + sz)"

end
