(* ===== verification/Trampoline_Run.thy ===== *)
theory Trampoline_Run
  imports Trampoline
begin

text \<open>
  What a call of a function does once its entry holds a trampoline, and why every trampoline that was
  written stays in force while the others are written.
\<close>

section \<open>Running an island\<close>

lemma rd32_block: "mem_read n m a = bs \<Longrightarrow> i + 4 \<le> n \<Longrightarrow> rd32 m (a + of_nat i) = le_val (take 4 (drop i bs))"
  by (simp add: rd32_def mem_read_sub)

lemma load_block: "mem_read n m a = bs \<Longrightarrow> i + 8 \<le> n \<Longrightarrow> load 3 m (a + of_nat i) = le_val (take 8 (drop i bs))"
  by (simp add: load_def mem_read_sub)

lemma decode_island_words:
  "decode TRAMPOLINE_LDR_X16 = Some (LDR_lit 16 8)" "decode TRAMPOLINE_BR_X16 = Some (BR 16)"
  "decode 0x52800000 = Some (MOVZ_W 0 0)" "decode 0xD65F03C0 = Some (RET 30)"
  "decode 0x58000040 = Some (LDR_lit 0 8)"
  by code_simp+

lemma decode_b_insn:
  assumes "\<not> branch_too_far d" shows "decode (b_insn d) = Some (B d)"
proof -
  have "b_insn d = enc_b (ucast (signed_drop_bit 2 d))"
    unfolding b_insn_def enc_b_def by (rule bit_word_eqI) (auto simp: bit_simps)
  moreover have "push_bit 2 (signed_take_bit 25 (ucast (ucast (signed_drop_bit 2 d) :: u32))) = d"
    using assms by (intro branch_displacement) (simp_all add: branch_too_far_def)
  ultimately show ?thesis by simp
qed

text \<open>The literal at byte 8 is loaded by the first word of an island and of an abort island.\<close>

lemma island_jumps:
  assumes blk: "mem_read 16 (mem s) (pc s) = trampoline_island t"
  shows "reaches (rd32 (mem s)) s (s\<lparr>xreg := (xreg s)(16 := t), pc := t\<rparr>)"
proof -
  let ?c = "rd32 (mem s)" and ?s1 = "s\<lparr>xreg := (xreg s)(16 := t), pc := pc s + 4\<rparr>"
  have w: "?c (pc s) = TRAMPOLINE_LDR_X16" "?c (pc s + 4) = TRAMPOLINE_BR_X16"
    using rd32_block [OF blk, of 0] rd32_block [OF blk, of 4] by (simp_all add: trampoline_island_def memory)
  have l: "load 3 (mem s) (pc s + 8) = t"
    using load_block [OF blk, of 8] by (simp add: trampoline_island_def memory)
  have "reaches ?c s (exec (LDR_lit 16 8) s)" by (rule reaches_step) (simp add: w decode_island_words)
  then have "reaches ?c s ?s1" by (simp add: l adv_def set_x_def)
  also have "reaches ?c ?s1 (exec (BR 16) ?s1)" by (rule reaches_step) (simp add: w decode_island_words)
  finally show ?thesis by (simp add: get_x_def)
qed

lemma stub_returns:
  assumes blk: "mem_read 16 (mem s) (pc s) = stub_island"
  shows "reaches (rd32 (mem s)) s (s\<lparr>xreg := (xreg s)(0 := 0), pc := xreg s 30\<rparr>)"
proof -
  let ?c = "rd32 (mem s)" and ?s1 = "s\<lparr>xreg := (xreg s)(0 := 0), pc := pc s + 4\<rparr>"
  have w: "?c (pc s) = 0x52800000" "?c (pc s + 4) = 0xD65F03C0"
    using rd32_block [OF blk, of 0] rd32_block [OF blk, of 4] by (simp_all add: stub_island_def memory)
  have "reaches ?c s (exec (MOVZ_W 0 0) s)" by (rule reaches_step) (simp add: w decode_island_words)
  then have "reaches ?c s ?s1" by (simp add: adv_def set_x_def)
  also have "reaches ?c ?s1 (exec (RET 30) ?s1)" by (rule reaches_step) (simp add: w decode_island_words)
  finally show ?thesis by (simp add: get_x_def)
qed

definition abort_island :: "u64 \<Rightarrow> u64 \<Rightarrow> u8 list" where
  "abort_island offset symbol = le_bytes 4 (0x58000040 :: u32) @ le_bytes 4 (b_insn offset) @ le_bytes 8 symbol"

lemma abort_island_branches:
  assumes blk: "mem_read 16 (mem s) (pc s) = abort_island (c - (pc s + 4)) symbol"
    and near: "\<not> branch_too_far (c - (pc s + 4))"
  shows "reaches (rd32 (mem s)) s (s\<lparr>xreg := (xreg s)(0 := symbol), pc := c\<rparr>)"
proof -
  let ?c = "rd32 (mem s)" and ?s1 = "s\<lparr>xreg := (xreg s)(0 := symbol), pc := pc s + 4\<rparr>"
  have w: "?c (pc s) = 0x58000040" "?c (pc s + 4) = b_insn (c - (pc s + 4))"
    using rd32_block [OF blk, of 0] rd32_block [OF blk, of 4] by (simp_all add: abort_island_def memory)
  have l: "load 3 (mem s) (pc s + 8) = symbol"
    using load_block [OF blk, of 8] by (simp add: abort_island_def memory)
  have "reaches ?c s (exec (LDR_lit 0 8) s)" by (rule reaches_step) (simp add: w decode_island_words)
  then have "reaches ?c s ?s1" by (simp add: l adv_def set_x_def)
  also have "reaches ?c ?s1 (exec (B (c - (pc s + 4))) ?s1)"
    by (rule reaches_step) (simp add: w decode_b_insn [OF near])
  finally show ?thesis by simp
qed

section \<open>The pool\<close>

definition islands_ok :: "trampoline_pool \<Rightarrow> bool" where
  "islands_ok p \<longleftrightarrow>
     island_pool_used p \<le> island_pool_size p \<and> 16 dvd unat (island_pool_used p) \<and>
     unat (island_pool p) + unat (island_pool_size p) < 2 ^ 52"

text \<open>A block of the used part of the pool.\<close>

definition block :: "pool_world \<Rightarrow> u64 \<Rightarrow> u8 list \<Rightarrow> bool" where
  "block w a bs \<longleftrightarrow>
     (\<exists>i. i + 16 \<le> unat (island_pool_used (fst w)) \<and> 16 dvd i \<and> a = island_pool (fst w) + of_nat i
        \<and> mem_read 16 (snd w) a = bs)"

text \<open>Allocation keeps the used part of the pool, and all memory outside the pool.\<close>

definition pool_grows :: "pool_world \<Rightarrow> pool_world \<Rightarrow> bool" where
  "pool_grows w w' \<longleftrightarrow>
     island_pool (fst w') = island_pool (fst w) \<and> island_pool_size (fst w') = island_pool_size (fst w) \<and>
     island_pool_used (fst w) \<le> island_pool_used (fst w') \<and> islands_ok (fst w') \<and>
     (\<forall>x. in_range (island_pool (fst w)) (unat (island_pool_used (fst w))) x \<longrightarrow> snd w' x = snd w x) \<and>
     agree_outside (island_pool (fst w)) (unat (island_pool_size (fst w))) (snd w') (snd w)"

lemma pool_grows_refl: "islands_ok (fst w) \<Longrightarrow> pool_grows w w"
  by (simp add: pool_grows_def)

lemma pool_grows_trans:
  assumes "pool_grows w1 w2" and "pool_grows w2 w3" shows "pool_grows w1 w3"
proof -
  have "in_range a (unat (v :: u64)) x" if "in_range a (unat (u :: u64)) x" "u \<le> v" for a u v x
    using that by (simp add: in_range_def word_le_nat_alt)
  then show ?thesis using assms unfolding pool_grows_def by (auto simp: agree_outside_def)
qed

lemma block_grows:
  assumes "pool_grows w w'" and "islands_ok (fst w)" and "block w a bs" shows "block w' a bs"
proof -
  obtain i where i: "i + 16 \<le> unat (island_pool_used (fst w))" "16 dvd i" "a = island_pool (fst w) + of_nat i"
    "mem_read 16 (snd w) a = bs" using assms(3) by (auto simp: block_def)
  have lt: "unat (island_pool_used (fst w)) < 2 ^ 64" using unsigned_less [of "island_pool_used (fst w)", where ?'a = nat] by simp
  have "mem_read 16 (snd w') a = mem_read 16 (snd w) a"
  proof (rule mem_read_cong)
    fix j :: nat assume "j < 16"
    then have "in_range (island_pool (fst w)) (unat (island_pool_used (fst w))) (island_pool (fst w) + of_nat (i + j))"
      unfolding in_range_def using i(1) lt by (subst unat_offset) simp_all
    then show "snd w' (a + of_nat j) = snd w (a + of_nat j)"
      using assms(1) by (simp add: pool_grows_def i(3) add.assoc)
  qed
  moreover have "unat (island_pool_used (fst w)) \<le> unat (island_pool_used (fst w'))"
    using assms(1) by (simp add: pool_grows_def word_le_nat_alt)
  ultimately show ?thesis using i assms(1) unfolding block_def by (intro exI [of _ i]) (simp add: pool_grows_def)
qed

text \<open>Storing into the free part of the pool, with or without taking it.\<close>

lemma pool_room:
  assumes "islands_ok p" and "\<not> pool_exhausted p"
  shows "unat (island_pool_used p + ISLAND_SIZE) = unat (island_pool_used p) + 16"
    and "unat (island_pool_used p) + 16 \<le> unat (island_pool_size p)"
proof -
  have "unat (island_pool_used p) < 2 ^ 52" using assms(1) by (simp add: islands_ok_def word_le_nat_alt)
  then show u: "unat (island_pool_used p + ISLAND_SIZE) = unat (island_pool_used p) + 16"
    by (subst unat_add_lem [THEN iffD1]) simp_all
  show "unat (island_pool_used p) + 16 \<le> unat (island_pool_size p)"
    using assms(2) u by (simp add: pool_exhausted_def word_le_nat_alt not_less)
qed

lemma pool_store:
  assumes ok: "islands_ok p" and room: "\<not> pool_exhausted p" and len: "length bs \<le> 16"
    and p': "island_pool p' = island_pool p" "island_pool_size p' = island_pool_size p"
      "island_pool_used p' = island_pool_used p \<or> island_pool_used p' = island_pool_used p + ISLAND_SIZE"
  shows "pool_grows (p, m) (p', mem_write m (island_pool p + island_pool_used p) bs)"
proof -
  let ?P = "island_pool p" and ?U = "island_pool_used p" and ?S = "island_pool_size p"
  note r = pool_room [OF ok room]
  have big: "unat ?S < 2 ^ 52" using ok by (simp add: islands_ok_def)
  have "mem_write m (?P + ?U) bs x = m x" if "in_range ?P (unat ?U) x" for x
  proof -
    have d: "unat (x - ?P) < unat ?U" using that by (simp add: in_range_def)
    then have "unat (x - ?P - ?U) = 2 ^ 64 + unat (x - ?P) - unat ?U"
      using unat_sub_if_size [of "x - ?P" ?U] by (simp add: word_size)
    then have "unat (x - (?P + ?U)) = 2 ^ 64 + unat (x - ?P) - unat ?U" by (simp only: diff_diff_eq)
    then have "\<not> unat (x - (?P + ?U)) < length bs" using len r big by simp
    then show ?thesis by (intro mem_write_outside) (simp add: in_range_def)
  qed
  moreover have "agree_outside ?P (unat ?S) (mem_write m (?P + ?U) bs) m"
  proof (rule mem_write_inside)
    fix i assume "i < length bs"
    then have "unat (?P + of_nat (unat ?U + i) - ?P) < unat ?S" using len r big by (subst unat_offset) simp_all
    then show "in_range ?P (unat ?S) (?P + ?U + of_nat i)" by (simp add: in_range_def add.assoc)
  qed
  moreover have "islands_ok p'" "?U \<le> island_pool_used p'"
    using ok p' r by (auto simp: islands_ok_def word_le_nat_alt)
  ultimately show ?thesis using p' by (simp add: pool_grows_def)
qed

lemma pool_take:
  assumes ok: "islands_ok p" and room: "\<not> pool_exhausted p" and len: "length bs = 16"
    and p': "island_pool p' = island_pool p" "island_pool_size p' = island_pool_size p"
      "island_pool_used p' = island_pool_used p + ISLAND_SIZE"
    and m': "m' = mem_write m (island_pool p + island_pool_used p) bs"
  shows "pool_grows (p, m) (p', m')" and "block (p', m') (island_pool p + island_pool_used p) bs"
proof -
  show "pool_grows (p, m) (p', m')" unfolding m' using assms by (intro pool_store) simp_all
  show "block (p', m') (island_pool p + island_pool_used p) bs"
    unfolding block_def m'
    using ok len p' pool_room [OF ok room] mem_read_write_same [of bs 16]
    by (intro exI [of _ "unat (island_pool_used p)"]) (simp add: islands_ok_def)
qed

text \<open>The two shared islands are in place once they were made.\<close>

definition pool_inv :: "u64 \<Rightarrow> pool_world \<Rightarrow> bool" where
  "pool_inv abort_fn w \<longleftrightarrow>
     islands_ok (fst w) \<and>
     (stub_island_addr (fst w) \<noteq> 0 \<longrightarrow> block w (stub_island_addr (fst w)) stub_island) \<and>
     (abort_caller_addr (fst w) \<noteq> 0 \<longrightarrow> block w (abort_caller_addr (fst w)) (trampoline_island abort_fn))"

lemma pool_inv_grows:
  assumes "pool_inv ab w" and "pool_grows w w'"
    and "stub_island_addr (fst w') = stub_island_addr (fst w) \<or> block w' (stub_island_addr (fst w')) stub_island"
    and "abort_caller_addr (fst w') = abort_caller_addr (fst w)
      \<or> block w' (abort_caller_addr (fst w')) (trampoline_island ab)"
  shows "pool_inv ab w'"
proof -
  have "islands_ok (fst w)" "islands_ok (fst w')" using assms(1,2) by (simp_all add: pool_inv_def pool_grows_def)
  then show ?thesis using assms block_grows [OF assms(2)] unfolding pool_inv_def by metis
qed

lemma island_lengths [simp]:
  "length (trampoline_island t) = 16" "length stub_island = 16" "length (abort_island d n) = 16"
  by (simp_all add: trampoline_island_def stub_island_def abort_island_def)

lemma alloc_island_step:
  assumes inv: "pool_inv ab w" and eq: "alloc_island t w = (a, w')"
  shows "pool_inv ab w'" and "pool_grows w w'" and "a \<noteq> 0 \<Longrightarrow> block w' a (trampoline_island t)"
proof -
  obtain p m where w: "w = (p, m)" by (cases w)
  have ok: "islands_ok p" using inv by (simp add: pool_inv_def w)
  let ?p' = "p\<lparr>island_pool_used := island_pool_used p + ISLAND_SIZE\<rparr>"
  have "pool_grows w w' \<and> (a \<noteq> 0 \<longrightarrow> block w' a (trampoline_island t))
    \<and> stub_island_addr (fst w') = stub_island_addr (fst w) \<and> abort_caller_addr (fst w') = abort_caller_addr (fst w)"
  proof (cases "pool_exhausted p")
    case True
    then show ?thesis using eq ok by (auto simp: alloc_island_def w intro: pool_grows_refl)
  next
    case False
    from pool_take [OF ok this, of "trampoline_island t" ?p' _ m, OF _ _ _ _ refl] show ?thesis
      using False eq by (auto simp: alloc_island_def w Let_def)
  qed
  then show "pool_inv ab w'" "pool_grows w w'" "a \<noteq> 0 \<Longrightarrow> block w' a (trampoline_island t)"
    using pool_inv_grows [OF inv] by blast+
qed

lemma get_stub_island_step:
  assumes inv: "pool_inv ab w" and eq: "get_stub_island w = (a, w')"
  shows "pool_inv ab w'" and "pool_grows w w'" and "a = stub_island_addr (fst w') \<or> a = 0"
proof -
  obtain p m where w: "w = (p, m)" by (cases w)
  have ok: "islands_ok p" using inv by (simp add: pool_inv_def w)
  let ?a = "island_pool p + island_pool_used p"
  let ?p' = "p\<lparr>stub_island_addr := ?a, island_pool_used := island_pool_used p + ISLAND_SIZE\<rparr>"
  consider "w' = w" "a = stub_island_addr p \<or> a = 0"
    | "\<not> pool_exhausted p" "a = ?a" "w' = (?p', mem_write m ?a stub_island)"
    using eq by (auto simp: get_stub_island_def w Let_def split: if_splits)
  then have "pool_grows w w' \<and> (a = stub_island_addr (fst w') \<or> a = 0) \<and> pool_inv ab w'"
  proof cases
    case 1
    then show ?thesis using ok inv by (auto simp: w intro: pool_grows_refl)
  next
    case 2
    note t = pool_take [OF ok 2(1), of stub_island ?p' "snd w'" m]
    have "pool_grows w w'" "block w' ?a stub_island" using t 2 by (simp_all add: w)
    then show ?thesis using 2 pool_inv_grows [OF inv, of w'] by (simp add: w)
  qed
  then show "pool_inv ab w'" "pool_grows w w'" "a = stub_island_addr (fst w') \<or> a = 0" by blast+
qed

lemma get_abort_caller_step:
  assumes inv: "pool_inv ab w" and eq: "get_abort_caller ab w = (a, w')"
  shows "pool_inv ab w'" and "pool_grows w w'" and "a \<noteq> 0 \<Longrightarrow> block w' a (trampoline_island ab)"
proof -
  obtain p m where w: "w = (p, m)" by (cases w)
  have ok: "islands_ok p" using inv by (simp add: pool_inv_def w)
  let ?a = "island_pool p + island_pool_used p"
  let ?p' = "p\<lparr>abort_caller_addr := ?a, island_pool_used := island_pool_used p + ISLAND_SIZE\<rparr>"
  consider "w' = w" "a = abort_caller_addr p \<or> a = 0"
    | "\<not> pool_exhausted p" "a = ?a" "w' = (?p', mem_write m ?a (trampoline_island ab))"
    using eq by (auto simp: get_abort_caller_def w Let_def split: if_splits)
  then have "pool_grows w w' \<and> (a \<noteq> 0 \<longrightarrow> block w' a (trampoline_island ab)) \<and> pool_inv ab w'"
  proof cases
    case 1
    then show ?thesis using ok inv by (auto simp: w pool_inv_def intro: pool_grows_refl)
  next
    case 2
    note t = pool_take [OF ok 2(1), of "trampoline_island ab" ?p' "snd w'" m]
    have "pool_grows w w'" "block w' ?a (trampoline_island ab)" using t 2 by (simp_all add: w)
    then show ?thesis using 2 pool_inv_grows [OF inv, of w'] by (simp add: w)
  qed
  then show "pool_inv ab w'" "pool_grows w w'" "a \<noteq> 0 \<Longrightarrow> block w' a (trampoline_island ab)" by blast+
qed

text \<open>An abort island names its symbol and branches to the shared caller.\<close>

definition trap_at :: "u64 \<Rightarrow> pool_world \<Rightarrow> u64 \<Rightarrow> u64 \<Rightarrow> bool" where
  "trap_at ab w a symbol \<longleftrightarrow>
     (\<exists>c. block w a (abort_island (c - (a + 4)) symbol) \<and> \<not> branch_too_far (c - (a + 4)) \<and> block w c (trampoline_island ab))"

lemma make_abort_island_step:
  assumes inv: "pool_inv ab w" and eq: "make_abort_island ab symbol w = (a, w')"
  shows "pool_inv ab w'" and "pool_grows w w'" and "a \<noteq> 0 \<Longrightarrow> trap_at ab w' a symbol"
proof -
  obtain c p m where g: "get_abort_caller ab w = (c, p, m)" by (metis surj_pair)
  note s = get_abort_caller_step [OF inv g]
  have ok: "islands_ok p" using s(1) by (simp add: pool_inv_def)
  let ?a = "island_pool p + island_pool_used p"
  let ?p' = "p\<lparr>island_pool_used := island_pool_used p + ISLAND_SIZE\<rparr>"
  have join: "wr64 (wr32 (wr32 m ?a 0x58000040) (?a + 4) (b_insn d)) (?a + 8) symbol = mem_write m ?a (abort_island d symbol)" for d
    unfolding wr32_def wr64_def abort_island_def by (simp add: mem_write_append)
  consider "w' = (p, m)" "a = 0"
    | "\<not> pool_exhausted p" "a = 0" "w' = (p, wr32 m ?a 0x58000040)"
    | "c \<noteq> 0" "\<not> pool_exhausted p" "\<not> branch_too_far (c - (?a + 4))" "a = ?a"
      "w' = (?p', mem_write m ?a (abort_island (c - (?a + 4)) symbol))"
    using eq by (auto simp: make_abort_island_def g Let_def join split: if_splits)
  then have "pool_grows (p, m) w' \<and> (a \<noteq> 0 \<longrightarrow> trap_at ab w' a symbol) \<and> pool_inv ab w'"
  proof cases
    case 1
    then show ?thesis using ok s(1) by (auto intro: pool_grows_refl)
  next
    case 2
    then have "pool_grows (p, m) w'" unfolding wr32_def using pool_store [OF ok 2(1)] by simp
    then show ?thesis using 2 pool_inv_grows [OF s(1), of w'] by simp
  next
    case 3
    note t = pool_take [OF ok 3(2), of "abort_island (c - (?a + 4)) symbol" ?p' "snd w'" m]
    have gr: "pool_grows (p, m) w'" and b: "block w' ?a (abort_island (c - (?a + 4)) symbol)" using t 3 by simp_all
    have "block w' c (trampoline_island ab)" using block_grows [OF gr _ s(3)] ok 3(1) by simp
    then show ?thesis using 3 b gr pool_inv_grows [OF s(1) gr] by (auto simp: trap_at_def)
  qed
  then show "pool_inv ab w'" "pool_grows w w'" "a \<noteq> 0 \<Longrightarrow> trap_at ab w' a symbol"
    using pool_grows_trans [OF s(2)] by blast+
qed

section \<open>Patched entries\<close>

text \<open>
  The entry of a function branches to an island of the pool, which jumps to the target or to the
  trap of the symbol.
\<close>

definition branches_to :: "memory \<Rightarrow> u64 \<Rightarrow> u64 \<Rightarrow> bool" where
  "branches_to m f a \<longleftrightarrow> rd32 m f = b_insn (a - f) \<and> \<not> branch_too_far (a - f)"

fun leads :: "u64 \<Rightarrow> pool_world \<Rightarrow> u64 \<Rightarrow> patch_target \<Rightarrow> bool" where
  "leads ab w f (To t) \<longleftrightarrow> (\<exists>a. block w a (trampoline_island t) \<and> branches_to (snd w) f a)"
| "leads ab w f (Trap symbol) \<longleftrightarrow>
     (\<exists>a b. block w a (trampoline_island b) \<and> branches_to (snd w) f a \<and> trap_at ab w b symbol)"

definition off_pool :: "trampoline_pool \<Rightarrow> u64 \<Rightarrow> bool" where
  "off_pool p f \<longleftrightarrow> apart f 4 (island_pool p) (unat (island_pool_size p))"

lemma trap_at_grows:
  "pool_grows w w' \<Longrightarrow> islands_ok (fst w) \<Longrightarrow> trap_at ab w a symbol \<Longrightarrow> trap_at ab w' a symbol"
  unfolding trap_at_def using block_grows by blast

lemma leads_grows:
  assumes "pool_grows w w'" and "islands_ok (fst w)" and "off_pool (fst w) f" and "leads ab w f t"
  shows "leads ab w' f t"
proof -
  have "rd32 (snd w') f = rd32 (snd w) f"
    unfolding rd32_def using assms(1,3)
      mem_read_agree [of "island_pool (fst w)" "unat (island_pool_size (fst w))" "snd w'" "snd w" f 4]
    by (simp add: pool_grows_def off_pool_def)
  then have "branches_to (snd w') f a = branches_to (snd w) f a" for a by (simp add: branches_to_def)
  then show ?thesis
    using assms(4) block_grows [OF assms(1,2)] trap_at_grows [OF assms(1,2)] by (cases t) (simp, blast)+
qed

text \<open>A word stored at an entry outside the pool changes no island and no other entry.\<close>

lemma block_entry:
  assumes "block (p, m) a bs" and "islands_ok p" and "off_pool p f"
  shows "block (p, wr32 m f v) a bs"
proof -
  obtain i where i: "i + 16 \<le> unat (island_pool_used p)" "16 dvd i" "a = island_pool p + of_nat i"
    "mem_read 16 m a = bs" using assms(1) by (auto simp: block_def)
  have le: "unat (island_pool_used p) \<le> unat (island_pool_size p)" "unat (island_pool_size p) < 2 ^ 52"
    using assms(2) by (simp_all add: islands_ok_def word_le_nat_alt)
  have "mem_read 16 (wr32 m f v) a = mem_read 16 m a"
  proof (rule mem_read_cong)
    fix j :: nat assume "j < 16"
    then have "in_range (island_pool p) (unat (island_pool_size p)) (island_pool p + of_nat (i + j))"
      unfolding in_range_def using i(1) le by (subst unat_offset) simp_all
    then have "\<not> in_range f 4 (a + of_nat j)"
      using apart_not_in_range [OF apart_sym [OF assms(3) [unfolded off_pool_def]]] by (simp add: i(3) add.assoc)
    then show "wr32 m f v (a + of_nat j) = m (a + of_nat j)"
      unfolding wr32_def by (intro mem_write_outside) simp
  qed
  then show ?thesis using i unfolding block_def by (intro exI [of _ i]) simp
qed

lemma aligned_apart:
  assumes "(f - g) AND 3 = (0 :: u64)" and "f \<noteq> g" shows "apart f 4 g 4"
proof -
  have four: "unat d \<ge> 4" if "d AND 3 = 0" "d \<noteq> 0" for d :: u64
  proof -
    have "take_bit 2 d = 0" using that(1) by (simp add: take_bit_eq_mask mask_eq_exp_minus_1)
    then have "take_bit 2 (unat d) = 0" by (metis unsigned_take_bit_eq unat_0)
    then have "unat d mod 4 = 0" by (simp add: take_bit_eq_mod)
    moreover have "unat d \<noteq> 0" using that(2) by (simp add: unat_eq_0)
    ultimately show ?thesis by presburger
  qed
  have "(g - f) AND 3 = 0" using assms(1) dvd_minus_iff [of 4 "f - g"] by (simp add: and_3_eq_0)
  then show ?thesis using assms four [of "f - g"] four [of "g - f"] by (simp add: apart_def)
qed

text \<open>All patched entries have the same alignment, that of the islands.\<close>

lemma branches_to_aligned:
  assumes "block (p, m) a bs" and "block (p, m) b cs" and "\<not> branch_too_far (a - f)" and "\<not> branch_too_far (b - g)"
  shows "(f - g) AND 3 = 0"
proof -
  obtain i j where ij: "16 dvd i" "a = island_pool p + of_nat i" "16 dvd j" "b = island_pool p + of_nat j"
    using assms(1,2) by (auto simp: block_def)
  have "4 dvd (of_nat k :: u64)" if "16 dvd k" for k
  proof -
    obtain n where "k = 16 * n" using \<open>16 dvd k\<close> by (elim dvdE)
    then have "(of_nat k :: u64) = 4 * (4 * of_nat n)" by simp
    then show ?thesis by (rule dvdI)
  qed
  then have "4 dvd (of_nat i - of_nat j :: u64)" using ij by (simp add: dvd_diff)
  then have "4 dvd (a - b)" by (simp add: ij)
  moreover have "4 dvd (a - f)" "4 dvd (b - g)" using assms(3,4) by (simp_all add: branch_too_far_def and_3_eq_0)
  ultimately have "4 dvd (a - b) - ((a - f) - (b - g))" using dvd_diff by blast
  moreover have "(a - b) - ((a - f) - (b - g)) = f - g" by simp
  ultimately show ?thesis by (simp only: and_3_eq_0)
qed

lemma leads_entry:
  assumes l: "leads ab (p, m) g t" and ok: "islands_ok p" and off: "off_pool p f" and ne: "g \<noteq> f"
    and b: "block (p, m) b bs" "\<not> branch_too_far (b - f)"
  shows "leads ab (p, wr32 m f v) g t"
proof -
  note be = block_entry [OF _ ok off, of m]
  have "branches_to (wr32 m f v) g a" if "block (p, m) a cs" "branches_to m g a" for a cs
  proof -
    have "apart g 4 f 4"
      using aligned_apart ne branches_to_aligned [OF that(1) b(1) _ b(2)] that(2) by (simp add: branches_to_def)
    then have "rd32 (wr32 m f v) g = rd32 m g" by (simp add: rd32_def wr32_def memory)
    then show ?thesis using that(2) by (simp add: branches_to_def)
  qed
  moreover have "trap_at ab (p, wr32 m f v) a s" if "trap_at ab (p, m) a s" for a s
    using that be unfolding trap_at_def by blast
  ultimately show ?thesis using l be by (cases t) (simp, blast)+
qed

text \<open>What one write of a trampoline does.\<close>

lemma write_trampoline_step:
  assumes inv: "pool_inv ab w" and off: "off_pool (fst w) f" and eq: "write_trampoline f t w = (r, w')"
  shows "pool_inv ab w'" and "island_pool (fst w') = island_pool (fst w)"
    and "island_pool_size (fst w') = island_pool_size (fst w)"
    and "r = 0 \<Longrightarrow> leads ab w' f (To t)"
    and "leads ab w g tg \<Longrightarrow> off_pool (fst w) g \<Longrightarrow> g \<noteq> f \<or> r \<noteq> 0 \<Longrightarrow> leads ab w' g tg"
    and "trap_at ab w b symbol \<Longrightarrow> trap_at ab w' b symbol"
proof -
  obtain a p m where al: "alloc_island t w = (a, p, m)" by (metis surj_pair)
  note s = alloc_island_step [OF inv al]
  have ok: "islands_ok (fst w)" "islands_ok p" using inv s(1) by (simp_all add: pool_inv_def)
  have P: "island_pool p = island_pool (fst w)" "island_pool_size p = island_pool_size (fst w)"
    using s(2) by (simp_all add: pool_grows_def)
  have offp: "off_pool p f" using off P by (simp add: off_pool_def)
  consider "r = -1" "w' = (p, m)"
    | "r = 0" "a \<noteq> 0" "\<not> branch_too_far (a - f)" "w' = (p, wr32 m f (b_insn (a - f)))"
    using eq by (auto simp: write_trampoline_def al Let_def split: if_splits)
  then have "pool_inv ab w' \<and> island_pool (fst w') = island_pool (fst w) \<and> island_pool_size (fst w') = island_pool_size (fst w) \<and>
    (r = 0 \<longrightarrow> leads ab w' f (To t)) \<and>
    (leads ab w g tg \<and> off_pool (fst w) g \<and> (g \<noteq> f \<or> r \<noteq> 0) \<longrightarrow> leads ab w' g tg) \<and>
    (trap_at ab w b symbol \<longrightarrow> trap_at ab w' b symbol)"
  proof cases
    case 1
    then show ?thesis using s(1,2) P leads_grows [OF s(2) ok(1)] trap_at_grows [OF s(2) ok(1)] by simp
  next
    case 2
    note be = block_entry [OF _ ok(2) offp, of m]
    have blk: "block (p, m) a (trampoline_island t)" using s(3) 2 by simp
    have "pool_inv ab w'" using s(1) be unfolding pool_inv_def by (simp add: 2)
    moreover have "leads ab w' f (To t)" using be [OF blk] 2(3) by (auto simp: 2(4) branches_to_def)
    moreover have "leads ab w' g tg" if "leads ab w g tg" "off_pool (fst w) g" "g \<noteq> f"
      unfolding 2(4) using leads_grows [OF s(2) ok(1) that(2,1)] ok(2) offp that(3) blk 2(3) by (rule leads_entry)
    moreover have "trap_at ab w' b symbol" if "trap_at ab w b symbol"
      using trap_at_grows [OF s(2) ok(1) that] be unfolding trap_at_def 2(4) by blast
    ultimately show ?thesis using P 2 by auto
  qed
  then show "pool_inv ab w'" "island_pool (fst w') = island_pool (fst w)"
    "island_pool_size (fst w') = island_pool_size (fst w)" "r = 0 \<Longrightarrow> leads ab w' f (To t)"
    "leads ab w g tg \<Longrightarrow> off_pool (fst w) g \<Longrightarrow> g \<noteq> f \<or> r \<noteq> 0 \<Longrightarrow> leads ab w' g tg"
    "trap_at ab w b symbol \<Longrightarrow> trap_at ab w' b symbol" by blast+
qed

section \<open>The loop over the symbols\<close>

text \<open>
  The contract of the body of the loop: the entry it reports leads to its target, and the entries
  patched before keep theirs unless it is the same one.
\<close>

definition entry_step :: "u64 \<Rightarrow> pool_world \<Rightarrow> (u64 \<times> patch_target) option \<Rightarrow> pool_world \<Rightarrow> bool" where
  "entry_step ab w r w' \<longleftrightarrow>
     pool_inv ab w' \<and> island_pool (fst w') = island_pool (fst w) \<and> island_pool_size (fst w') = island_pool_size (fst w) \<and>
     (\<forall>f t. r = Some (f, t) \<longrightarrow> leads ab w' f t \<and> off_pool (fst w) f) \<and>
     (\<forall>g t. leads ab w g t \<and> off_pool (fst w) g \<and> (\<forall>x. r = Some x \<longrightarrow> fst x \<noteq> g) \<longrightarrow> leads ab w' g t)"

lemma off_pool_cong:
  "island_pool p' = island_pool p \<Longrightarrow> island_pool_size p' = island_pool_size p \<Longrightarrow> off_pool p' f = off_pool p f"
  by (simp add: off_pool_def)

locale trampoline_step =
  fixes per_symbol :: "nlist_64 \<Rightarrow> pool_world \<Rightarrow> (u64 \<times> patch_target) option \<times> pool_world"
    and ab :: u64 and text_clear :: "trampoline_pool \<Rightarrow> bool"
  assumes per_symbol_step:
      "pool_inv ab w \<Longrightarrow> text_clear (fst w) \<Longrightarrow> per_symbol nl w = (r, w') \<Longrightarrow> entry_step ab w r w'"
    and text_clear_cong:
      "text_clear p \<Longrightarrow> island_pool p' = island_pool p \<Longrightarrow> island_pool_size p' = island_pool_size p \<Longrightarrow> text_clear p'"
begin

lemma each_symbol_leads:
  assumes "each_symbol per_symbol nlist_arr n w = (written, w')" and "pool_inv ab w" and "text_clear (fst w)"
  shows "pool_inv ab w' \<and> (\<forall>f t. map_of (rev written) f = Some t \<longrightarrow> leads ab w' f t) \<and>
    (\<forall>g t. leads ab w g t \<and> off_pool (fst w) g \<and> map_of (rev written) g = None \<longrightarrow> leads ab w' g t)"
  using assms
proof (induction n arbitrary: nlist_arr w written)
  case (Suc n)
  obtain r w1 where s: "per_symbol (nlist_64_at (snd w) nlist_arr) w = (r, w1)" by (metis surj_pair)
  obtain rest where e: "each_symbol per_symbol (nlist_arr + 16) n w1 = (rest, w')"
    and wr: "written = (case r of None \<Rightarrow> rest | Some x \<Rightarrow> x # rest)"
    using Suc.prems(1) by (auto simp: s split: prod.splits)
  have es: "entry_step ab w r w1" using per_symbol_step [OF Suc.prems(2,3) s] .
  then have P: "island_pool (fst w1) = island_pool (fst w)" "island_pool_size (fst w1) = island_pool_size (fst w)"
    and inv: "pool_inv ab w1" by (simp_all add: entry_step_def)
  note IH = Suc.IH [OF e inv text_clear_cong [OF Suc.prems(3) P]]
  show ?case
  proof (cases r)
    case None
    then show ?thesis using IH es wr off_pool_cong [OF P] by (auto simp: entry_step_def)
  next
    case (Some x)
    then have "leads ab w1 (fst x) (snd x)" "off_pool (fst w1) (fst x)"
      using es off_pool_cong [OF P] by (cases x, simp add: entry_step_def)+
    moreover have "map_of (rev written) = map_of [x] ++ map_of (rev rest)" using wr Some map_of_append [of "rev rest" "[x]"] by simp
    ultimately show ?thesis using IH es Some off_pool_cong [OF P]
      by (cases x) (auto simp: entry_step_def map_add_Some_iff)
  qed
qed simp

end

definition text_clear :: "patch_job \<Rightarrow> trampoline_pool \<Rightarrow> bool" where
  "text_clear job p \<longleftrightarrow>
     unat (text_patch_base job) + unat (text_patch_size job) < 2 ^ 63 \<and>
     apart (text_patch_base job) (unat (text_patch_size job) + 3) (island_pool p) (unat (island_pool_size p))"

lemma in_text_off_pool:
  assumes "text_clear job p" and "in_text job f" shows "off_pool p f"
proof -
  let ?b = "text_patch_base job" and ?n = "text_patch_size job" and ?P = "island_pool p" and ?S = "unat (island_pool_size p)"
  have fit: "unat ?b + unat ?n < 2 ^ 63" and ap: "unat ?n + 3 \<le> unat (?P - ?b)" "?S \<le> unat (?b - ?P)"
    using assms(1) by (simp_all add: text_clear_def apart_def)
  have "unat (?b + ?n) = unat ?b + unat ?n" using fit by (subst unat_add_lem [THEN iffD1]) simp_all
  then have f: "unat ?b \<le> unat f" "unat f < unat ?b + unat ?n"
    using assms(2) by (simp_all add: in_text_def word_le_nat_alt not_less word_less_nat_alt)
  have lt: "unat x < 18446744073709551616" for x :: u64 using unsigned_less [of x, where ?'a = nat] by simp
  have "4 \<le> unat (?P - f)" "?S \<le> unat (f - ?P)"
    using f ap lt [of ?P] lt [of f] lt [of ?b] by (auto simp: unat_sub_if_size word_size split: if_splits)
  then show ?thesis by (simp add: off_pool_def apart_def)
qed

text \<open>Both bodies of the loop keep the contract.\<close>

lemma entry_step_none: "pool_inv ab w \<Longrightarrow> entry_step ab w None w"
  by (simp add: entry_step_def)

lemma entry_step_grows:
  assumes "pool_grows w w'" and "islands_ok (fst w)" and "pool_inv ab w'" shows "entry_step ab w None w'"
proof -
  have "island_pool (fst w') = island_pool (fst w)" "island_pool_size (fst w') = island_pool_size (fst w)"
    using assms(1) by (simp_all add: pool_grows_def)
  then show ?thesis using assms(3) leads_grows [OF assms(1,2)] by (simp add: entry_step_def)
qed

lemma entry_step_trans:
  assumes "entry_step ab w None w1" and "entry_step ab w1 r w2" shows "entry_step ab w r w2"
  using assms unfolding entry_step_def by (auto simp: off_pool_def)

lemma entry_step_write:
  assumes "pool_inv ab w" and "off_pool (fst w) f" and "write_trampoline f t w = (r, w')"
  shows "entry_step ab w (if r = 0 then Some (f, To t) else None) w'"
  using write_trampoline_step [OF assms] assms(2) unfolding entry_step_def by (cases "r = 0") auto

lemma entry_step_trap:
  assumes "pool_inv ab w" and "off_pool (fst w) f" and "write_trampoline f b w = (r, w')" and "trap_at ab w b symbol"
  shows "entry_step ab w (if r = 0 then Some (f, Trap symbol) else None) w'"
proof -
  note s = write_trampoline_step [OF assms(1-3)]
  have "leads ab w' f (Trap symbol)" if "r = 0" using s(4) [OF that] s(6) [OF assms(4)] by auto
  then show ?thesis using s assms(2) unfolding entry_step_def by (cases "r = 0") auto
qed

lemma symbol_target_step:
  assumes "pool_inv (trampoline_abort job) w" and "symbol_target job name w = (t, w1)"
  shows "pool_inv (trampoline_abort job) w1" and "pool_grows w w1"
proof -
  have ok: "islands_ok (fst w)" using assms(1) by (simp add: pool_inv_def)
  consider "w1 = w" | "get_stub_island w = (t, w1)"
    using assms(2) by (auto simp: symbol_target_def Let_def split: if_splits option.splits)
  then show "pool_inv (trampoline_abort job) w1" "pool_grows w w1"
    using assms(1) pool_grows_refl [OF ok] get_stub_island_step [OF assms(1)] by (cases, auto)+
qed

lemma patch_symbol_step:
  assumes inv: "pool_inv (trampoline_abort job) w" and clear: "text_clear job (fst w)"
    and eq: "patch_symbol job nl w = (r, w')"
  shows "entry_step (trampoline_abort job) w r w'"
proof -
  let ?ab = "trampoline_abort job" and ?f = "n_value nl + job_slide job" and ?sym = "strtab job + ucast (n_strx nl)"
  have ok: "islands_ok (fst w)" using inv by (simp add: pool_inv_def)
  obtain t w1 where st: "symbol_target job (symbol_name job (snd w) nl) w = (t, w1)" by (metis surj_pair)
  note s1 = symbol_target_step [OF inv st]
  have e1: "entry_step ?ab w None w1" using s1 ok by (intro entry_step_grows)
  obtain b w2 where mk: "make_abort_island ?ab ?sym w1 = (b, w2)" by (metis surj_pair)
  note s2 = make_abort_island_step [OF s1(1) mk]
  have e2: "entry_step ?ab w1 None w2" using s2 s1(1) by (intro entry_step_grows) (simp_all add: pool_inv_def)
  obtain r3 w3 where w3: "write_trampoline ?f b w2 = (r3, w3)" by (metis surj_pair)
  obtain r4 w4 where w4: "write_trampoline ?f t w1 = (r4, w4)" by (metis surj_pair)
  have P: "off_pool (fst w1) g = off_pool (fst w) g" "off_pool (fst w2) g = off_pool (fst w) g" for g
    using s1(2) s2(2) by (simp_all add: pool_grows_def off_pool_def)
  consider "r = None" "w' = w" | "r = None" "w' = w1" | "r = None" "w' = w2"
    | "in_text job ?f" "b \<noteq> 0" "r = (if r3 = 0 then Some (?f, Trap ?sym) else None)" "w' = w3"
    | "in_text job ?f" "r = (if r4 = 0 then Some (?f, To t) else None)" "w' = w4"
    using eq by (auto simp: patch_symbol_def Let_def st mk w3 w4 split: if_splits)
  then show ?thesis
  proof cases
    case 4
    have "off_pool (fst w2) ?f" using in_text_off_pool [OF clear 4(1)] P by simp
    then show ?thesis
      using entry_step_trans [OF e1 entry_step_trans [OF e2 entry_step_trap [OF s2(1) _ w3 s2(3) [OF 4(2)]]]] 4 by simp
  next
    case 5
    have "off_pool (fst w1) ?f" using in_text_off_pool [OF clear 5(1)] P by simp
    then show ?thesis using entry_step_trans [OF e1 entry_step_write [OF s1(1) _ w4]] 5 by simp
  qed (use inv e1 e2 entry_step_none entry_step_trans in auto)
qed

lemma override_symbol_step:
  assumes inv: "pool_inv ab w" and clear: "text_clear job (fst w)" and eq: "override_symbol match_local job nl w = (r, w')"
  shows "entry_step ab w r w'"
proof -
  let ?f = "n_value nl + job_slide job"
  define t where "t = (case native_lib job of None \<Rightarrow> 0 | Some dlsym \<Rightarrow> dlsym (lookup_name (symbol_name job (snd w) nl)))"
  obtain r1 w1 where w1: "write_trampoline ?f t w = (r1, w1)" by (metis surj_pair)
  consider "r = None" "w' = w" | "in_text job ?f" "r = (if r1 = 0 then Some (?f, To t) else None)" "w' = w1"
    using eq by (auto simp: override_symbol_def Let_def w1 simp flip: t_def split: if_splits)
  then show ?thesis
    using entry_step_none [OF inv] entry_step_write [OF inv in_text_off_pool [OF clear] w1] by cases simp_all
qed

lemma text_clear_same:
  "text_clear job p \<Longrightarrow> island_pool p' = island_pool p \<Longrightarrow> island_pool_size p' = island_pool_size p \<Longrightarrow> text_clear job p'"
  by (simp add: text_clear_def)

interpretation lib: trampoline_step "patch_symbol job" "trampoline_abort job" "text_clear job" for job
  by unfold_locales (rule patch_symbol_step text_clear_same, assumption+)+

interpretation override: trampoline_step "override_symbol match_local job" ab "text_clear job" for match_local job ab
  by unfold_locales (rule override_symbol_step text_clear_same, assumption+)+

section \<open>A call of a patched function\<close>

lemma entry_branches:
  assumes "branches_to (mem s) (pc s) a" shows "reaches (rd32 (mem s)) s (s\<lparr>pc := a\<rparr>)"
proof -
  have "decode (rd32 (mem s) (pc s)) = Some (B (a - pc s))"
    using assms decode_b_insn by (simp add: branches_to_def)
  then show ?thesis using reaches_step [of "rd32 (mem s)" s "B (a - pc s)"] by simp
qed

lemma block_read: "block w a bs \<Longrightarrow> mem_read 16 (snd w) a = bs"
  by (auto simp: block_def)

lemma leads_To_runs:
  assumes "leads ab (p, mem s) (pc s) (To t)"
  shows "reaches (rd32 (mem s)) s (s\<lparr>xreg := (xreg s)(16 := t), pc := t\<rparr>)"
proof -
  obtain a where a: "block (p, mem s) a (trampoline_island t)" "branches_to (mem s) (pc s) a" using assms by auto
  from entry_branches [OF a(2)] have "reaches (rd32 (mem s)) s (s\<lparr>pc := a\<rparr>)" .
  also have "reaches (rd32 (mem s)) (s\<lparr>pc := a\<rparr>) (s\<lparr>xreg := (xreg s)(16 := t), pc := t\<rparr>)"
    using island_jumps [of "s\<lparr>pc := a\<rparr>" t] block_read [OF a(1)] by simp
  finally show ?thesis .
qed

lemma leads_Trap_runs:
  assumes "leads ab (p, mem s) (pc s) (Trap symbol)"
  shows "reaches (rd32 (mem s)) s (s\<lparr>xreg := (xreg s)(16 := ab, 0 := symbol), pc := ab\<rparr>)"
proof -
  obtain b where "leads ab (p, mem s) (pc s) (To b)" and "trap_at ab (p, mem s) b symbol" using assms by auto
  then obtain c where c: "block (p, mem s) b (abort_island (c - (b + 4)) symbol)" "\<not> branch_too_far (c - (b + 4))"
    "block (p, mem s) c (trampoline_island ab)" by (auto simp: trap_at_def)
  let ?s1 = "s\<lparr>xreg := (xreg s)(16 := b), pc := b\<rparr>" and ?s2 = "s\<lparr>xreg := (xreg s)(16 := b, 0 := symbol), pc := c\<rparr>"
  have "reaches (rd32 (mem s)) s ?s1" using \<open>leads ab (p, mem s) (pc s) (To b)\<close> by (rule leads_To_runs)
  also have "reaches (rd32 (mem s)) ?s1 ?s2"
    using abort_island_branches [of ?s1 c symbol] block_read [OF c(1)] c(2) by simp
  also have "reaches (rd32 (mem s)) ?s2 (s\<lparr>xreg := (xreg s)(16 := ab, 0 := symbol), pc := ab\<rparr>)"
    using island_jumps [of ?s2 ab] block_read [OF c(3)] by (simp add: fun_upd_twist)
  finally show ?thesis .
qed

lemma patch_image_loop:
  assumes "patch_image mprotect page_size per_symbol mh job symtab w k = ((n, written), w', k')" and "written \<noteq> []"
  obtains base sz strs nlist_arr where "text_pages page_size (snd w) mh (job_slide job) = Some (base, sz)"
    and "each_symbol (per_symbol (job\<lparr>strtab := strs, job_strsize := strsize symtab, text_patch_base := base, text_patch_size := sz\<rparr>))
      nlist_arr (unat (nsyms symtab)) w = (written, w')"
proof (cases "text_pages page_size (snd w) mh (job_slide job)")
  case None
  then show ?thesis using assms by (auto simp: patch_image_def make_text_writable_def Let_def split: if_splits)
next
  case (Some bs)
  obtain base sz where bs: "bs = (base, sz)" by (cases bs)
  obtain r k1 where mp: "mprotect base sz PROT_RWX k = (r, k1)" by (metis surj_pair)
  let ?strs = "fileoff_to_mem (snd w) mh (job_slide job) (stroff symtab)"
    and ?nl = "fileoff_to_mem (snd w) mh (job_slide job) (symoff symtab)"
  let ?job = "job\<lparr>strtab := ?strs, job_strsize := strsize symtab, text_patch_base := base, text_patch_size := sz\<rparr>"
  obtain wr w1 where e: "each_symbol (per_symbol ?job) ?nl (unat (nsyms symtab)) w = (wr, w1)" by (metis surj_pair)
  have "written = wr" "w' = w1"
    using assms Some bs e mp by (auto simp: patch_image_def make_text_writable_def Let_def split: if_splits)
  then show ?thesis using that [of base sz] Some bs e by simp
qed

lemma patch_lib_leads:
  assumes "trampoline_patch_lib mprotect page_size abort_fn dlopen mh slide lib_path pfx ovs (p, m) k = ((n, written), w', k')"
    and "pool_inv abort_fn (p, m)" and "text_pages page_size m mh slide = Some (base, sz)"
    and "unat base + unat sz < 2 ^ 63" and "apart base (unat sz + 3) (island_pool p) (unat (island_pool_size p))"
    and "map_of (rev written) f = Some t"
  shows "pool_inv abort_fn w' \<and> leads abort_fn w' f t"
proof -
  have ne: "written \<noteq> []" using assms(6) by auto
  obtain symtab lib where "patch_image mprotect page_size patch_symbol mh
      \<lparr>job_slide = slide, strtab = 0, job_strsize = 0, text_patch_base = 0, text_patch_size = 0, prefixes = pfx,
       overrides = ovs, native_lib = lib, trampoline_abort = abort_fn\<rparr> symtab (p, m) k = ((n, written), w', k')"
    using assms(1) ne by (auto simp: trampoline_patch_lib_def Let_def split: option.splits if_splits)
  from patch_image_loop [OF this ne] obtain job nlist_arr cnt
    where job: "text_patch_base job = base" "text_patch_size job = sz" "trampoline_abort job = abort_fn"
    and e: "each_symbol (patch_symbol job) nlist_arr cnt (p, m) = (written, w')"
    using assms(3) by simp (metis (no_types, lifting) patch_job.select_convs patch_job.update_convs)
  have "text_clear job p" using assms(4,5) by (simp add: text_clear_def job)
  then show ?thesis using lib.each_symbol_leads [OF e] assms(2,6) by (simp add: job)
qed

text \<open>
  C32.  After a library was patched, a call of a function whose entry was replaced arrives at the
  target, with only \<open>x16\<close> changed; it returns 0 to the caller when the target is the shared stub, and
  it arrives at \<open>trampoline_abort\<close> with the address of the symbol's name when no target was found.
  The last trampoline written at an address counts.
\<close>

theorem trampoline_patch_lib_redirects:
  assumes "trampoline_patch_lib mprotect page_size abort_fn dlopen mh slide lib_path pfx ovs (p, m) k
      = ((n, written), (p', m'), k')"
    and "pool_inv abort_fn (p, m)" and "text_pages page_size m mh slide = Some (base, sz)"
    and "unat base + unat sz < 2 ^ 63" and "apart base (unat sz + 3) (island_pool p) (unat (island_pool_size p))"
    and "map_of (rev written) (pc s) = Some t" and "mem s = m'"
  shows "case t of
      To a \<Rightarrow> reaches (rd32 m') s (s\<lparr>xreg := (xreg s)(16 := a), pc := a\<rparr>) \<and>
        (a = stub_island_addr p' \<and> a \<noteq> 0 \<longrightarrow>
           reaches (rd32 m') s (s\<lparr>xreg := (xreg s)(16 := a, 0 := 0), pc := xreg s 30\<rparr>))
    | Trap symbol \<Rightarrow> reaches (rd32 m') s (s\<lparr>xreg := (xreg s)(16 := abort_fn, 0 := symbol), pc := abort_fn\<rparr>)"
proof -
  have inv: "pool_inv abort_fn (p', m')" and l: "leads abort_fn (p', mem s) (pc s) t"
    using patch_lib_leads [OF assms(1-6)] assms(7) by simp_all
  show ?thesis
  proof (cases t)
    case (To a)
    let ?s1 = "s\<lparr>xreg := (xreg s)(16 := a), pc := a\<rparr>"
    have r: "reaches (rd32 m') s ?s1" using leads_To_runs [of abort_fn p' s a] l To assms(7) by simp
    have "reaches (rd32 m') s (s\<lparr>xreg := (xreg s)(16 := a, 0 := 0), pc := xreg s 30\<rparr>)"
      if "a = stub_island_addr p'" "a \<noteq> 0"
    proof -
      have "mem_read 16 m' a = stub_island" using inv that block_read by (fastforce simp: pool_inv_def)
      then show ?thesis using reaches_trans [OF r] stub_returns [of ?s1] assms(7) by simp
    qed
    then show ?thesis using r To by (auto simp del: fun_upd_apply)
  next
    case (Trap symbol)
    then show ?thesis using leads_Trap_runs [of abort_fn p' s symbol] l assms(7) by simp
  qed
qed

text \<open>
  An image of one page with the header, the text, and a symbol table whose only symbol is \<open>_f\<close>, at
  \<open>0x10800\<close>.
\<close>

definition tramp_image :: memory where
  "tramp_image = sparse
     [(0x10010, 2), (0x10014, 96),
      (0x10020, 0x19), (0x10024, 72), (0x10028, 0x5F), (0x10029, 0x5F), (0x1002A, 0x54), (0x1002B, 0x45),
      (0x1002C, 0x58), (0x1002D, 0x54), (0x1003A, 1), (0x10041, 0x10), (0x10051, 0x10),
      (0x10068, 2), (0x1006C, 24), (0x10071, 2), (0x10074, 1), (0x10079, 3), (0x1007C, 8),
      (0x10200, 1), (0x10204, 0x0F), (0x10205, 1), (0x10209, 8), (0x1020A, 1),
      (0x10301, 0x5F), (0x10302, 0x66)]"

definition tramp_pool :: trampoline_pool where
  "tramp_pool = \<lparr>island_pool = 0x20000, island_pool_size = 0x100, island_pool_used = 0, stub_island_addr = 0,
     abort_caller_addr = 0\<rparr>"

definition tramp_example :: "(int \<times> (u64 \<times> patch_target) list) \<times> pool_world \<times> unit" where
  "tramp_example =
     trampoline_patch_lib (\<lambda>_ _ _ k. (0, k)) 4096 0x7E0000 (\<lambda>_. Some (\<lambda>name. if name = [0x66] then 0x7F0000 else 0))
       0x10000 0 [0x78] [[0x5F, 0x66]] [] (tramp_pool, tramp_image) ()"

definition tramp_caller :: cpu where
  "tramp_caller = gate_example_cpu\<lparr>pc := 0x10800, mem := snd (fst (snd tramp_example))\<rparr>"

lemma tramp_structures:
  "mh_ncmds (mach_header_64_at tramp_image 0x10000) = 2"
  "load_command_at tramp_image 0x10020 = \<lparr>lc_cmd = 0x19, lc_cmdsize = 72\<rparr>"
  "load_command_at tramp_image 0x10068 = \<lparr>lc_cmd = 2, lc_cmdsize = 24\<rparr>"
  "segment_command_64_at tramp_image 0x10020 =
     \<lparr>seg_name = seg_TEXT, seg_vmaddr = 0x10000, seg_vmsize = 0x1000, seg_fileoff = 0, seg_filesize = 0x1000,
      seg_maxprot = 0, seg_initprot = 0, seg_nsects = 0, seg_flags = 0\<rparr>"
  "symtab_command_at tramp_image 0x10068 = \<lparr>symoff = 0x200, nsyms = 1, stroff = 0x300, strsize = 8\<rparr>"
  "nlist_64_at tramp_image 0x10200 = \<lparr>n_strx = 1, n_type = 0x0F, n_sect = 1, n_desc = 0, n_value = 0x10800\<rparr>"
  "mem_read 7 tramp_image 0x10301 = [0x5F, 0x66, 0, 0, 0, 0, 0]"
  by (simp_all add: mach_header_64_at_def load_command_at_def segment_command_64_at_def symtab_command_at_def nlist_64_at_def
      rd_name16_def seg_TEXT_def rd64_def rd32_def mem_read_def upt_rec tramp_image_def sparse_def)

lemma tramp_image_found:
  "all_commands tramp_image 0x10000 = [0x10020, 0x10068]"
  "find_symtab tramp_image 0x10000 = Some \<lparr>symoff = 0x200, nsyms = 1, stroff = 0x300, strsize = 8\<rparr>"
  "fileoff_to_mem tramp_image 0x10000 0 0x200 = 0x10200" "fileoff_to_mem tramp_image 0x10000 0 0x300 = 0x10300"
  "text_pages 4096 tramp_image 0x10000 0 = Some (0x10000, 0x1000)"
proof -
  show c: "all_commands tramp_image 0x10000 = [0x10020, 0x10068]"
  proof -
    have "cmd_ptrs m a 2 = [a, a + ucast (lc_cmdsize (load_command_at m a))]" for m a
      by (simp only: numeral_2_eq_2 cmd_ptrs.simps)
    then show ?thesis by (simp add: all_commands_def tramp_structures)
  qed
  show "find_symtab tramp_image 0x10000 = Some \<lparr>symoff = 0x200, nsyms = 1, stroff = 0x300, strsize = 8\<rparr>"
    by (simp add: find_symtab_def c tramp_structures)
  show "fileoff_to_mem tramp_image 0x10000 0 0x200 = 0x10200" "fileoff_to_mem tramp_image 0x10000 0 0x300 = 0x10300"
    by (simp_all add: fileoff_to_mem_def c tramp_structures)
  show "text_pages 4096 tramp_image 0x10000 0 = Some (0x10000, 0x1000)"
    by (simp add: text_pages_def c tramp_structures Let_def)
qed

lemma tramp_example_symbol:
  assumes "job_slide job = 0" "strtab job = 0x10300" "job_strsize job = 8" "text_patch_base job = 0x10000"
    "text_patch_size job = 0x1000" "prefixes job = [[0x5F, 0x66]]" "overrides job = []"
    "native_lib job = Some (\<lambda>name. if name = [0x66] then 0x7F0000 else 0)"
  shows "fst (patch_symbol job (nlist_64_at tramp_image 0x10200) (tramp_pool, tramp_image)) = Some (0x10800, To 0x7F0000)"
proof -
  have "symbol_name job tramp_image (nlist_64_at tramp_image 0x10200) = [0x5F, 0x66]"
    by (simp add: symbol_name_def tramp_structures assms)
  moreover have "fst (write_trampoline 0x10800 0x7F0000 (tramp_pool, tramp_image)) = 0"
    by (simp add: write_trampoline_def alloc_island_def pool_exhausted_def branch_too_far_def tramp_pool_def)
  moreover have "symbol_target job [0x5F, 0x66] w = (0x7F0000, w)" for w
    by (simp add: symbol_target_def assms native_target_def lookup_name_def)
  moreover have "matches_prefix [0x5F, 0x66] (prefixes job)" "in_text job 0x10800"
    by (simp_all add: assms matches_prefix_def in_text_def)
  moreover have "\<not> (8 :: u32) \<le> 1" by (simp add: word_le_nat_alt)
  ultimately show ?thesis
    by (simp add: patch_symbol_def Let_def tramp_structures assms(1,3) split_beta)
qed

lemma tramp_example_written: "fst tramp_example = (1, [(0x10800, To 0x7F0000)])"
proof -
  have "init_island_pool tramp_pool = 0" by (simp add: init_island_pool_def tramp_pool_def)
  then show ?thesis
    by (simp add: tramp_example_def trampoline_patch_lib_def patch_image_def Let_def tramp_image_found
        make_text_writable_def split_beta tramp_example_symbol patched_count_def)
qed

theorem trampoline_patch_lib_redirects_witness:
  "reaches (rd32 (mem tramp_caller)) tramp_caller
     (tramp_caller\<lparr>xreg := (xreg tramp_caller)(16 := 0x7F0000), pc := 0x7F0000\<rparr>)"
proof -
  obtain p' m' where e: "tramp_example = ((1, [(0x10800, To 0x7F0000)]), (p', m'), ())"
    using tramp_example_written by (cases tramp_example) (auto simp: prod_eq_iff)
  have inv: "pool_inv 0x7E0000 (tramp_pool, tramp_image)" by (simp add: pool_inv_def islands_ok_def tramp_pool_def)
  have ap: "apart 0x10000 (unat (0x1000 :: u64) + 3) (island_pool tramp_pool) (unat (island_pool_size tramp_pool))"
    by (simp add: apart_def tramp_pool_def)
  show ?thesis
    using trampoline_patch_lib_redirects [OF e [unfolded tramp_example_def] inv tramp_image_found(5) _ ap, of tramp_caller "To 0x7F0000"]
    by (simp add: tramp_caller_def e)
qed

end
