(* ===== verification/Trampoline_Names.thy ===== *)
theory Trampoline_Names
  imports Trampoline
begin

text \<open>
  The search for a native name of a symbol, against the set of names it stands for, and the pages of
  stale data that are guarded.
\<close>

section \<open>Mangling variants\<close>

text \<open>
  A variant of a name has some of the first sixteen letters \<open>c\<close> replaced by \<open>d\<close>, at least one, and
  nothing else.
\<close>

definition mangling_variant :: "u8 \<Rightarrow> u8 \<Rightarrow> u8 list \<Rightarrow> u8 list \<Rightarrow> bool" where
  "mangling_variant c d name v \<longleftrightarrow>
     length v = length name \<and> v \<noteq> name \<and>
     (\<forall>i < length name. v ! i = name ! i \<or> (i \<in> set (letter_positions c name) \<and> v ! i = d))"

lemma letter_positions_props:
  "distinct (letter_positions c name)"
  "i \<in> set (letter_positions c name) \<Longrightarrow> i < length name \<and> name ! i = c"
  unfolding letter_positions_def by (auto simp: distinct_take dest: in_set_takeD)

lemma replace_masked_length [simp]: "length (replace_masked d msk pos buf) = length buf"
  by (induction d msk pos buf rule: replace_masked.induct) auto

lemma replace_masked_nth:
  assumes "distinct pos" and "\<forall>p \<in> set pos. p < length buf" and "i < length buf"
  shows "replace_masked d msk pos buf ! i =
    (if \<exists>k < length pos. pos ! k = i \<and> odd (msk div 2 ^ k) then d else buf ! i)"
  using assms
proof (induction pos arbitrary: msk buf)
  case (Cons p pos)
  let ?buf = "if odd msk then buf[p := d] else buf"
  have ex: "(\<exists>k < length (p # pos). (p # pos) ! k = i \<and> odd (msk div 2 ^ k)) \<longleftrightarrow>
      (p = i \<and> odd msk) \<or> (\<exists>k < length pos. pos ! k = i \<and> odd (msk div 2 div 2 ^ k))"
    unfolding length_Cons Ex_less_Suc2 by (simp add: div_mult2_eq)
  have "replace_masked d (msk div 2) pos ?buf ! i =
      (if \<exists>k < length pos. pos ! k = i \<and> odd (msk div 2 div 2 ^ k) then d else ?buf ! i)"
    using Cons.prems by (intro Cons.IH) auto
  then show ?case unfolding ex using Cons.prems by (auto simp: nth_list_update)
qed simp

lemma mask_exists: "\<exists>msk < 2 ^ n. \<forall>k < n. odd (msk div 2 ^ k :: nat) = P k"
proof (induction n arbitrary: P)
  case (Suc n)
  obtain msk where m: "msk < 2 ^ n" "\<forall>k < n. odd (msk div 2 ^ k :: nat) = P (Suc k)"
    using Suc [of "\<lambda>k. P (Suc k)"] by blast
  let ?m = "2 * msk + (if P 0 then 1 else 0)"
  have "odd (?m div 2 ^ k) = P k" if "k < Suc n" for k
    using that m(2) by (cases k) (auto simp: div_mult2_eq)
  then show ?case using m(1) by (intro exI [of _ ?m]) auto
qed simp

lemma variants_set:
  assumes "c \<noteq> d" shows "set (variants c d name) = {v. mangling_variant c d name v}"
proof (intro set_eqI iffI)
  let ?pos = "letter_positions c name"
  have pos: "distinct ?pos" "\<forall>p \<in> set ?pos. p < length name" using letter_positions_props by blast+
  note nth = replace_masked_nth [OF pos]
  fix v
  {
    assume "v \<in> set (variants c d name)"
    then obtain msk where msk: "1 \<le> msk" "msk < 2 ^ length ?pos" "v = replace_masked d msk ?pos name"
      by (auto simp: variants_def Let_def)
    obtain k where k: "k < length ?pos" "odd (msk div 2 ^ k)"
    proof -
      have "bit msk k \<Longrightarrow> k < length ?pos" for k
        using msk(2) by (metis bit_take_bit_iff take_bit_nat_eq_self)
      moreover have "\<exists>k. bit msk k" using msk(1) bit_eq_iff [of msk 0] by auto
      ultimately show ?thesis using that by (auto simp: bit_iff_odd)
    qed
    let ?i = "?pos ! k"
    have i: "?i \<in> set ?pos" "?i < length name" using k(1) pos by auto
    then have "v ! ?i = d" unfolding msk(3) nth [OF i(2)] using k by auto
    then have "v \<noteq> name" using letter_positions_props(2) [OF i(1)] assms by auto
    moreover have "v ! i = name ! i \<or> (i \<in> set ?pos \<and> v ! i = d)" if "i < length name" for i
      unfolding msk(3) nth [OF that] by auto
    ultimately show "v \<in> {v. mangling_variant c d name v}" by (simp add: mangling_variant_def msk(3))
  next
    assume "v \<in> {v. mangling_variant c d name v}"
    then have v: "length v = length name" "v \<noteq> name"
      "\<And>i. i < length name \<Longrightarrow> v ! i = name ! i \<or> (i \<in> set ?pos \<and> v ! i = d)" by (auto simp: mangling_variant_def)
    obtain msk :: nat where msk: "msk < 2 ^ length ?pos" "\<forall>k < length ?pos. odd (msk div 2 ^ k) = (v ! (?pos ! k) = d)"
      using mask_exists [of "length ?pos" "\<lambda>k. v ! (?pos ! k) = d"] by blast
    have eq: "v = replace_masked d msk ?pos name"
    proof (rule nth_equalityI)
      fix i assume "i < length v"
      then have i: "i < length name" using v by simp
      show "v ! i = replace_masked d msk ?pos name ! i"
        unfolding nth [OF i] using v(3) [OF i] msk(2) by (auto simp: in_set_conv_nth)
    qed (simp add: v)
    moreover have "msk \<noteq> 0"
    proof
      assume "msk = 0"
      then have "v ! i = name ! i" if "i < length name" for i using nth [OF that] eq by simp
      then show False using v nth_equalityI by metis
    qed
    ultimately show "v \<in> set (variants c d name)" using msk(1) by (auto simp: variants_def Let_def)
  }
qed

lemma first_found_spec:
  "first_found dlsym bufs = 0 \<longleftrightarrow> (\<forall>b \<in> set bufs. dlsym b = 0)"
  "first_found dlsym bufs \<noteq> 0 \<Longrightarrow> \<exists>b \<in> set bufs. dlsym b = first_found dlsym bufs"
  by (induction bufs) auto


section \<open>Guarded pages\<close>

lemma guard_pages_sound:
  assumes "guard_pages mprotect page_size data_base lib other pages guarded k = (guarded', k')"
    and "x \<in> set guarded'"
  shows "x \<in> set guarded \<or>
    (\<exists>i \<in> set pages. i \<in> set lib \<and> i \<notin> set other \<and> x = (data_base + of_nat i * page_size, page_size))"
  using assms
proof (induction pages arbitrary: guarded k)
  case (Cons i pages)
  let ?p = "(data_base + of_nat i * page_size, page_size)"
  obtain r k1 where mp: "mprotect (data_base + of_nat i * page_size) page_size 0 k = (r, k1)" by (metis surj_pair)
  show ?case
    using Cons.prems Cons.IH [of guarded k] Cons.IH [of guarded k1] Cons.IH [of "guarded @ [?p]" k1]
    by (simp add: Let_def mp split: if_splits) blast+
qed simp

lemma guard_pages_bound:
  assumes "guard_pages mprotect page_size data_base lib other pages guarded k = (guarded', k')"
    and "length guarded \<le> MAX_GUARDED_PAGES"
  shows "length guarded' \<le> MAX_GUARDED_PAGES"
  using assms
proof (induction pages arbitrary: guarded k)
  case (Cons i pages)
  obtain r k1 where "mprotect (data_base + of_nat i * page_size) page_size 0 k = (r, k1)" by (metis surj_pair)
  then show ?case using Cons by (auto simp: Let_def split: if_splits)
qed simp

text \<open>The page of an address in a table of pages.\<close>

lemma page_of_address:
  fixes data_base page_size addr :: u64
  assumes "i < unat ((d + page_size - 1) div page_size)" and "unat d + unat page_size < 2 ^ 63"
    and "in_range (data_base + of_nat i * page_size) (unat page_size) addr"
  shows "unat ((addr - data_base) div page_size) = i"
proof -
  let ?ps = "unat page_size" and ?off = "unat (addr - (data_base + of_nat i * page_size))"
  have off: "?off < ?ps" using assms(3) by (simp add: in_range_def)
  then have "unat (d + page_size) = unat d + ?ps" using assms(2) by (subst unat_add_lem [THEN iffD1]) simp_all
  moreover have "page_size \<noteq> 0" using off by auto
  then have "d + page_size \<noteq> 0" using calculation by (metis add_is_0 unat_0 unat_eq_zero)
  ultimately have "unat (d + page_size - 1) = unat d + ?ps - 1" by (simp add: unat_minus_one)
  then have "i < (unat d + ?ps - 1) div ?ps" using assms(1) by (simp add: unat_div)
  then have "Suc i * ?ps \<le> unat d + ?ps - 1" 
    using less_eq_div_iff_mult_less_eq [of ?ps "Suc i" "unat d + ?ps - 1"] off by (simp only: Suc_le_eq)
  then have fit: "i * ?ps + ?off < 2 ^ 64" "i * ?ps < 2 ^ 64" using off assms(2) by simp_all
  have "unat (of_nat (i * ?ps + ?off) :: u64) = i * ?ps + ?off" using fit by (intro unat_of_nat_eqI) simp_all
  moreover have "of_nat (i * ?ps + ?off) = addr - data_base" by simp
  ultimately have "unat (addr - data_base) = i * ?ps + ?off" by metis
  then show ?thesis using off by (simp add: unat_div)
qed

lemma map_filter_mem: "y \<in> set (List.map_filter f xs) \<longleftrightarrow> (\<exists>x \<in> set xs. f x = Some y)"
  by (induction xs) (auto simp: List.map_filter_def)

text \<open>
  C34.  Only pages of library data are guarded: at most 4096 pages are, each has the size of a page,
  starts in the table of pages of \<open>__DATA\<close>, and holds no symbol of the data segment whose name has none
  of the prefixes.
\<close>

theorem guard_stale_data_pages:
  assumes "trampoline_guard_stale_data mprotect page_size mh slide pfx m [] k = (guarded, k')"
    and "(base, sz) \<in> set guarded" and "find_symtab m mh = Some symtab"
    and "data_range m mh slide = (data_base, data_end)"
    and "unat (data_end - data_base) + unat page_size < 2 ^ 63"
    and "job = \<lparr>job_slide = slide, strtab = fileoff_to_mem m mh slide (stroff symtab), job_strsize = strsize symtab,
      text_patch_base = 0, text_patch_size = 0, prefixes = pfx, overrides = [], native_lib = None, trampoline_abort = 0\<rparr>"
    and "nl \<in> set (symbol_list m (fileoff_to_mem m mh slide (symoff symtab)) (unat (nsyms symtab)))"
    and "data_page job page_size data_base data_end nl \<noteq> None"
    and "in_range base (unat sz) (n_value nl + slide)"
  shows "length guarded \<le> MAX_GUARDED_PAGES \<and> sz = page_size \<and> matches_prefix (symbol_name job m nl) pfx"
proof -
  let ?syms = "symbol_list m (fileoff_to_mem m mh slide (symoff symtab)) (unat (nsyms symtab))"
  let ?lib = "has_library job m page_size data_base data_end ?syms"
    and ?other = "has_other job m page_size data_base data_end ?syms"
    and ?n = "unat ((data_end - data_base + page_size - 1) div page_size)"
  have g: "guard_pages mprotect page_size data_base ?lib ?other [0..<?n] [] k = (guarded, k')"
    using assms(1,2) unfolding trampoline_guard_stale_data_def assms(3,4) Let_def assms(6) [symmetric]
    by (auto simp: assms(6) split: if_splits)
  obtain i where i: "i < ?n" "i \<notin> set ?other" "base = data_base + of_nat i * page_size" "sz = page_size"
    using guard_pages_sound [OF g assms(2)] by auto
  obtain j where j: "data_page job page_size data_base data_end nl = Some j" using assms(8) by blast
  have "j = unat ((n_value nl + slide - data_base) div page_size)"
    using j by (simp add: data_page_def Let_def assms(6) split: if_splits)
  also have "\<dots> = i" using page_of_address [OF i(1) assms(5)] assms(9) i by simp
  finally have "matches_prefix (symbol_name job m nl) pfx"
    using i(2) j assms(7) by (auto simp: has_other_def map_filter_mem assms(6))
  then show ?thesis using guard_pages_bound [OF g] i(4) by simp
qed

text \<open>An image whose data segment is one page, with one symbol \<open>_f\<close>.\<close>

definition stale_image :: memory where
  "stale_image = sparse
     [(0x10010, 2), (0x10014, 96),
      (0x10020, 0x19), (0x10024, 72), (0x10028, 0x5F), (0x10029, 0x5F), (0x1002A, 0x44), (0x1002B, 0x41),
      (0x1002C, 0x54), (0x1002D, 0x41), (0x1003A, 1), (0x10041, 0x10), (0x10051, 0x10),
      (0x10068, 2), (0x1006C, 24), (0x10071, 2), (0x10074, 1), (0x10079, 3), (0x1007C, 8),
      (0x10200, 1), (0x10204, 0x0E), (0x10205, 2), (0x10209, 8), (0x1020A, 1),
      (0x10301, 0x5F), (0x10302, 0x66)]"

definition stale_symtab :: symtab_command where
  "stale_symtab = \<lparr>symoff = 0x200, nsyms = 1, stroff = 0x300, strsize = 8\<rparr>"

definition stale_symbol :: nlist_64 where
  "stale_symbol = \<lparr>n_strx = 1, n_type = 0x0E, n_sect = 2, n_desc = 0, n_value = 0x10800\<rparr>"

definition stale_job :: patch_job where
  "stale_job = \<lparr>job_slide = 0, strtab = 0x10300, job_strsize = 8, text_patch_base = 0, text_patch_size = 0,
     prefixes = [[0x5F, 0x66]], overrides = [], native_lib = None, trampoline_abort = 0\<rparr>"

lemma stale_structures:
  "mh_ncmds (mach_header_64_at stale_image 0x10000) = 2"
  "load_command_at stale_image 0x10020 = \<lparr>lc_cmd = 0x19, lc_cmdsize = 72\<rparr>"
  "load_command_at stale_image 0x10068 = \<lparr>lc_cmd = 2, lc_cmdsize = 24\<rparr>"
  "segment_command_64_at stale_image 0x10020 =
     \<lparr>seg_name = seg_DATA, seg_vmaddr = 0x10000, seg_vmsize = 0x1000, seg_fileoff = 0, seg_filesize = 0x1000,
      seg_maxprot = 0, seg_initprot = 0, seg_nsects = 0, seg_flags = 0\<rparr>"
  "symtab_command_at stale_image 0x10068 = stale_symtab"
  "nlist_64_at stale_image 0x10200 = stale_symbol"
  "mem_read 7 stale_image 0x10301 = [0x5F, 0x66, 0, 0, 0, 0, 0]"
  by (simp_all add: mach_header_64_at_def load_command_at_def segment_command_64_at_def symtab_command_at_def nlist_64_at_def
      rd_name16_def seg_DATA_def rd64_def rd32_def mem_read_def upt_rec stale_image_def sparse_def stale_symtab_def
      stale_symbol_def)

lemma cmd_ptrs_two: "cmd_ptrs m a 2 = [a, a + ucast (lc_cmdsize (load_command_at m a))]"
  by (simp only: numeral_2_eq_2 cmd_ptrs.simps)

lemma stale_image_found:
  "find_symtab stale_image 0x10000 = Some stale_symtab" "data_range stale_image 0x10000 0 = (0x10000, 0x11000)"
  "fileoff_to_mem stale_image 0x10000 0 0x200 = 0x10200" "fileoff_to_mem stale_image 0x10000 0 0x300 = 0x10300"
proof -
  have c: "all_commands stale_image 0x10000 = [0x10020, 0x10068]"
    by (simp add: all_commands_def stale_structures cmd_ptrs_two)
  show "find_symtab stale_image 0x10000 = Some stale_symtab" by (simp add: find_symtab_def c stale_structures)
  show "data_range stale_image 0x10000 0 = (0x10000, 0x11000)" by (simp add: data_range_def c stale_structures)
  show "fileoff_to_mem stale_image 0x10000 0 0x200 = 0x10200" "fileoff_to_mem stale_image 0x10000 0 0x300 = 0x10300"
    by (simp_all add: fileoff_to_mem_def c stale_structures)
qed

lemma stale_symbol_props:
  "symbol_list stale_image 0x10200 (Suc 0) = [stale_symbol]" "symbol_name stale_job stale_image stale_symbol = [0x5F, 0x66]"
  "data_page stale_job 4096 0x10000 0x11000 stale_symbol = Some 0"
proof -
  have "\<not> (8 :: u32) \<le> 1" by (simp add: word_le_nat_alt)
  then show "data_page stale_job 4096 0x10000 0x11000 stale_symbol = Some 0"
    by (simp add: data_page_def stale_job_def stale_symbol_def)
qed (simp_all add: symbol_list_def stale_structures symbol_name_def stale_job_def stale_symbol_def)

lemma stale_prefixes: "prefixes stale_job = [[0x5F, 0x66]]"
  by (simp add: stale_job_def)

lemma stale_guarded:
  "trampoline_guard_stale_data (\<lambda>_ _ _ k. (0, k)) 4096 0x10000 0 [[0x5F, 0x66]] stale_image [] () = ([(0x10000, 4096)], ())"
proof -
  have lib: "has_library stale_job stale_image 4096 0x10000 0x11000 [stale_symbol] = [0]"
    and other: "has_other stale_job stale_image 4096 0x10000 0x11000 [stale_symbol] = []"
    by (simp_all add: has_library_def has_other_def stale_symbol_props matches_prefix_def stale_prefixes List.map_filter_def)
  then show ?thesis
    by (simp add: trampoline_guard_stale_data_def stale_image_found stale_symtab_def stale_symbol_props Let_def
        flip: stale_job_def)
qed

theorem guard_stale_data_pages_witness:
  "length [(0x10000 :: u64, 4096 :: u64)] \<le> MAX_GUARDED_PAGES \<and> (4096 :: u64) = 4096 \<and>
     matches_prefix (symbol_name stale_job stale_image stale_symbol) [[0x5F, 0x66]]"
proof -
  have job: "stale_job = \<lparr>job_slide = 0, strtab = fileoff_to_mem stale_image 0x10000 0 (stroff stale_symtab),
      job_strsize = strsize stale_symtab, text_patch_base = 0, text_patch_size = 0, prefixes = [[0x5F, 0x66]],
      overrides = [], native_lib = None, trampoline_abort = 0\<rparr>"
    by (simp add: stale_job_def stale_symtab_def stale_image_found)
  have mem: "stale_symbol \<in> set (symbol_list stale_image (fileoff_to_mem stale_image 0x10000 0 (symoff stale_symtab))
      (unat (nsyms stale_symtab)))"
    by (simp add: stale_symtab_def stale_image_found stale_symbol_props)
  have page: "data_page stale_job 4096 0x10000 0x11000 stale_symbol \<noteq> None" by (simp add: stale_symbol_props)
  have "in_range 0x10000 (unat (4096 :: u64)) (n_value stale_symbol + 0)" by (simp add: in_range_def stale_symbol_def)
  from guard_stale_data_pages [OF stale_guarded _ stale_image_found(1,2) _ job mem page this] show ?thesis by simp
qed

end
