(* ===== verification/Hash_Chains.thy ===== *)
theory Hash_Chains
  imports Main
begin

text \<open>
  Hash tables that chain the indices of an array: an item is entered at the head of the chain of its
  bucket, and a search follows the chain until it meets the item or a negative index.  The two tables
  of \<open>resolver.c\<close> are of this kind.
\<close>

section \<open>The search\<close>

text \<open>The loop ends only when the chain does; not returning is \<open>None\<close>.\<close>

partial_function (option) chain_find :: "(int \<Rightarrow> int) \<Rightarrow> (int \<Rightarrow> bool) \<Rightarrow> int \<Rightarrow> int option" where
  "chain_find chain hit candidate =
     (if candidate \<ge> 0
      then if hit candidate then Some candidate else chain_find chain hit (chain candidate)
      else Some (-1))"

declare chain_find.simps [code]

section \<open>The last item with a property\<close>

fun last_index :: "(nat \<Rightarrow> bool) \<Rightarrow> nat \<Rightarrow> int" where
  "last_index P 0 = -1"
| "last_index P (Suc n) = (if P n then int n else last_index P n)"

lemma last_index_cases:
  obtains "last_index P n = -1" and "\<And>i. i < n \<Longrightarrow> \<not> P i"
  | i where "last_index P n = int i" and "i < n" and "P i" and "\<And>j. i < j \<Longrightarrow> j < n \<Longrightarrow> \<not> P j"
proof -
  have "(last_index P n = -1 \<and> (\<forall>i < n. \<not> P i)) \<or>
      (\<exists>i < n. last_index P n = int i \<and> P i \<and> (\<forall>j. i < j \<and> j < n \<longrightarrow> \<not> P j))"
    by (induction n) (auto simp: less_Suc_eq)
  then show ?thesis using that by blast
qed

lemma last_index_cong: "(\<And>i. i < n \<Longrightarrow> P i = Q i) \<Longrightarrow> last_index P n = last_index Q n"
  by (induction n) auto

lemma last_index_none: "(\<And>i. i < n \<Longrightarrow> \<not> P i) \<Longrightarrow> last_index P n = -1"
  by (induction n) auto

lemma last_index_trim:
  "i \<le> n \<Longrightarrow> (\<And>j. i \<le> j \<Longrightarrow> j < n \<Longrightarrow> \<not> P j) \<Longrightarrow> last_index P n = last_index P i"
  by (induction n) (auto simp: le_Suc_eq)

section \<open>The invariant\<close>

text \<open>
  Item \<open>i\<close> is entered under \<open>key i\<close>, or not at all.  The head of a bucket is the last item of the
  bucket, and the successor of an item is the last one before it.
\<close>

definition in_bucket :: "('k \<Rightarrow> 'b) \<Rightarrow> (nat \<Rightarrow> 'k option) \<Rightarrow> 'b \<Rightarrow> nat \<Rightarrow> bool" where
  "in_bucket hash key b i \<longleftrightarrow> map_option hash (key i) = Some b"

definition chain_ok :: "('k \<Rightarrow> 'b) \<Rightarrow> (nat \<Rightarrow> 'k option) \<Rightarrow> nat \<Rightarrow> ('b \<Rightarrow> int) \<Rightarrow> (int \<Rightarrow> int) \<Rightarrow> bool" where
  "chain_ok hash key n buckets chain \<longleftrightarrow>
     (\<forall>b. buckets b = last_index (in_bucket hash key b) n) \<and>
     (\<forall>i < n. \<forall>b. in_bucket hash key b i \<longrightarrow> chain (int i) = last_index (in_bucket hash key b) i)"

lemma chain_ok_empty: "chain_ok hash key 0 (\<lambda>_. -1) chain"
  by (simp add: chain_ok_def)

lemma chain_ok_skip: "chain_ok hash key n buckets chain \<Longrightarrow> key n = None \<Longrightarrow> chain_ok hash key (Suc n) buckets chain"
  by (auto simp: chain_ok_def in_bucket_def less_Suc_eq)

lemma chain_ok_enter:
  assumes "chain_ok hash key n buckets chain" and "key n = Some k"
  shows "chain_ok hash key (Suc n) (buckets(hash k := int n)) (chain(int n := buckets (hash k)))"
  using assms by (auto simp: chain_ok_def in_bucket_def less_Suc_eq)

text \<open>The search ends, and finds the last item entered under the key.\<close>

lemma chain_find_last:
  assumes ok: "chain_ok hash key n buckets chain"
    and hit: "\<And>i. i < n \<Longrightarrow> key i \<noteq> None \<Longrightarrow> hit (int i) \<longleftrightarrow> key i = Some k"
  shows "chain_find chain hit (buckets (hash k)) = Some (last_index (\<lambda>i. key i = Some k) n)"
proof -
  let ?Q = "in_bucket hash key (hash k)" and ?P = "\<lambda>i. key i = Some k"
  have sub: "?P i \<Longrightarrow> ?Q i" for i by (simp add: in_bucket_def)
  have "chain_find chain hit (last_index ?Q l) = Some (last_index ?P l)" if "l \<le> n" for l
    using that
  proof (induction l rule: less_induct)
    case (less l)
    show ?case
    proof (cases rule: last_index_cases [of ?Q l])
      case 1
      then have "last_index ?P l = -1" using sub by (intro last_index_none) blast
      then show ?thesis using 1(1) by (simp add: chain_find.simps)
    next
      case (2 i)
      have i: "i < n" "key i \<noteq> None" using 2 less.prems by (auto simp: in_bucket_def)
      show ?thesis
      proof (cases "?P i")
        case True
        have "last_index ?P l = last_index ?P (Suc i)" using 2 sub by (intro last_index_trim) (auto simp: Suc_le_eq)
        then show ?thesis using True 2 hit [OF i] by (simp add: chain_find.simps)
      next
        case False
        have "last_index ?P l = last_index ?P i"
          using 2 sub False by (intro last_index_trim) (auto simp: le_less)
        moreover have "chain (int i) = last_index ?Q i" using ok i(1) 2(3) by (simp add: chain_ok_def)
        ultimately show ?thesis
          using 2 less.IH [of i] i(1) False hit [OF i] by (subst chain_find.simps) simp
      qed
    qed
  qed
  from this [of n] show ?thesis using ok by (simp add: chain_ok_def)
qed

end
