(* ===== verification/Sym_Index.thy ===== *)
theory Sym_Index
  imports Macho_Symtab Hash_Chains
begin

text \<open>
  The lookup of a symbol by name in \<open>resolver.c\<close>: the hash index over the symbol table of an image, the
  cache of indexes, the scan that replaces the index when there is no memory for it, and the two public
  functions on top of it.
\<close>

section \<open>The symbol table of an image\<close>

record symtab_location =
  loc_syms :: u64
  loc_nsyms :: u32
  loc_strtab :: u64
  loc_strsize :: u32

text \<open>The last symbol table command, and the last segment that holds its entries.\<close>

definition last_symtab :: "memory \<Rightarrow> u64 \<Rightarrow> symtab_command option" where
  "last_symtab m mh =
     map_option (symtab_command_at m)
       (find (\<lambda>lc. lc_cmd (load_command_at m lc) = LC_SYMTAB) (rev (load_command_addrs m mh)))"

definition symtab_segment :: "memory \<Rightarrow> u64 \<Rightarrow> symtab_command \<Rightarrow> segment_command_64 option" where
  "symtab_segment m mh symtab =
     map_option (segment_command_64_at m)
       (find (\<lambda>lc. lc_cmd (load_command_at m lc) = LC_SEGMENT_64 \<and>
            (let seg = segment_command_64_at m lc
             in ucast (symoff symtab) \<ge> seg_fileoff seg \<and> ucast (symoff symtab) < seg_fileoff seg + seg_filesize seg))
          (rev (load_command_addrs m mh)))"

definition locate_symtab :: "memory \<Rightarrow> u64 \<Rightarrow> u64 \<Rightarrow> symtab_location option" where
  "locate_symtab m mh slide =
     (case last_symtab m mh of
        None \<Rightarrow> None
      | Some symtab \<Rightarrow>
          (case symtab_segment m mh symtab of
             None \<Rightarrow> None
           | Some seg \<Rightarrow>
               let base = seg_vmaddr seg + slide;
                   syms = base + (ucast (symoff symtab) - seg_fileoff seg);
                   strs = base + (ucast (stroff symtab) - seg_fileoff seg)
               in if syms = 0 \<or> strs = 0 then None
                  else Some \<lparr>loc_syms = syms, loc_nsyms = nsyms symtab, loc_strtab = strs, loc_strsize = strsize symtab\<rparr>))"

definition sym_at :: "memory \<Rightarrow> symtab_location \<Rightarrow> int \<Rightarrow> nlist_64" where
  "sym_at m l i = nlist_64_at m (loc_syms l + 16 * of_int i)"

section \<open>The index\<close>

definition macho_name_hash :: "u8 list \<Rightarrow> u32" where
  "macho_name_hash name =
     ucast (fold (\<lambda>c hash. (hash XOR ucast c) * 1099511628211) name (1469598103934665603 :: u64)) AND (256 * 1024 - 1)"

text \<open>The entries that are indexed, and the name an entry is indexed under.\<close>

definition sym_indexed :: "memory \<Rightarrow> symtab_location \<Rightarrow> nlist_64 \<Rightarrow> bool" where
  "sym_indexed m l nl \<longleftrightarrow>
     n_type nl AND N_STAB = 0 \<and> n_type nl AND N_TYPE = N_SECT \<and>
     n_strx nl \<noteq> 0 \<and> n_strx nl < loc_strsize l \<and> m (loc_strtab l + ucast (n_strx nl)) \<noteq> 0"

definition sym_string :: "memory \<Rightarrow> symtab_location \<Rightarrow> nlist_64 \<Rightarrow> u8 list" where
  "sym_string m l nl = cstr_within (unat (loc_strsize l - n_strx nl)) m (loc_strtab l + ucast (n_strx nl))"

text \<open>An index in an \<open>int32_t\<close>.\<close>

definition idx32 :: "nat \<Rightarrow> int" where
  "idx32 i = sint (of_nat i :: u32)"

record macho_sym_index =
  idx_mh :: u64
  buckets :: "u32 \<Rightarrow> int"
  chain :: "int \<Rightarrow> int"

fun index_syms :: "memory \<Rightarrow> symtab_location \<Rightarrow> nat \<Rightarrow> (u32 \<Rightarrow> int) \<times> (int \<Rightarrow> int) \<Rightarrow> (u32 \<Rightarrow> int) \<times> (int \<Rightarrow> int)" where
  "index_syms m l 0 (b, c) = (b, c)"
| "index_syms m l (Suc i) (b, c) =
     (case index_syms m l i (b, c) of
        (b, c) \<Rightarrow>
          let nl = sym_at m l (int i)
          in if \<not> sym_indexed m l nl then (b, c)
             else let bucket = macho_name_hash (sym_string m l nl)
               in (b(bucket := idx32 i), c(int i := b bucket)))"

text \<open>Both arrays are allocated or neither; the chain starts with whatever the memory holds.\<close>

definition macho_sym_index_build ::
  "(int \<Rightarrow> int) option \<Rightarrow> memory \<Rightarrow> u64 \<Rightarrow> symtab_location \<Rightarrow> macho_sym_index option" where
  "macho_sym_index_build fresh m mh l =
     (case fresh of
        None \<Rightarrow> None
      | Some c0 \<Rightarrow>
          (case index_syms m l (unat (loc_nsyms l)) (\<lambda>_. -1, c0) of
             (b, c) \<Rightarrow> Some \<lparr>idx_mh = mh, buckets = b, chain = c\<rparr>))"

definition macho_sym_index_for ::
  "(int \<Rightarrow> int) option \<Rightarrow> memory \<Rightarrow> u64 \<Rightarrow> symtab_location \<Rightarrow> macho_sym_index list \<Rightarrow>
     macho_sym_index option \<times> macho_sym_index list" where
  "macho_sym_index_for fresh m mh l indexes =
     (case find (\<lambda>index. idx_mh index = mh) indexes of
        Some index \<Rightarrow> (Some index, indexes)
      | None \<Rightarrow>
          (case macho_sym_index_build fresh m mh l of
             None \<Rightarrow> (None, indexes)
           | Some index \<Rightarrow> (Some index, index # indexes)))"

section \<open>The lookup\<close>

record macho_symbol_result =
  r_addr :: u64
  r_type :: u8
  r_desc :: u16
  r_sect :: u8

definition symbol_result :: "u64 \<Rightarrow> nlist_64 \<Rightarrow> macho_symbol_result" where
  "symbol_result slide nl =
     \<lparr>r_addr = n_value nl + slide, r_type = n_type nl, r_desc = n_desc nl, r_sect = n_sect nl\<rparr>"

text \<open>The scan without an index takes the first entry; it does not ask for a non-empty name.\<close>

definition scan_symbols :: "memory \<Rightarrow> symtab_location \<Rightarrow> u8 list \<Rightarrow> nlist_64 option" where
  "scan_symbols m l name =
     find (\<lambda>nl. n_type nl AND N_STAB = 0 \<and> n_type nl AND N_TYPE = N_SECT \<and> n_strx nl < loc_strsize l \<and>
            cstr_eq m (loc_strtab l + ucast (n_strx nl)) name)
       (map (\<lambda>i. sym_at m l (int i)) [0..<unat (loc_nsyms l)])"

text \<open>The outer option says that the search through a chain returns.\<close>

definition lookup_macho_symbol_result ::
  "(int \<Rightarrow> int) option \<Rightarrow> memory \<Rightarrow> u64 \<Rightarrow> u64 \<Rightarrow> u8 list \<Rightarrow> macho_sym_index list \<Rightarrow>
     macho_symbol_result option option \<times> macho_sym_index list" where
  "lookup_macho_symbol_result fresh m mh slide name indexes =
     (case locate_symtab m mh slide of
        None \<Rightarrow> (Some None, indexes)
      | Some l \<Rightarrow>
          (case macho_sym_index_for fresh m mh l indexes of
             (Some index, indexes') \<Rightarrow>
               (case chain_find (chain index)
                   (\<lambda>candidate. cstr_eq m (loc_strtab l + ucast (n_strx (sym_at m l candidate))) name)
                   (buckets index (macho_name_hash name)) of
                  None \<Rightarrow> None
                | Some candidate \<Rightarrow>
                    Some (if candidate \<ge> 0 then Some (symbol_result slide (sym_at m l candidate)) else None),
                indexes')
           | (None, indexes') \<Rightarrow> (Some (map_option (symbol_result slide) (scan_symbols m l name)), indexes')))"

definition lookup_macho_symbol ::
  "(int \<Rightarrow> int) option \<Rightarrow> memory \<Rightarrow> u64 \<Rightarrow> u64 \<Rightarrow> u8 list \<Rightarrow> macho_sym_index list \<Rightarrow> u64 option \<times> macho_sym_index list" where
  "lookup_macho_symbol fresh m mh slide name indexes =
     (case lookup_macho_symbol_result fresh m mh slide name indexes of
        (r, indexes') \<Rightarrow> (map_option (\<lambda>r. case r of None \<Rightarrow> 0 | Some s \<Rightarrow> r_addr s) r, indexes'))"

definition resolver_lookup_symbol ::
  "(int \<Rightarrow> int) option \<Rightarrow> memory \<Rightarrow> u64 \<Rightarrow> u64 \<Rightarrow> u8 list \<Rightarrow> macho_sym_index list \<Rightarrow> u64 option \<times> macho_sym_index list" where
  "resolver_lookup_symbol fresh m mh slide name indexes = lookup_macho_symbol fresh m mh slide name indexes"

abbreviation (input) N_PEXT :: u8 where "N_PEXT \<equiv> 0x10"
abbreviation (input) SECTION_TYPE :: u32 where "SECTION_TYPE \<equiv> 0xFF"
abbreviation (input) S_SYMBOL_STUBS :: u32 where "S_SYMBOL_STUBS \<equiv> 8"

definition macho_symbol_is_external_definition :: "macho_symbol_result \<Rightarrow> bool" where
  "macho_symbol_is_external_definition r \<longleftrightarrow> r_type r AND N_EXT \<noteq> 0 \<and> r_type r AND N_PEXT = 0"

text \<open>The ordinal of a section is a \<open>uint8_t\<close> that counts from 1 over all segments, and wraps.\<close>

fun ordinal_flags :: "u8 \<Rightarrow> u8 \<Rightarrow> section_64 list \<Rightarrow> u32" where
  "ordinal_flags section_ordinal ordinal [] = 0"
| "ordinal_flags section_ordinal ordinal (sect # sects) =
     (if ordinal = section_ordinal then sect_flags sect else ordinal_flags section_ordinal (ordinal + 1) sects)"

definition image_sections :: "memory \<Rightarrow> u64 \<Rightarrow> section_64 list" where
  "image_sections m mh =
     concat (map (segment_sections m)
       (filter (\<lambda>lc. lc_cmd (load_command_at m lc) = LC_SEGMENT_64) (load_command_addrs m mh)))"

definition macho_section_flags :: "memory \<Rightarrow> u64 \<Rightarrow> u8 \<Rightarrow> u32" where
  "macho_section_flags m mh section_ordinal =
     (if mh = 0 \<or> section_ordinal = 0 then 0 else ordinal_flags section_ordinal 1 (image_sections m mh))"

definition macho_symbol_is_stub_definition :: "memory \<Rightarrow> u64 \<Rightarrow> macho_symbol_result \<Rightarrow> bool" where
  "macho_symbol_is_stub_definition m mh r \<longleftrightarrow> macho_section_flags m mh (r_sect r) AND SECTION_TYPE = S_SYMBOL_STUBS"

definition resolver_lookup_external_definition ::
  "(int \<Rightarrow> int) option \<Rightarrow> memory \<Rightarrow> u64 \<Rightarrow> u64 \<Rightarrow> u8 list \<Rightarrow> macho_sym_index list \<Rightarrow> u64 option \<times> macho_sym_index list" where
  "resolver_lookup_external_definition fresh m mh slide name indexes =
     (case lookup_macho_symbol_result fresh m mh slide name indexes of
        (r, indexes') \<Rightarrow>
          (map_option (\<lambda>r. case r of
               None \<Rightarrow> 0
             | Some s \<Rightarrow>
                 if \<not> macho_symbol_is_external_definition s then 0
                 else if macho_symbol_is_stub_definition m mh s then 0
                 else r_addr s) r, indexes'))"

section \<open>The index is a correct table\<close>

definition sym_key :: "memory \<Rightarrow> symtab_location \<Rightarrow> nat \<Rightarrow> u8 list option" where
  "sym_key m l i = (let nl = sym_at m l (int i) in if sym_indexed m l nl then Some (sym_string m l nl) else None)"

lemma idx32_small: "i < 2 ^ 31 \<Longrightarrow> idx32 i = int i"
  by (simp add: idx32_def sint_uint unsigned_of_nat take_bit_nat_eq_self signed_take_bit_int_eq_self_iff of_nat_less_iff)

lemma index_syms_ok:
  assumes "n \<le> 2 ^ 31" and "index_syms m l n (\<lambda>_. -1, c0) = (b, c)"
  shows "chain_ok macho_name_hash (sym_key m l) n b c"
  using assms
proof (induction n arbitrary: b c)
  case 0
  then show ?case by (auto simp: chain_ok_empty)
next
  case (Suc n)
  obtain b0 c1 where s: "index_syms m l n (\<lambda>_. -1, c0) = (b0, c1)" by (metis surj_pair)
  have ok: "chain_ok macho_name_hash (sym_key m l) n b0 c1" using Suc.IH [OF _ s] Suc.prems(1) by simp
  show ?case
  proof (cases "sym_key m l n")
    case None
    then have "b = b0" "c = c1" using Suc.prems(2) s by (simp_all add: sym_key_def Let_def split: if_splits)
    then show ?thesis using chain_ok_skip [where key = "sym_key m l", OF ok None] by simp
  next
    case (Some k)
    have "b = b0(macho_name_hash k := int n)" "c = c1(int n := b0 (macho_name_hash k))"
      using Suc.prems Some s by (simp_all add: sym_key_def Let_def idx32_small split: if_splits)
    then show ?thesis using chain_ok_enter [where key = "sym_key m l", OF ok Some] by (simp only:)
  qed
qed

text \<open>The cache holds indexes of the images as they lie in memory.\<close>

definition cache_ok :: "memory \<Rightarrow> (u64 \<Rightarrow> u64) \<Rightarrow> macho_sym_index list \<Rightarrow> bool" where
  "cache_ok m slides indexes \<longleftrightarrow>
     (\<forall>index \<in> set indexes. \<forall>l. locate_symtab m (idx_mh index) (slides (idx_mh index)) = Some l \<longrightarrow>
        chain_ok macho_name_hash (sym_key m l) (unat (loc_nsyms l)) (buckets index) (chain index))"

lemma index_for_ok:
  assumes cache: "cache_ok m slides indexes" and l: "locate_symtab m mh (slides mh) = Some l"
    and small: "loc_nsyms l < 2 ^ 31" and eq: "macho_sym_index_for fresh m mh l indexes = (r, indexes')"
  shows "cache_ok m slides indexes'"
    and "r = Some index \<Longrightarrow> chain_ok macho_name_hash (sym_key m l) (unat (loc_nsyms l)) (buckets index) (chain index)"
    and "r = None \<Longrightarrow> fresh = None"
proof -
  have n: "unat (loc_nsyms l) \<le> 2 ^ 31" using small by (simp add: word_less_nat_alt)
  obtain b c where bc: "index_syms m l (unat (loc_nsyms l)) (\<lambda>_. -1, the fresh) = (b, c)" by (metis surj_pair)
  note ok = index_syms_ok [OF n bc]
  let ?new = "\<lparr>idx_mh = mh, buckets = b, chain = c\<rparr>"
  consider x where "find (\<lambda>index. idx_mh index = mh) indexes = Some x" "r = Some x" "indexes' = indexes"
    | "fresh = None" "r = None" "indexes' = indexes"
    | "r = Some ?new" "indexes' = ?new # indexes"
    using eq bc by (auto simp: macho_sym_index_for_def macho_sym_index_build_def split: option.splits)
  then have "cache_ok m slides indexes' \<and>
    (\<forall>index. r = Some index \<longrightarrow> chain_ok macho_name_hash (sym_key m l) (unat (loc_nsyms l)) (buckets index) (chain index)) \<and>
    (r = None \<longrightarrow> fresh = None)"
  proof cases
    case (1 x)
    then have "x \<in> set indexes" "idx_mh x = mh" by (auto simp: find_Some_iff)
    then show ?thesis using 1 cache l by (auto simp: cache_ok_def)
  next
    case 2
    then show ?thesis using cache by simp
  next
    case 3
    then show ?thesis using cache l ok by (simp add: cache_ok_def)
  qed
  then show "cache_ok m slides indexes'"
    "r = Some index \<Longrightarrow> chain_ok macho_name_hash (sym_key m l) (unat (loc_nsyms l)) (buckets index) (chain index)"
    "r = None \<Longrightarrow> fresh = None" by blast+
qed

text \<open>The names of the table end inside it.\<close>

definition strings_end :: "memory \<Rightarrow> symtab_location \<Rightarrow> bool" where
  "strings_end m l \<longleftrightarrow>
     (\<forall>i < unat (loc_nsyms l). sym_key m l i \<noteq> None \<longrightarrow>
        cstr_ends (unat (loc_strsize l - n_strx (sym_at m l (int i)))) m (loc_strtab l + ucast (n_strx (sym_at m l (int i)))))"

lemma sym_hit:
  assumes "strings_end m l" and "0 \<notin> set name" and "i < unat (loc_nsyms l)" and "sym_key m l i \<noteq> None"
  shows "cstr_eq m (loc_strtab l + ucast (n_strx (sym_at m l (int i)))) name \<longleftrightarrow> sym_key m l i = Some name"
  using assms cstr_eq_within [OF _ assms(2)]
  by (auto simp: strings_end_def sym_key_def sym_string_def Let_def split: if_splits)

text \<open>What a lookup by name means: the last indexed entry with the name.\<close>

definition last_named :: "memory \<Rightarrow> symtab_location \<Rightarrow> u8 list \<Rightarrow> nlist_64 option" where
  "last_named m l name =
     find (\<lambda>nl. sym_indexed m l nl \<and> sym_string m l nl = name)
       (rev (map (\<lambda>i. sym_at m l (int i)) [0..<unat (loc_nsyms l)]))"

lemma find_last_index:
  "find P (rev (map f [0..<n])) = (if last_index (\<lambda>i. P (f i)) n \<ge> 0 then Some (f (nat (last_index (\<lambda>i. P (f i)) n))) else None)"
  by (induction n) auto

lemma last_named_index:
  "last_named m l name =
     (let k = last_index (\<lambda>i. sym_key m l i = Some name) (unat (loc_nsyms l))
      in if k \<ge> 0 then Some (sym_at m l k) else None)"
proof -
  have "(sym_key m l i = Some name) = (sym_indexed m l (sym_at m l (int i)) \<and> sym_string m l (sym_at m l (int i)) = name)" for i
    by (simp add: sym_key_def Let_def)
  then show ?thesis unfolding last_named_def find_last_index Let_def by simp
qed

lemma lookup_indexed:
  assumes "cache_ok m slides indexes" and "slides mh = slide" and "locate_symtab m mh slide = Some l"
    and "loc_nsyms l < 2 ^ 31" and "strings_end m l" and "0 \<notin> set name"
    and "lookup_macho_symbol_result (Some c0) m mh slide name indexes = (r, indexes')"
  shows "cache_ok m slides indexes' \<and> r = Some (map_option (symbol_result slide) (last_named m l name))"
proof -
  have l: "locate_symtab m mh (slides mh) = Some l" using assms(2,3) by simp
  obtain o' x' where f: "macho_sym_index_for (Some c0) m mh l indexes = (o', x')" by (metis surj_pair)
  note i = index_for_ok [OF assms(1) l assms(4) f]
  obtain index where ix: "o' = Some index" using i(3) by (cases o') auto
  let ?hit = "\<lambda>candidate. cstr_eq m (loc_strtab l + ucast (n_strx (sym_at m l candidate))) name"
  have "chain_find (chain index) ?hit (buckets index (macho_name_hash name)) =
      Some (last_index (\<lambda>i. sym_key m l i = Some name) (unat (loc_nsyms l)))"
    by (rule chain_find_last [OF i(2) [OF ix]]) (rule sym_hit [OF assms(5,6)])
  then have "r = Some (map_option (symbol_result slide) (last_named m l name)) \<and> indexes' = x'"
    using assms(7) by (auto simp: lookup_macho_symbol_result_def assms(3) f ix last_named_index Let_def)
  then show ?thesis using i(1) by simp
qed

text \<open>
  C35.  The indexed lookup returns, keeps the cache of indexes correct, and finds what a search of the
  whole table from its end finds: the last section symbol of that name, at its address plus the slide.
\<close>

theorem lookup_symbol_indexed:
  assumes "cache_ok m slides indexes" and "slides mh = slide" and "locate_symtab m mh slide = Some l"
    and "loc_nsyms l < 2 ^ 31" and "strings_end m l" and "0 \<notin> set name"
    and "lookup_macho_symbol_result (Some c0) m mh slide name indexes = (r, indexes')"
  shows "cache_ok m slides indexes' \<and> r = Some (map_option (symbol_result slide) (last_named m l name))"
  using assms by (rule lookup_indexed)

text \<open>
  An image with one segment, one section at \<open>0x10800\<close>, and the symbols \<open>_f\<close> and \<open>_g\<close> in it.
\<close>

definition two_symbols :: memory where
  "two_symbols = sparse
     [(0x10010, 2), (0x10014, 176),
      (0x10020, 0x19), (0x10024, 152), (0x10028, 0x5F), (0x10029, 0x5F), (0x1002A, 0x54), (0x1002B, 0x45),
      (0x1002C, 0x58), (0x1002D, 0x54), (0x1003A, 1), (0x10041, 0x10), (0x10051, 0x10), (0x10060, 1),
      (0x10089, 8), (0x1008A, 1), (0x10091, 1),
      (0x100B8, 2), (0x100BC, 24), (0x100C1, 2), (0x100C4, 2), (0x100C9, 3), (0x100CC, 8),
      (0x10200, 1), (0x10204, 0x0F), (0x10205, 1), (0x10209, 8), (0x1020A, 1),
      (0x10210, 4), (0x10214, 0x0F), (0x10215, 1), (0x10218, 0x40), (0x10219, 8), (0x1021A, 1),
      (0x10301, 0x5F), (0x10302, 0x66), (0x10304, 0x5F), (0x10305, 0x67)]"

lemmas read_structures =
  mach_header_64_at_def load_command_at_def segment_command_64_at_def symtab_command_at_def nlist_64_at_def
  section_64_at_def rd_name16_def rd64_def rd32_def mem_read_def upt_rec

lemma two_symbols_structures:
  "mh_ncmds (mach_header_64_at two_symbols 0x10000) = 2" "mh_sizeofcmds (mach_header_64_at two_symbols 0x10000) = 176"
  "load_command_at two_symbols 0x10020 = \<lparr>lc_cmd = 0x19, lc_cmdsize = 152\<rparr>"
  "load_command_at two_symbols 0x100B8 = \<lparr>lc_cmd = 2, lc_cmdsize = 24\<rparr>"
  "symtab_command_at two_symbols 0x100B8 = \<lparr>symoff = 0x200, nsyms = 2, stroff = 0x300, strsize = 8\<rparr>"
  "nlist_64_at two_symbols 0x10200 = \<lparr>n_strx = 1, n_type = 0x0F, n_sect = 1, n_desc = 0, n_value = 0x10800\<rparr>"
  "nlist_64_at two_symbols 0x10210 = \<lparr>n_strx = 4, n_type = 0x0F, n_sect = 1, n_desc = 0, n_value = 0x10840\<rparr>"
  "mem_read 7 two_symbols 0x10301 = [0x5F, 0x66, 0, 0x5F, 0x67, 0, 0]"
  "mem_read 4 two_symbols 0x10304 = [0x5F, 0x67, 0, 0]"
  "two_symbols 0x10301 = 0x5F" "two_symbols 0x10304 = 0x5F"
  by (simp_all add: read_structures two_symbols_def sparse_def)

lemma two_symbols_segment:
  "segment_command_64_at two_symbols 0x10020 =
     \<lparr>seg_name = [0x5F, 0x5F, 0x54, 0x45, 0x58, 0x54], seg_vmaddr = 0x10000, seg_vmsize = 0x1000, seg_fileoff = 0,
      seg_filesize = 0x1000, seg_maxprot = 0, seg_initprot = 0, seg_nsects = 1, seg_flags = 0\<rparr>"
  by (simp add: read_structures two_symbols_def sparse_def)

definition two_located :: symtab_location where
  "two_located = \<lparr>loc_syms = 0x10200, loc_nsyms = 2, loc_strtab = 0x10300, loc_strsize = 8\<rparr>"

lemma two_symbols_commands: "load_command_addrs two_symbols 0x10000 = [0x10020, 0x100B8]"
proof -
  have "command_addrs m a sz 2 0 =
      (if 0 < sz then a # (if lc_cmdsize (load_command_at m a) < sz then [a + ucast (lc_cmdsize (load_command_at m a))] else []) else [])"
    for m a sz by (simp add: numeral_2_eq_2)
  then show ?thesis by (simp add: load_command_addrs_def two_symbols_structures Let_def)
qed

lemma two_symbols_located: "locate_symtab two_symbols 0x10000 0 = Some two_located"
  by (simp add: locate_symtab_def last_symtab_def symtab_segment_def two_symbols_commands two_symbols_structures
      two_symbols_segment two_located_def Let_def)

lemma two_symbols_keys:
  "sym_at two_symbols two_located 0 = \<lparr>n_strx = 1, n_type = 0x0F, n_sect = 1, n_desc = 0, n_value = 0x10800\<rparr>"
  "sym_at two_symbols two_located 1 = \<lparr>n_strx = 4, n_type = 0x0F, n_sect = 1, n_desc = 0, n_value = 0x10840\<rparr>"
  "sym_key two_symbols two_located 0 = Some [0x5F, 0x66]" "sym_key two_symbols two_located 1 = Some [0x5F, 0x67]"
proof -
  show s: "sym_at two_symbols two_located 0 = \<lparr>n_strx = 1, n_type = 0x0F, n_sect = 1, n_desc = 0, n_value = 0x10800\<rparr>"
    "sym_at two_symbols two_located 1 = \<lparr>n_strx = 4, n_type = 0x0F, n_sect = 1, n_desc = 0, n_value = 0x10840\<rparr>"
    by (simp_all add: sym_at_def two_located_def two_symbols_structures)
  have located: "loc_strtab two_located = 0x10300" "loc_strsize two_located = 8" by (simp_all add: two_located_def)
  have lt: "(1 :: u32) < 8" "(4 :: u32) < 8" by (simp_all add: word_less_nat_alt)
  show "sym_key two_symbols two_located 0 = Some [0x5F, 0x66]" "sym_key two_symbols two_located 1 = Some [0x5F, 0x67]"
    by (simp_all add: sym_key_def s sym_indexed_def sym_string_def cstr_within_def located two_symbols_structures lt)
qed

lemma two_symbols_end: "strings_end two_symbols two_located"
proof -
  have "cstr_ends (unat (loc_strsize two_located - n_strx (sym_at two_symbols two_located (int i)))) two_symbols
      (loc_strtab two_located + ucast (n_strx (sym_at two_symbols two_located (int i))))" if "i = 0 \<or> i = 1" for i
  proof -
    have located: "loc_strtab two_located = 0x10300" "loc_strsize two_located = 8" by (simp_all add: two_located_def)
    show ?thesis using that by (elim disjE) (simp_all add: two_symbols_keys cstr_ends_def located two_symbols_structures)
  qed
  moreover have "unat (loc_nsyms two_located) = 2" by (simp add: two_located_def)
  ultimately show ?thesis unfolding strings_end_def by (simp add: less_2_cases_iff)
qed

lemma two_symbols_named:
  "last_named two_symbols two_located [0x5F, 0x66] = Some (sym_at two_symbols two_located 0)"
  "last_named two_symbols two_located [0x5F, 0x67] = Some (sym_at two_symbols two_located 1)"
proof -
  have two: "last_index P 2 = (if P 1 then 1 else if P 0 then 0 else -1)" for P by (simp add: numeral_2_eq_2)
  have "unat (loc_nsyms two_located) = 2" by (simp add: two_located_def)
  then show "last_named two_symbols two_located [0x5F, 0x66] = Some (sym_at two_symbols two_located 0)"
    "last_named two_symbols two_located [0x5F, 0x67] = Some (sym_at two_symbols two_located 1)"
    by (simp_all add: last_named_index two two_symbols_keys del: One_nat_def)
qed

theorem lookup_symbol_indexed_witness:
  "fst (lookup_macho_symbol_result (Some (\<lambda>_. 0)) two_symbols 0x10000 0 [0x5F, 0x66] []) =
     Some (Some \<lparr>r_addr = 0x10800, r_type = 0x0F, r_desc = 0, r_sect = 1\<rparr>)"
proof -
  obtain r ix where e: "lookup_macho_symbol_result (Some (\<lambda>_. 0)) two_symbols 0x10000 0 [0x5F, 0x66] [] = (r, ix)"
    by (metis surj_pair)
  have c: "cache_ok two_symbols (\<lambda>_. 0) []" by (simp add: cache_ok_def)
  have n: "loc_nsyms two_located < 2 ^ 31" by (simp add: two_located_def word_less_nat_alt)
  show ?thesis
    using lookup_symbol_indexed [OF c _ two_symbols_located n two_symbols_end _ e]
    by (simp add: e symbol_result_def two_symbols_named two_symbols_keys)
qed

end
