(* ===== verification/Sym_Extent.thy ===== *)
theory Sym_Extent
  imports Sym_Index
begin

text \<open>
  The extent of a symbol in \<open>resolver.c\<close>: the cache of the section symbols sorted by address, and the
  search for the end of a symbol.  \<open>qsort\<close> is a parameter; it returns a sorted permutation.  The
  allocations of the cache are taken to succeed.
\<close>

section \<open>The cache\<close>

record sym_entry =
  e_vmaddr :: u64
  e_strx :: u32
  e_sect :: u8

record extent_cache =
  ec_mh :: u64
  ec_syms :: "sym_entry list option"
  ec_strtab :: u64
  ec_strsize :: u32
  section_ends :: "u64 list"

definition extent_cache_init :: extent_cache where
  "extent_cache_init = \<lparr>ec_mh = 0, ec_syms = None, ec_strtab = 0, ec_strsize = 0, section_ends = []\<rparr>"

definition extent_entries :: "memory \<Rightarrow> symtab_location \<Rightarrow> sym_entry list" where
  "extent_entries m l =
     map (\<lambda>nl. \<lparr>e_vmaddr = n_value nl, e_strx = n_strx nl, e_sect = n_sect nl\<rparr>)
       (filter (\<lambda>nl. n_type nl AND N_STAB = 0 \<and> n_type nl AND N_TYPE = N_SECT \<and> n_strx nl < loc_strsize l)
         (map (\<lambda>i. sym_at m l (int i)) [0..<unat (loc_nsyms l)]))"

definition build_extent_cache ::
  "(sym_entry list \<Rightarrow> sym_entry list) \<Rightarrow> memory \<Rightarrow> u64 \<Rightarrow> u64 \<Rightarrow> extent_cache \<Rightarrow> int \<times> extent_cache" where
  "build_extent_cache qsort m mh slide cache =
     (if ec_mh cache = mh \<and> ec_syms cache \<noteq> None then (0, cache)
      else case last_symtab m mh of
        None \<Rightarrow> (-1, extent_cache_init)
      | Some symtab \<Rightarrow>
          let cache1 = extent_cache_init\<lparr>section_ends := 0 # map (\<lambda>s. sect_addr s + sect_size s) (image_sections m mh)\<rparr>
          in case locate_symtab m mh slide of
            None \<Rightarrow> (-1, cache1)
          | Some l \<Rightarrow>
              (0, cache1\<lparr>ec_strtab := loc_strtab l, ec_strsize := loc_strsize l,
                         ec_syms := Some (qsort (extent_entries m l)), ec_mh := mh\<rparr>))"

section \<open>The extent\<close>

definition extent_end :: "u64 list \<Rightarrow> sym_entry \<Rightarrow> sym_entry list \<Rightarrow> u64" where
  "extent_end ends s later =
     (let next = (case find (\<lambda>e. e_sect e = e_sect s) later of None \<Rightarrow> 0 | Some e \<Rightarrow> e_vmaddr e)
      in if next = 0 \<and> unat (e_sect s) < length ends then ends ! unat (e_sect s) else next)"

fun extent_from :: "memory \<Rightarrow> u64 \<Rightarrow> u64 list \<Rightarrow> u8 list \<Rightarrow> sym_entry list \<Rightarrow> (u64 \<times> u64) option" where
  "extent_from m strtab ends name [] = None"
| "extent_from m strtab ends name (s # later) =
     (if \<not> cstr_eq m (strtab + ucast (e_strx s)) name then extent_from m strtab ends name later
      else let e = extent_end ends s later
        in if e \<le> e_vmaddr s then None else Some (e_vmaddr s, e))"

definition resolver_symbol_extent ::
  "(sym_entry list \<Rightarrow> sym_entry list) \<Rightarrow> memory \<Rightarrow> u64 \<Rightarrow> u64 \<Rightarrow> u8 list \<Rightarrow> extent_cache \<Rightarrow>
     (u64 \<times> u64) option \<times> extent_cache" where
  "resolver_symbol_extent qsort m mh slide name cache =
     (case build_extent_cache qsort m mh slide cache of
        (r, cache') \<Rightarrow>
          (if r \<noteq> 0 then None
           else map_option (\<lambda>(start, e). (start + slide, e + slide))
             (extent_from m (ec_strtab cache') (section_ends cache') name (the (ec_syms cache'))), cache'))"

section \<open>Correctness\<close>

definition sorts :: "(sym_entry list \<Rightarrow> sym_entry list) \<Rightarrow> bool" where
  "sorts qsort \<longleftrightarrow> (\<forall>xs. set (qsort xs) = set xs \<and> length (qsort xs) = length xs \<and> sorted (map e_vmaddr (qsort xs)))"

text \<open>A filled cache is the one that would be built now.\<close>

definition extents_ok :: "(sym_entry list \<Rightarrow> sym_entry list) \<Rightarrow> memory \<Rightarrow> (u64 \<Rightarrow> u64) \<Rightarrow> extent_cache \<Rightarrow> bool" where
  "extents_ok qsort m slides cache \<longleftrightarrow>
     (ec_syms cache \<noteq> None \<longrightarrow>
        build_extent_cache qsort m (ec_mh cache) (slides (ec_mh cache)) extent_cache_init = (0, cache))"

lemma build_extents_init:
  assumes ok: "extents_ok qsort m slides cache" and eq: "build_extent_cache qsort m mh (slides mh) cache = (r, cache')"
  shows "build_extent_cache qsort m mh (slides mh) extent_cache_init = (r, cache')"
proof (cases "ec_mh cache = mh \<and> ec_syms cache \<noteq> None")
  case True
  then have "r = 0" "cache' = cache" using eq by (simp_all add: build_extent_cache_def)
  then show ?thesis using ok True by (simp add: extents_ok_def)
next
  case False
  moreover have "\<not> (ec_mh extent_cache_init = mh \<and> ec_syms extent_cache_init \<noteq> None)" by (simp add: extent_cache_init_def)
  ultimately show ?thesis using eq unfolding build_extent_cache_def by (simp only: if_False)
qed

lemma build_extents_ok:
  assumes ok: "extents_ok qsort m slides cache" and eq: "build_extent_cache qsort m mh (slides mh) cache = (r, cache')"
  shows "extents_ok qsort m slides cache'"
    and "r = 0 \<Longrightarrow> locate_symtab m mh (slides mh) = Some l \<Longrightarrow>
      ec_syms cache' = Some (qsort (extent_entries m l)) \<and> ec_strtab cache' = loc_strtab l"
proof -
  note init = build_extents_init [OF ok eq]
  have "ec_syms cache' \<noteq> None \<Longrightarrow> ec_mh cache' = mh \<and> r = 0"
    using init by (auto simp: build_extent_cache_def extent_cache_init_def Let_def split: option.splits)
  then show "extents_ok qsort m slides cache'" using init by (auto simp: extents_ok_def)
  show "ec_syms cache' = Some (qsort (extent_entries m l)) \<and> ec_strtab cache' = loc_strtab l"
    if "r = 0" "locate_symtab m mh (slides mh) = Some l"
    using init that by (auto simp: build_extent_cache_def extent_cache_init_def Let_def split: option.splits)
qed

lemma find_Some_split: "find P xs = Some x \<Longrightarrow> \<exists>us vs. xs = us @ x # vs \<and> (\<forall>u \<in> set us. \<not> P u)"
proof (induction xs)
  case (Cons y ys)
  show ?case
  proof (cases "P y")
    case True
    then show ?thesis using Cons.prems by (intro exI [of _ "[]"] exI [of _ ys]) simp
  next
    case False
    then obtain us vs where "ys = us @ x # vs" "\<forall>u \<in> set us. \<not> P u" using Cons by auto
    then show ?thesis using False by (intro exI [of _ "y # us"] exI [of _ vs]) simp
  qed
qed simp

lemma extent_from_sound:
  assumes "extent_from m strtab ends name es = Some (start, e)" and "sorted (map e_vmaddr es)" and "start \<noteq> 0"
  shows "\<exists>s \<in> set es. cstr_eq m (strtab + ucast (e_strx s)) name \<and> start = e_vmaddr s \<and> start < e \<and>
    (\<forall>s' \<in> set es. e_sect s' = e_sect s \<longrightarrow> e_vmaddr s' \<le> start \<or> e \<le> e_vmaddr s')"
  using assms
proof (induction es)
  case (Cons s later)
  show ?case
  proof (cases "cstr_eq m (strtab + ucast (e_strx s)) name")
    case False
    then have "extent_from m strtab ends name later = Some (start, e)" using Cons.prems(1) by simp
    from Cons.IH [OF this] Cons.prems obtain s1 where s1: "s1 \<in> set later" "cstr_eq m (strtab + ucast (e_strx s1)) name"
      "start = e_vmaddr s1" "start < e" "\<forall>s' \<in> set later. e_sect s' = e_sect s1 \<longrightarrow> e_vmaddr s' \<le> start \<or> e \<le> e_vmaddr s'"
      by auto
    then have "e_vmaddr s \<le> start" using Cons.prems(2) by simp
    then show ?thesis using s1 by (intro bexI [of _ s1]) auto
  next
    case True
    then have eq: "start = e_vmaddr s" "e = extent_end ends s later" "start < e"
      using Cons.prems(1) by (auto simp: Let_def not_le split: if_splits)
    have "e_vmaddr s' \<le> start \<or> e \<le> e_vmaddr s'" if s': "s' \<in> set later" "e_sect s' = e_sect s" for s'
    proof (cases "find (\<lambda>x. e_sect x = e_sect s) later")
      case None
      then show ?thesis using s' by (auto simp: find_None_iff)
    next
      case (Some x)
      from find_Some_split [OF this] obtain us vs where x: "later = us @ x # vs" "\<forall>u \<in> set us. e_sect u \<noteq> e_sect s"
        by blast
      have "start \<le> e_vmaddr x" using Cons.prems(2) x eq by simp
      then have "e_vmaddr x \<noteq> 0" using Cons.prems(3) by auto
      then have "e = e_vmaddr x" using eq(2) Some by (simp add: extent_end_def)
      moreover have "s' = x \<or> s' \<in> set vs" using s' x by auto
      moreover have "y \<in> set vs \<Longrightarrow> e_vmaddr x \<le> e_vmaddr y" for y using Cons.prems(2) x by (simp add: sorted_append)
      ultimately show ?thesis by auto
    qed
    then show ?thesis using True eq by (intro bexI [of _ s]) auto
  qed
qed simp


lemma two_symbols_entries:
  "extent_entries two_symbols two_located =
     [\<lparr>e_vmaddr = 0x10800, e_strx = 1, e_sect = 1\<rparr>, \<lparr>e_vmaddr = 0x10840, e_strx = 4, e_sect = 1\<rparr>]"
proof -
  have "(1 :: u32) < 8" "(4 :: u32) < 8" by (simp_all add: word_less_nat_alt)
  moreover have "unat (loc_nsyms two_located) = 2" "loc_strsize two_located = 8" by (simp_all add: two_located_def)
  moreover have "[0..<2] = [0, 1 :: nat]" by (simp add: upt_rec)
  ultimately show ?thesis by (simp add: extent_entries_def two_symbols_keys)
qed

lemma two_symbols_extent:
  "fst (resolver_symbol_extent (sort_key e_vmaddr) two_symbols 0x10000 0 [0x5F, 0x66] extent_cache_init) = Some (0x10800, 0x10840)"
proof -
  have "loc_strtab two_located = 0x10300" by (simp add: two_located_def)
  moreover have "cstr_eq two_symbols 0x10301 [0x5F, 0x66]"
    by (simp add: cstr_eq_def mem_read_def two_symbols_def sparse_def)
  moreover have "last_symtab two_symbols 0x10000 \<noteq> None"
    using two_symbols_located by (auto simp: locate_symtab_def split: option.splits)
  ultimately show ?thesis
    by (auto simp: resolver_symbol_extent_def build_extent_cache_def extent_cache_init_def two_symbols_located Let_def
        two_symbols_entries extent_end_def)
qed


end
