(* ===== verification/Patcher.thy ===== *)
theory Patcher
  imports Sym_Extent Gate_Island
begin

text \<open>
  The patcher of \<open>patcher.c\<close>: the grammar of a patch file, the resolution of its locations, the search
  for a pattern, and the four passes of \<open>patcher_apply\<close>.

  A C string is the list of its characters before the null; a pointer into it is the rest of the list.
  The errors the code reports in words are values; \<open>No_Return\<close> stands for a search that does not end.
\<close>

section \<open>Expressions\<close>

datatype patch_error = No_File | Bad_Syntax | Unresolved | Branch_Range | Expect_Mismatch | Write_Failed | No_Return

datatype loc_expr =
    LOC_ABS u64
  | LOC_SYM string u64
  | LOC_SYM_FIND string u64 "(u32 \<times> u32) list" u64
  | LOC_LABEL string u64

datatype insn_expr = INS_RAW u32 | INS_B loc_expr | INS_BL loc_expr

text \<open>Lines \<open>at\<close> and lines in the old format are treated alike once they are parsed.\<close>

datatype patch_line =
    LINE_AT loc_expr insn_expr "u32 option"
  | LINE_LET string loc_expr

section \<open>Helpers\<close>

definition strip_comment :: "string \<Rightarrow> string" where
  "strip_comment s = takeWhile (\<lambda>c. c \<noteq> CHR ''#'') s"

definition ws :: "char \<Rightarrow> bool" where
  "ws c \<longleftrightarrow> c = CHR '' '' \<or> c = CHR 0x09 \<or> c = CHR 0x0A \<or> c = CHR 0x0D"

definition skip_ws :: "string \<Rightarrow> string" where
  "skip_ws p = dropWhile ws p"

text \<open>\<open>isspace\<close> of the C locale.\<close>

definition isspace :: "char \<Rightarrow> bool" where
  "isspace c \<longleftrightarrow> ws c \<or> c = CHR 0x0B \<or> c = CHR 0x0C"

definition hex_value :: "char \<Rightarrow> nat option" where
  "hex_value c =
     (let n = of_char c :: nat
      in if 48 \<le> n \<and> n \<le> 57 then Some (n - 48)
         else if 97 \<le> n \<and> n \<le> 102 then Some (n - 87)
         else if 65 \<le> n \<and> n \<le> 70 then Some (n - 55)
         else None)"

definition is_hex_digit :: "char \<Rightarrow> bool" where
  "is_hex_digit c \<longleftrightarrow> hex_value c \<noteq> None"

definition starts_0x :: "string \<Rightarrow> bool" where
  "starts_0x p \<longleftrightarrow> take 2 p = ''0x'' \<or> take 2 p = ''0X''"

definition head_is :: "(char \<Rightarrow> bool) \<Rightarrow> string \<Rightarrow> bool" where
  "head_is P p \<longleftrightarrow> p \<noteq> [] \<and> P (hd p)"

text \<open>
  \<open>strtoull(p, &end, 16)\<close> at a hexadecimal digit: it takes a prefix \<open>0x\<close> that a digit follows, and a
  value that is too large becomes the largest one.
\<close>

definition strtoull16 :: "string \<Rightarrow> u64 \<times> string" where
  "strtoull16 p =
     (let q = (if starts_0x p \<and> head_is is_hex_digit (drop 2 p) then drop 2 p else p);
          v = foldl (\<lambda>acc c. 16 * acc + the (hex_value c)) 0 (takeWhile is_hex_digit q)
      in (if v < 2 ^ 64 then of_nat v else -1, dropWhile is_hex_digit q))"

definition parse_hex_u64 :: "string \<Rightarrow> (u64 \<times> string) option" where
  "parse_hex_u64 p =
     (let q = skip_ws p;
          q = (if starts_0x q then drop 2 q else q)
      in if \<not> head_is is_hex_digit q then None else Some (strtoull16 q))"

definition looks_legacy :: "string \<Rightarrow> bool" where
  "looks_legacy p =
     (let p = dropWhile (\<lambda>c. c = CHR '' '' \<or> c = CHR 0x09) p
      in if starts_0x p then True
         else if \<not> head_is is_hex_digit p then False
         else let q = dropWhile is_hex_digit p
           in q = [] \<or> hd q = CHR '' '' \<or> hd q = CHR 0x09 \<or> hd q = CHR 0x0A)"

text \<open>The eight nibbles of a pattern: mask and value.\<close>

fun pattern_nibbles :: "string \<Rightarrow> u32 \<Rightarrow> u32 \<Rightarrow> (u32 \<times> u32) option" where
  "pattern_nibbles [] m v = Some (m, v)"
| "pattern_nibbles (c # s) m v =
     (let m = push_bit 4 m; v = push_bit 4 v
      in if c = CHR ''?'' then pattern_nibbles s m v
         else case hex_value c of
           None \<Rightarrow> None
         | Some d \<Rightarrow> pattern_nibbles s (m OR 0xF) (v OR of_nat d))"

definition parse_pattern :: "string \<Rightarrow> (u32 \<times> u32) option" where
  "parse_pattern s =
     (case pattern_nibbles (take 8 s) 0 0 of
        None \<Rightarrow> None
      | Some mv \<Rightarrow>
          if length (take 8 s) \<noteq> 8 then None
          else if head_is (\<lambda>c. \<not> isspace c \<and> c \<noteq> CHR '';'' \<and> c \<noteq> CHR ''#'') (drop 8 s) then None
          else Some mv)"

section \<open>Parsers\<close>

abbreviation (input) LOC_MAX_PATTERNS :: nat where "LOC_MAX_PATTERNS \<equiv> 8"

text \<open>The patterns after \<open>find\<close>; the first argument is how many more there may be.\<close>

fun parse_patterns :: "nat \<Rightarrow> string \<Rightarrow> ((u32 \<times> u32) list \<times> string) option" where
  "parse_patterns 0 p = None"
| "parse_patterns (Suc n) p =
     (case parse_pattern p of
        None \<Rightarrow> None
      | Some mv \<Rightarrow>
          let q = skip_ws (drop 8 p)
          in if head_is (\<lambda>c. is_hex_digit c \<or> c = CHR ''?'') q
             then map_option (\<lambda>(mvs, r). (mv # mvs, r)) (parse_patterns n q)
             else Some ([mv], q))"

definition parse_within :: "string \<Rightarrow> (u64 \<times> string) option" where
  "parse_within p = (if take 7 p = ''within '' then parse_hex_u64 (skip_ws (drop 7 p)) else Some (0, p))"

definition parse_find :: "string \<Rightarrow> u64 \<Rightarrow> string \<Rightarrow> (loc_expr \<times> string) option" where
  "parse_find name off p =
     (case parse_patterns LOC_MAX_PATTERNS p of
        None \<Rightarrow> None
      | Some (mvs, q) \<Rightarrow>
          (case parse_within q of
             None \<Rightarrow> None
           | Some (w, r) \<Rightarrow> Some (LOC_SYM_FIND name off mvs w, r)))"

definition parse_sym :: "string \<Rightarrow> (loc_expr \<times> string) option" where
  "parse_sym p =
     (let in_name = (\<lambda>c. \<not> isspace c \<and> c \<noteq> CHR ''+'' \<and> c \<noteq> CHR ''-'' \<and> c \<noteq> CHR '';'');
          name = takeWhile in_name p;
          q = dropWhile in_name p
      in if length name \<ge> 256 \<or> name = [] then None
         else let offset =
             (if head_is (\<lambda>c. c = CHR ''+'' \<or> c = CHR ''-'') q
              then map_option (\<lambda>(v, r). (if hd q = CHR ''-'' then - v else v, r)) (parse_hex_u64 (tl q))
              else Some (0, q))
           in case offset of
             None \<Rightarrow> None
           | Some (off, r) \<Rightarrow>
               let save = skip_ws r
               in if take 5 save = ''find '' then parse_find name off (skip_ws (drop 5 save))
                  else Some (LOC_SYM name off, r))"

definition parse_label :: "string \<Rightarrow> (loc_expr \<times> string) option" where
  "parse_label p =
     (let in_name = (\<lambda>c. \<not> isspace c \<and> c \<noteq> CHR ''+'' \<and> c \<noteq> CHR '';'');
          name = takeWhile in_name p;
          q = dropWhile in_name p
      in if length name \<ge> 256 \<or> name = [] then None
         else if head_is (\<lambda>c. c = CHR ''+'') q
         then map_option (\<lambda>(v, r). (LOC_LABEL name v, r)) (parse_hex_u64 (tl q))
         else Some (LOC_LABEL name 0, q))"

definition parse_loc_expr :: "string \<Rightarrow> (loc_expr \<times> string) option" where
  "parse_loc_expr p =
     (let p = skip_ws p
      in if take 4 p = ''sym:'' then parse_sym (drop 4 p)
         else if starts_0x p then map_option (\<lambda>(v, q). (LOC_ABS v, q)) (parse_hex_u64 p)
         else parse_label p)"

definition keyword :: "string \<Rightarrow> string \<Rightarrow> bool" where
  "keyword k p \<longleftrightarrow> take 3 p = k \<and> (drop 3 p = [] \<or> isspace (hd (drop 3 p)) \<or> hd (drop 3 p) = CHR '';'')"

definition parse_u32 :: "string \<Rightarrow> (u32 \<times> string) option" where
  "parse_u32 p =
     (case parse_hex_u64 p of
        None \<Rightarrow> None
      | Some (v, q) \<Rightarrow> if v > 0xFFFFFFFF then None else Some (ucast v, q))"

definition parse_insn_expr :: "string \<Rightarrow> (insn_expr \<times> string) option" where
  "parse_insn_expr p =
     (let p = skip_ws p
      in if keyword ''nop'' p then Some (INS_RAW ENC_NOP, drop 3 p)
         else if keyword ''ret'' p then Some (INS_RAW ENC_RET, drop 3 p)
         else if take 3 p = ''bl '' then map_option (\<lambda>(l, q). (INS_BL l, q)) (parse_loc_expr (drop 3 p))
         else if take 2 p = ''b '' then map_option (\<lambda>(l, q). (INS_B l, q)) (parse_loc_expr (drop 2 p))
         else map_option (\<lambda>(v, q). (INS_RAW v, q)) (parse_u32 p))"

definition parse_expect :: "string \<Rightarrow> u32 option option" where
  "parse_expect p =
     (let p = skip_ws p
      in if p = [] then Some None
         else if hd p \<noteq> CHR '';'' then None
         else let q = skip_ws (tl p)
           in if take 7 q \<noteq> ''expect '' then None
              else map_option (\<lambda>(v, r). Some v) (parse_u32 (skip_ws (drop 7 q))))"

definition parse_let :: "string \<Rightarrow> patch_line option" where
  "parse_let p =
     (let in_name = (\<lambda>c. \<not> isspace c \<and> c \<noteq> CHR ''='');
          name = takeWhile in_name p;
          q = skip_ws (dropWhile in_name p)
      in if length name \<ge> 128 then None
         else if \<not> head_is (\<lambda>c. c = CHR ''='') q then None
         else map_option (\<lambda>(l, r). LINE_LET name l) (parse_loc_expr (skip_ws (tl q))))"

definition parse_at :: "string \<Rightarrow> patch_line option" where
  "parse_at p =
     (case parse_loc_expr p of
        None \<Rightarrow> None
      | Some (l, q) \<Rightarrow>
          (case parse_insn_expr q of
             None \<Rightarrow> None
           | Some (i, r) \<Rightarrow> map_option (LINE_AT l i) (parse_expect r)))"

definition parse_legacy :: "string \<Rightarrow> patch_line option" where
  "parse_legacy p =
     (case parse_hex_u64 p of
        None \<Rightarrow> None
      | Some (a, q) \<Rightarrow> map_option (\<lambda>(i, r). LINE_AT (LOC_ABS a) (INS_RAW i) None) (parse_u32 q))"

text \<open>One turn of the loop of the first pass: nothing on an empty line, or an error, or a line.\<close>

definition parse_line :: "string \<Rightarrow> patch_error + patch_line option" where
  "parse_line buf =
     (let p = skip_ws (strip_comment buf);
          parsed = (\<lambda>r. case r of None \<Rightarrow> Inl Bad_Syntax | Some l \<Rightarrow> Inr (Some l))
      in if p = [] then Inr None
         else if looks_legacy p then parsed (parse_legacy p)
         else if take 4 p = ''let '' then parsed (parse_let (skip_ws (drop 4 p)))
         else if take 3 p = ''at '' then parsed (parse_at (skip_ws (drop 3 p)))
         else Inl Bad_Syntax)"

text \<open>
  \<open>fgets(buf, 512, f)\<close>: at most 511 characters, up to and with a newline.  What follows a null in the
  buffer is not seen.
\<close>

fun fgets_take :: "nat \<Rightarrow> string \<Rightarrow> string \<times> string" where
  "fgets_take 0 f = ([], f)"
| "fgets_take (Suc n) [] = ([], [])"
| "fgets_take (Suc n) (c # f) =
     (if c = CHR 0x0A then ([c], f) else (case fgets_take n f of (b, r) \<Rightarrow> (c # b, r)))"

lemma fgets_take_shorter:
  assumes "f \<noteq> []" shows "length (snd (fgets_take (Suc n) f)) < length f"
proof -
  have le: "length (snd (fgets_take n f)) \<le> length f" for n f
    by (induction n f rule: fgets_take.induct) (auto split: prod.splits)
  obtain c g where "f = c # g" using assms by (cases f) auto
  then show ?thesis using le [of n g] by (auto simp: split_beta less_Suc_eq_le)
qed

function parse_file :: "string \<Rightarrow> patch_error + patch_line list" where
  "parse_file f =
     (if f = [] then Inr []
      else case parse_line (takeWhile (\<lambda>c. c \<noteq> CHR 0x00) (fst (fgets_take 511 f))) of
        Inl e \<Rightarrow> Inl e
      | Inr r \<Rightarrow>
          (case parse_file (snd (fgets_take 511 f)) of
             Inl e \<Rightarrow> Inl e
           | Inr ls \<Rightarrow> Inr (case r of None \<Rightarrow> ls | Some l \<Rightarrow> l # ls)))"
  by pat_completeness auto
termination
proof (relation "measure length")
  fix f :: string and r assume "f \<noteq> []"
  then show "(snd (fgets_take 511 f), f) \<in> measure length"
    using fgets_take_shorter [of f 510] by simp
qed simp

declare parse_file.simps [simp del]

section \<open>Resolution\<close>

type_synonym labels = "(string \<times> u64 option) list"

fun find_label :: "labels \<Rightarrow> string \<Rightarrow> u64 option" where
  "find_label [] name = None"
| "find_label ((n, a) # ls) name = (if n = name then a else find_label ls name)"

fun set_label :: "string \<Rightarrow> u64 \<Rightarrow> labels \<Rightarrow> labels" where
  "set_label name addr [] = []"
| "set_label name addr ((n, a) # ls) = (if n = name then (n, Some addr) # ls else (n, a) # set_label name addr ls)"

text \<open>Whether the words at \<open>a\<close> match a list of patterns.\<close>

fun words_match :: "memory \<Rightarrow> u64 \<Rightarrow> (u32 \<times> u32) list \<Rightarrow> bool" where
  "words_match m a [] = True"
| "words_match m a ((msk, v) # mvs) \<longleftrightarrow> rd32 m a AND msk = v \<and> words_match m (a + 4) mvs"

text \<open>The loop of the search: the number of hits, at most two, and the first hit.\<close>

partial_function (option) pattern_loop ::
  "memory \<Rightarrow> u64 \<Rightarrow> u64 \<Rightarrow> (u32 \<times> u32) list \<Rightarrow> u64 \<Rightarrow> nat \<times> u64 \<Rightarrow> (nat \<times> u64) option" where
  "pattern_loop m fin need mvs a r =
     (if a + need \<le> fin
      then let r' = (if words_match m a mvs then (Suc (fst r), if fst r = 0 then a else snd r) else r)
        in if fst r' > 1 then Some r' else pattern_loop m fin need mvs (a + 4) r'
      else Some r)"

definition pattern_find_unique :: "memory \<Rightarrow> u64 \<Rightarrow> u64 \<Rightarrow> (u32 \<times> u32) list \<Rightarrow> (nat \<times> u64) option" where
  "pattern_find_unique m start fin mvs =
     (let need = of_nat (length mvs) * 4
      in if need = 0 \<or> fin < start \<or> fin - start < need then Some (0, 0)
         else pattern_loop m fin need mvs start (0, 0))"

text \<open>
  The image the locations are resolved in: whether there is one, its slide, the lookup of a symbol and
  of its extent, both with the state of their caches.
\<close>

record 'r image =
  have_mh :: bool
  im_slide :: u64
  lookup_symbol :: "u8 list \<Rightarrow> 'r \<Rightarrow> u64 \<times> 'r"
  symbol_extent :: "u8 list \<Rightarrow> 'r \<Rightarrow> (u64 \<times> u64) option \<times> 'r"

definition resolve_find :: "memory \<Rightarrow> u64 \<times> u64 \<Rightarrow> (u32 \<times> u32) list \<Rightarrow> u64 \<Rightarrow> patch_error + u64" where
  "resolve_find m ext mvs within =
     (case ext of
        (seg_start, seg_end) \<Rightarrow>
          let fin = (if within \<noteq> 0 \<and> seg_start + within < seg_end then seg_start + within else seg_end)
          in case pattern_find_unique m seg_start fin mvs of
            None \<Rightarrow> Inl No_Return
          | Some (count, hit) \<Rightarrow> if count \<noteq> 1 then Inl Unresolved else Inr hit)"

definition resolve_loc :: "memory \<Rightarrow> 'r image \<Rightarrow> labels \<Rightarrow> loc_expr \<Rightarrow> 'r \<Rightarrow> (patch_error + u64) \<times> 'r" where
  "resolve_loc m im labels loc r =
     (case loc of
        LOC_ABS off \<Rightarrow> (Inr (off + im_slide im), r)
      | LOC_LABEL name off \<Rightarrow>
          ((case find_label labels name of None \<Rightarrow> Inl Unresolved | Some base \<Rightarrow> Inr (base + off)), r)
      | LOC_SYM name off \<Rightarrow>
          if \<not> have_mh im then (Inl Unresolved, r)
          else (case lookup_symbol im (bytes_of name) r of
            (sym_start, rs1) \<Rightarrow> if sym_start = 0 then (Inl Unresolved, rs1) else (Inr (sym_start + off), rs1))
      | LOC_SYM_FIND name off mvs within \<Rightarrow>
          if \<not> have_mh im then (Inl Unresolved, r)
          else (case lookup_symbol im (bytes_of name) r of
            (sym_start, rs1) \<Rightarrow>
              if sym_start = 0 then (Inl Unresolved, rs1)
              else (case symbol_extent im (bytes_of name) rs1 of
                (None, rs2) \<Rightarrow> (Inl Unresolved, rs2)
              | (Some ext, rs2) \<Rightarrow> (resolve_find m ext mvs within, rs2))))"

section \<open>The passes\<close>

definition register_labels :: "patch_line list \<Rightarrow> labels" where
  "register_labels ls = concat (map (\<lambda>l. case l of LINE_LET name _ \<Rightarrow> [(name, None)] | _ \<Rightarrow> []) ls)"

fun resolve_labels ::
  "memory \<Rightarrow> 'r image \<Rightarrow> patch_line list \<Rightarrow> labels \<Rightarrow> 'r \<Rightarrow> (patch_error + labels) \<times> 'r" where
  "resolve_labels m im [] labels r = (Inr labels, r)"
| "resolve_labels m im (LINE_LET name loc # ls) labels r =
     (case resolve_loc m im labels loc r of
        (Inl e, rs1) \<Rightarrow> (Inl e, rs1)
      | (Inr addr, rs1) \<Rightarrow> resolve_labels m im ls (set_label name addr labels) rs1)"
| "resolve_labels m im (LINE_AT loc i x # ls) labels r = resolve_labels m im ls labels r"

type_synonym target = "u64 \<times> insn_expr \<times> u32 option"

fun resolve_targets ::
  "memory \<Rightarrow> 'r image \<Rightarrow> labels \<Rightarrow> patch_line list \<Rightarrow> 'r \<Rightarrow> (patch_error + target list) \<times> 'r" where
  "resolve_targets m im labels [] r = (Inr [], r)"
| "resolve_targets m im labels (LINE_LET name loc # ls) r = resolve_targets m im labels ls r"
| "resolve_targets m im labels (LINE_AT loc i x # ls) r =
     (case resolve_loc m im labels loc r of
        (Inl e, rs1) \<Rightarrow> (Inl e, rs1)
      | (Inr addr, rs1) \<Rightarrow>
          (case resolve_targets m im labels ls rs1 of
             (Inl e, rs2) \<Rightarrow> (Inl e, rs2)
           | (Inr ts, rs2) \<Rightarrow> (Inr ((addr, i, x) # ts), rs2)))"

definition branch_insn :: "bool \<Rightarrow> u64 \<Rightarrow> u64 \<Rightarrow> patch_error + u32" where
  "branch_insn link addr tgt =
     (let diff = tgt - addr
      in if \<not> arm64_branch_in_range diff then Inl Branch_Range
         else let woff = ucast (signed_drop_bit 2 diff)
           in Inr (if link then enc_bl woff else enc_b woff))"

definition encode_insn ::
  "memory \<Rightarrow> 'r image \<Rightarrow> labels \<Rightarrow> u64 \<Rightarrow> insn_expr \<Rightarrow> 'r \<Rightarrow> (patch_error + u32) \<times> 'r" where
  "encode_insn m im labels addr i r =
     (case i of
        INS_RAW v \<Rightarrow> (Inr v, r)
      | INS_B loc \<Rightarrow>
          (case resolve_loc m im labels loc r of
             (Inl e, rs1) \<Rightarrow> (Inl e, rs1) | (Inr tgt, rs1) \<Rightarrow> (branch_insn False addr tgt, rs1))
      | INS_BL loc \<Rightarrow>
          (case resolve_loc m im labels loc r of
             (Inl e, rs1) \<Rightarrow> (Inl e, rs1) | (Inr tgt, rs1) \<Rightarrow> (branch_insn True addr tgt, rs1)))"

fun encode_all ::
  "memory \<Rightarrow> 'r image \<Rightarrow> labels \<Rightarrow> target list \<Rightarrow> 'r \<Rightarrow> (patch_error + (u64 \<times> u32) list) \<times> 'r" where
  "encode_all m im labels [] r = (Inr [], r)"
| "encode_all m im labels ((addr, i, x) # ts) r =
     (case encode_insn m im labels addr i r of
        (Inl e, rs1) \<Rightarrow> (Inl e, rs1)
      | (Inr w, rs1) \<Rightarrow>
          if x \<noteq> None \<and> rd32 m addr \<noteq> the x then (Inl Expect_Mismatch, rs1)
          else (case encode_all m im labels ts rs1 of
            (Inl e, rs2) \<Rightarrow> (Inl e, rs2)
          | (Inr ws', rs2) \<Rightarrow> (Inr ((addr, w) # ws'), rs2)))"

text \<open>The first three passes, which only read.\<close>

definition patch_plan ::
  "memory \<Rightarrow> 'r image \<Rightarrow> string \<Rightarrow> 'r \<Rightarrow> (patch_error + (u64 \<times> u32) list) \<times> 'r" where
  "patch_plan m im content r =
     (case parse_file content of
        Inl e \<Rightarrow> (Inl e, r)
      | Inr ls \<Rightarrow>
          (case resolve_labels m im ls (register_labels ls) r of
             (Inl e, rs1) \<Rightarrow> (Inl e, rs1)
           | (Inr labels, rs1) \<Rightarrow>
               (case resolve_targets m im labels ls rs1 of
                  (Inl e, rs2) \<Rightarrow> (Inl e, rs2)
                | (Inr ts, rs2) \<Rightarrow> encode_all m im labels ts rs2)))"

abbreviation (input) PROT_READ_EXEC :: u32 where "PROT_READ_EXEC \<equiv> 5"
abbreviation (input) PROT_READ_WRITE_EXEC :: u32 where "PROT_READ_WRITE_EXEC \<equiv> 7"

definition write_word ::
  "(u64 \<Rightarrow> u64 \<Rightarrow> u32 \<Rightarrow> 'k \<Rightarrow> int \<times> 'k) \<Rightarrow> u64 \<Rightarrow> u64 \<Rightarrow> u32 \<Rightarrow> memory \<times> 'k \<Rightarrow> int \<times> memory \<times> 'k" where
  "write_word mprotect page_size target insn = (\<lambda>(m, k).
     let page = target AND NOT (page_size - 1)
     in case mprotect page page_size PROT_READ_WRITE_EXEC k of
       (c, k1) \<Rightarrow>
         if c \<noteq> 0 then (-1, m, k1)
         else (0, wr32 m target insn, snd (mprotect page page_size PROT_READ_EXEC k1)))"

fun write_all ::
  "(u64 \<Rightarrow> u64 \<Rightarrow> u32 \<Rightarrow> 'k \<Rightarrow> int \<times> 'k) \<Rightarrow> u64 \<Rightarrow> (u64 \<times> u32) list \<Rightarrow> nat \<Rightarrow> memory \<times> 'k \<Rightarrow>
     (patch_error + nat) \<times> memory \<times> 'k" where
  "write_all mprotect page_size [] applied w = (Inr applied, w)"
| "write_all mprotect page_size ((a, i) # ps) applied w =
     (case write_word mprotect page_size a i w of
        (c, w1) \<Rightarrow> if c \<noteq> 0 then (Inl Write_Failed, w1) else write_all mprotect page_size ps (Suc applied) w1)"

text \<open>The content of the file, if it can be opened; the code returns -1 for every error.\<close>

definition patcher_apply ::
  "(u64 \<Rightarrow> u64 \<Rightarrow> u32 \<Rightarrow> 'k \<Rightarrow> int \<times> 'k) \<Rightarrow> u64 \<Rightarrow> string option \<Rightarrow> 'r image \<Rightarrow> memory \<times> 'k \<Rightarrow> 'r \<Rightarrow>
     (patch_error + nat) \<times> (memory \<times> 'k) \<times> 'r" where
  "patcher_apply mprotect page_size file im w r =
     (case file of
        None \<Rightarrow> (Inl No_File, w, r)
      | Some content \<Rightarrow>
          (case patch_plan (fst w) im content r of
             (Inl e, rs1) \<Rightarrow> (Inl e, w, rs1)
           | (Inr ps, rs1) \<Rightarrow> (case write_all mprotect page_size ps 0 w of (c, w1) \<Rightarrow> (c, w1, rs1))))"

definition patcher_result :: "patch_error + nat \<Rightarrow> int" where
  "patcher_result c = (case c of Inl e \<Rightarrow> -1 | Inr n \<Rightarrow> int n)"

text \<open>The image as the resolver sees it, with its two caches.\<close>

definition loaded_image ::
  "(int \<Rightarrow> int) option \<Rightarrow> (sym_entry list \<Rightarrow> sym_entry list) \<Rightarrow> memory \<Rightarrow> u64 \<Rightarrow> u64 \<Rightarrow>
     (macho_sym_index list \<times> extent_cache) image" where
  "loaded_image fresh qsort m mh slide =
     \<lparr>have_mh = (mh \<noteq> 0), im_slide = slide,
      lookup_symbol = (\<lambda>name (ix, ec). case resolver_lookup_symbol fresh m mh slide name ix of
        (a, ix') \<Rightarrow> (case a of None \<Rightarrow> 0 | Some a \<Rightarrow> a, ix', ec)),
      symbol_extent = (\<lambda>name (ix, ec). case resolver_symbol_extent qsort m mh slide name ec of
        (x, ec') \<Rightarrow> (x, ix, ec'))\<rparr>"

end
