(* ===== verification/Patcher_Correct.thy ===== *)
theory Patcher_Correct
  imports Patcher
begin

text \<open>
  The patcher is correct: the pattern search returns and decides uniqueness, a failed file leaves the
  program as it was, a successful one writes exactly the planned words, and a patched branch arrives at
  its target.
\<close>

section \<open>The pattern search\<close>

text \<open>The result of the loop when it starts with \<open>r\<close> and meets the hits \<open>hs\<close>.\<close>

definition with_hits :: "nat \<times> u64 \<Rightarrow> u64 list \<Rightarrow> nat \<times> u64" where
  "with_hits r hs =
     (min 2 (fst r + length hs), if fst r = 0 then (case hs of [] \<Rightarrow> snd r | h # _ \<Rightarrow> h) else snd r)"

definition candidates :: "u64 \<Rightarrow> nat \<Rightarrow> u64 list" where
  "candidates a n = map (\<lambda>i. a + 4 * of_nat i) [0..<n]"

lemma candidates_Suc: "candidates a (Suc n) = a # candidates (a + 4) n"
  unfolding candidates_def upt_conv_Cons [OF zero_less_Suc] by (simp add: map_Suc_upt [symmetric] algebra_simps del: upt_Suc)

lemma pattern_loop_hits:
  assumes "\<And>c. c \<in> set (candidates a n) \<Longrightarrow> c + need \<le> fin" and "\<not> a + 4 * of_nat n + need \<le> fin" and "fst r \<le> 1"
  shows "pattern_loop m fin need mvs a r = Some (with_hits r (filter (\<lambda>c. words_match m c mvs) (candidates a n)))"
  using assms
proof (induction n arbitrary: a r)
  case 0
  then show ?case by (cases r) (simp add: pattern_loop.simps candidates_def with_hits_def)
next
  case (Suc n)
  let ?r = "if words_match m a mvs then (Suc (fst r), if fst r = 0 then a else snd r) else r"
  have le: "a + need \<le> fin" using Suc.prems(1) [of a] by (simp add: candidates_Suc)
  have IH: "fst ?r \<le> 1 \<Longrightarrow> pattern_loop m fin need mvs (a + 4) ?r =
      Some (with_hits ?r (filter (\<lambda>c. words_match m c mvs) (candidates (a + 4) n)))"
    using Suc.prems by (intro Suc.IH) (simp_all add: candidates_Suc algebra_simps)
  show ?case
  proof (cases "fst ?r > 1")
    case True
    then have "words_match m a mvs" "fst r = 1" using Suc.prems(3) by (auto split: if_splits)
    then show ?thesis using le True by (simp add: pattern_loop.simps [of _ _ _ _ a] with_hits_def candidates_Suc)
  next
    case False
    then have "pattern_loop m fin need mvs a r = Some (with_hits ?r (filter (\<lambda>c. words_match m c mvs) (candidates (a + 4) n)))"
      using le IH by (simp add: pattern_loop.simps [of _ _ _ _ a] Let_def)
    then show ?thesis by (auto simp: with_hits_def candidates_Suc)
  qed
qed

text \<open>A place where the patterns match, inside the range and at a whole number of words from its start.\<close>

definition pattern_site :: "memory \<Rightarrow> u64 \<Rightarrow> u64 \<Rightarrow> (u32 \<times> u32) list \<Rightarrow> u64 \<Rightarrow> bool" where
  "pattern_site m start fin mvs a \<longleftrightarrow>
     start \<le> a \<and> 4 dvd unat (a - start) \<and> unat a + 4 * length mvs \<le> unat fin \<and> words_match m a mvs"

lemma candidate_unat:
  assumes "unat start + 4 * i < 2 ^ 64" shows "unat (start + 4 * of_nat i :: u64) = unat start + 4 * i"
proof -
  have "(start + 4 * of_nat i :: u64) = of_nat (unat start + 4 * i)" by simp
  then show ?thesis using assms unat_of_nat_eqI by blast
qed

lemma pattern_sites:
  assumes "mvs \<noteq> []" and "unat start + 4 * length mvs \<le> unat fin"
    and "n = Suc ((unat fin - unat start - 4 * length mvs) div 4)"
  shows "set (filter (\<lambda>c. words_match m c mvs) (candidates start n)) = {a. pattern_site m start fin mvs a}"
    and "distinct (candidates start n)"
proof -
  let ?L = "4 * length mvs"
  have fin: "unat fin < 2 ^ 64" using unsigned_less [of fin, where ?'a = nat] by simp
  have in_iff: "i < n \<longleftrightarrow> unat start + 4 * i + ?L \<le> unat fin" for i
  proof -
    have "i < n \<longleftrightarrow> i \<le> (unat fin - unat start - ?L) div 4" using assms(3) by (simp add: less_Suc_eq_le)
    also have "\<dots> \<longleftrightarrow> i * 4 \<le> unat fin - unat start - ?L" by (rule less_eq_div_iff_mult_less_eq) simp
    finally show ?thesis using assms(2) by linarith
  qed
  have un: "i < n \<Longrightarrow> unat (start + 4 * of_nat i :: u64) = unat start + 4 * i" for i
    using in_iff [of i] fin by (intro candidate_unat) simp
  show "set (filter (\<lambda>c. words_match m c mvs) (candidates start n)) = {a. pattern_site m start fin mvs a}"
  proof (intro set_eqI iffI)
    fix a assume "a \<in> set (filter (\<lambda>c. words_match m c mvs) (candidates start n))"
    then obtain i where i: "i < n" "a = start + 4 * of_nat i" "words_match m a mvs" by (auto simp: candidates_def)
    have "start \<le> a" unfolding word_le_nat_alt using un [OF i(1)] i(2) by simp
    moreover have "unat (a - start) = 4 * i"
      using unat_of_nat_eqI [of "a - start" "4 * i"] i(2) in_iff [of i] i(1) fin by simp
    ultimately show "a \<in> {a. pattern_site m start fin mvs a}"
      using i un [OF i(1)] in_iff [of i] by (simp add: pattern_site_def)
  next
    fix a assume "a \<in> {a. pattern_site m start fin mvs a}"
    then have a: "start \<le> a" "4 dvd unat (a - start)" "unat a + ?L \<le> unat fin" "words_match m a mvs"
      by (simp_all add: pattern_site_def)
    then obtain i where i: "unat (a - start) = 4 * i" by (elim dvdE)
    have ua: "unat a = unat start + 4 * i" using i a(1) by (simp add: unat_sub word_le_nat_alt)
    have "a - start = of_nat (4 * i)" unfolding i [symmetric] by simp
    then have "a = start + 4 * of_nat i" by (simp add: algebra_simps)
    moreover have "i < n" using in_iff a(3) ua by simp
    ultimately show "a \<in> set (filter (\<lambda>c. words_match m c mvs) (candidates start n))" using a(4) by (auto simp: candidates_def)
  qed
  have "inj_on (\<lambda>i. start + 4 * of_nat i :: u64) {..<n}"
    using un by (intro inj_onI) (metis add_left_cancel lessThan_iff mult_cancel1 zero_neq_numeral)
  then show "distinct (candidates start n)" by (auto simp: candidates_def distinct_map inj_on_def)
qed

lemma unique_hit:
  assumes "distinct hs"
  shows "with_hits (0, 0) hs = (1, a) \<longleftrightarrow> set hs = {a}"
proof (cases hs)
  case (Cons h t)
  then show ?thesis using assms by (cases t) (auto simp: with_hits_def)
qed (simp add: with_hits_def)

lemma pattern_find_hits:
  assumes "unat fin + 4 < 2 ^ 64" and "0 < length mvs" and "length mvs \<le> LOC_MAX_PATTERNS"
  obtains hs where "pattern_find_unique m start fin mvs = Some (with_hits (0, 0) hs)" and "distinct hs"
    and "set hs = {a. pattern_site m start fin mvs a}"
proof -
  let ?need = "of_nat (length mvs) * 4 :: u64" and ?L = "4 * length mvs"
  have need: "unat ?need = ?L" using assms(3) unat_of_nat_eqI [of ?need ?L] by simp
  show ?thesis
  proof (cases "fin < start \<or> fin - start < ?need")
    case True
    have "\<not> pattern_site m start fin mvs a" for a
    proof
      assume "pattern_site m start fin mvs a"
      then have "unat start \<le> unat a" "unat a + ?L \<le> unat fin" by (simp_all add: pattern_site_def word_le_nat_alt)
      then show False using True need assms(2)
        by (auto simp: word_less_nat_alt unat_sub word_le_nat_alt)
    qed
    then show ?thesis using that [of "[]"] True by (auto simp: pattern_find_unique_def with_hits_def)
  next
    case False
    then have fits: "unat start + ?L \<le> unat fin"
      using need by (auto simp: word_less_nat_alt unat_sub word_le_nat_alt)
    define n where "n = Suc ((unat fin - unat start - ?L) div 4)"
    have "mvs \<noteq> []" using assms(2) by auto
    note sites = pattern_sites [OF this fits n_def]
    have n4: "4 * n \<le> unat fin - unat start - ?L + 4" "unat fin - unat start - ?L < 4 * n" unfolding n_def by simp_all
    have c: "c + ?need \<le> fin" if cc: "c \<in> set (candidates start n)" for c
    proof -
      obtain i where i: "i < n" "c = start + 4 * of_nat i" using cc by (auto simp: candidates_def)
      then have "unat start + 4 * i + ?L \<le> unat fin" using n4(1) fits by linarith
      moreover have "c + ?need = of_nat (unat start + 4 * i + ?L)" using i(2) by simp
      ultimately show ?thesis
        using unat_of_nat_eqI [of "c + ?need" "unat start + 4 * i + ?L"] assms(1) by (simp add: word_le_nat_alt)
    qed
    have "start + 4 * of_nat n + ?need = of_nat (unat start + 4 * n + ?L)" by simp
    then have "unat (start + 4 * of_nat n + ?need) = unat start + 4 * n + ?L"
      using n4(1) fits assms(1) by (intro unat_of_nat_eqI) simp_all
    then have "\<not> start + 4 * of_nat n + ?need \<le> fin" using n4(2) fits by (simp add: word_le_nat_alt)
    from pattern_loop_hits [OF c this, of "(0, 0)" m mvs]
    have "pattern_find_unique m start fin mvs = Some (with_hits (0, 0) (filter (\<lambda>c. words_match m c mvs) (candidates start n)))"
      using False need assms(2) by (auto simp: pattern_find_unique_def Let_def)
    then show ?thesis using that sites by auto
  qed
qed

text \<open>
  C37.  The search for a pattern returns for every range that does not end at the last word of the address
  space, and it reports one hit at \<open>a\<close> exactly when \<open>a\<close> is the only place in the range where the words
  match; it reports none exactly when there is no such place.
\<close>

theorem pattern_find_unique_spec:
  assumes "unat fin + 4 < 2 ^ 64" and "0 < length mvs" and "length mvs \<le> LOC_MAX_PATTERNS"
  shows "\<exists>count hit. pattern_find_unique m start fin mvs = Some (count, hit) \<and>
    (count = 1 \<and> hit = a \<longleftrightarrow> {x. pattern_site m start fin mvs x} = {a}) \<and>
    (count = 0 \<longleftrightarrow> {x. pattern_site m start fin mvs x} = {})"
proof -
  obtain hs where hs: "pattern_find_unique m start fin mvs = Some (with_hits (0, 0) hs)" "distinct hs"
    "set hs = {x. pattern_site m start fin mvs x}" using pattern_find_hits [OF assms] by metis
  have "fst (with_hits (0, 0) hs) = 0 \<longleftrightarrow> hs = []" by (cases hs) (auto simp: with_hits_def)
  then show ?thesis using hs(1) unique_hit [OF hs(2), of a] unfolding hs(3) [symmetric]
    by (cases "with_hits (0, 0) hs") auto
qed

definition pattern_example :: memory where
  "pattern_example = sparse [(0x1004, 3), (0x1005, 0x79), (0x1006, 0x1F), (0x1007, 0x53)]"

theorem pattern_find_unique_spec_witness:
  "{x. pattern_site pattern_example 0x1000 0x100C [(0xFFFFFF00, 0x531F7900)] x} = {0x1004}"
proof -
  have r: "rd32 pattern_example 0x1000 = 0" "rd32 pattern_example 0x1004 = 0x531F7903" "rd32 pattern_example 0x1008 = 0"
    by (simp_all add: pattern_example_def sparse_def rd32_def mem_read_def upt_rec)
  have "pattern_find_unique pattern_example 0x1000 0x100C [(0xFFFFFF00, 0x531F7900)] = Some (1, 0x1004)"
    by (simp add: pattern_find_unique_def pattern_loop.simps r)
  then show ?thesis
    using pattern_find_unique_spec [of "0x100C" "[(0xFFFFFF00, 0x531F7900)]" pattern_example "0x1000" "0x1004"] by simp
qed

section \<open>Writing\<close>

definition apply_words :: "(u64 \<times> u32) list \<Rightarrow> memory \<Rightarrow> memory" where
  "apply_words ps m = fold (\<lambda>(a, i) m. wr32 m a i) ps m"

definition written :: "(u64 \<times> u32) list \<Rightarrow> nat \<Rightarrow> memory \<Rightarrow> patch_error + nat \<Rightarrow> memory \<Rightarrow> bool" where
  "written ps applied m c m' \<longleftrightarrow>
     (c = Inr (applied + length ps) \<and> m' = apply_words ps m) \<or>
     (c = Inl Write_Failed \<and> (\<exists>n < length ps. m' = apply_words (take n ps) m))"

lemma written_Cons: "written ps (Suc applied) (wr32 m a i) c m' \<Longrightarrow> written ((a, i) # ps) applied m c m'"
  unfolding written_def apply_words_def by (auto intro!: exI [of _ "Suc _"])

lemma write_all_words:
  "write_all mprotect page_size ps applied (m, k) = (c, m', k') \<Longrightarrow> written ps applied m c m'"
proof (induction ps arbitrary: applied m k)
  case (Cons p ps)
  obtain a i where p: "p = (a, i)" by (cases p)
  obtain d m1 k1 where w: "write_word mprotect page_size a i (m, k) = (d, m1, k1)" by (metis surj_pair)
  show ?case
  proof (cases "d = 0")
    case True
    then have "m1 = wr32 m a i" using w by (auto simp: write_word_def Let_def split: prod.splits if_splits)
    moreover have "write_all mprotect page_size ps (Suc applied) (m1, k1) = (c, m', k')" using Cons.prems p w True by simp
    ultimately show ?thesis unfolding p using Cons.IH by (intro written_Cons) blast
  next
    case False
    then have "m1 = m" using w by (auto simp: write_word_def Let_def split: prod.splits if_splits)
    then have "c = Inl Write_Failed" "m' = m" using Cons.prems p w False by simp_all
    then show ?thesis by (auto simp: written_def apply_words_def intro!: exI [of _ 0])
  qed
qed (auto simp: written_def apply_words_def)

section \<open>Locations\<close>

text \<open>What a location means, for the addresses and the extents of the symbols.\<close>

definition located ::
  "memory \<Rightarrow> bool \<Rightarrow> u64 \<Rightarrow> (u8 list \<Rightarrow> u64) \<Rightarrow> (u8 list \<Rightarrow> (u64 \<times> u64) option) \<Rightarrow> labels \<Rightarrow> loc_expr \<Rightarrow> patch_error + u64" where
  "located m loaded slide symb ext labels loc =
     (case loc of
        LOC_ABS off \<Rightarrow> Inr (off + slide)
      | LOC_LABEL name off \<Rightarrow> (case find_label labels name of None \<Rightarrow> Inl Unresolved | Some base \<Rightarrow> Inr (base + off))
      | LOC_SYM name off \<Rightarrow>
          if \<not> loaded \<or> symb (bytes_of name) = 0 then Inl Unresolved else Inr (symb (bytes_of name) + off)
      | LOC_SYM_FIND name off mvs within \<Rightarrow>
          if \<not> loaded \<or> symb (bytes_of name) = 0 then Inl Unresolved
          else case ext (bytes_of name) of None \<Rightarrow> Inl Unresolved | Some e \<Rightarrow> resolve_find m e mvs within)"

fun loc_names_ok :: "loc_expr \<Rightarrow> bool" where
  "loc_names_ok (LOC_SYM name off) \<longleftrightarrow> 0 \<notin> set (bytes_of name)"
| "loc_names_ok (LOC_SYM_FIND name off mvs w) \<longleftrightarrow> 0 \<notin> set (bytes_of name)"
| "loc_names_ok (LOC_ABS off) \<longleftrightarrow> True"
| "loc_names_ok (LOC_LABEL name off) \<longleftrightarrow> True"

fun insn_names_ok :: "insn_expr \<Rightarrow> bool" where
  "insn_names_ok (INS_RAW v) \<longleftrightarrow> True"
| "insn_names_ok (INS_B loc) \<longleftrightarrow> loc_names_ok loc"
| "insn_names_ok (INS_BL loc) \<longleftrightarrow> loc_names_ok loc"

fun line_names_ok :: "patch_line \<Rightarrow> bool" where
  "line_names_ok (LINE_AT loc i x) \<longleftrightarrow> loc_names_ok loc \<and> insn_names_ok i"
| "line_names_ok (LINE_LET name loc) \<longleftrightarrow> loc_names_ok loc"

text \<open>
  What the patcher relies on: while the caches of the image are good, the address and the extent of a
  symbol do not depend on them, and they stay good.
\<close>

locale symbol_source =
  fixes im :: "'r image" and good :: "'r \<Rightarrow> bool" and symb :: "u8 list \<Rightarrow> u64"
    and ext :: "u8 list \<Rightarrow> (u64 \<times> u64) option"
  assumes lookup_law: "good s \<Longrightarrow> 0 \<notin> set name \<Longrightarrow> fst (lookup_symbol im name s) = symb name \<and> good (snd (lookup_symbol im name s))"
    and extent_law: "good s \<Longrightarrow> 0 \<notin> set name \<Longrightarrow> fst (symbol_extent im name s) = ext name \<and> good (snd (symbol_extent im name s))"
begin

lemma resolve_loc_located:
  assumes "good s" and "loc_names_ok loc"
  shows "fst (resolve_loc m im labels loc s) = located m (have_mh im) (im_slide im) symb ext labels loc"
    and "good (snd (resolve_loc m im labels loc s))"
proof -
  have "fst (resolve_loc m im labels loc s) = located m (have_mh im) (im_slide im) symb ext labels loc
      \<and> good (snd (resolve_loc m im labels loc s))"
  proof (cases loc)
    case (LOC_SYM_FIND name off mvs w)
    let ?s1 = "snd (lookup_symbol im (bytes_of name) s)"
    note l = lookup_law [OF assms(1), of "bytes_of name"]
    have "good ?s1" using l assms(2) LOC_SYM_FIND by simp
    note x = extent_law [OF this, of "bytes_of name"]
    show ?thesis using LOC_SYM_FIND assms l x
      by (auto simp: resolve_loc_def located_def split_beta split: option.splits)
  qed (use assms lookup_law in \<open>auto simp: resolve_loc_def located_def split_beta\<close>)
  then show "fst (resolve_loc m im labels loc s) = located m (have_mh im) (im_slide im) symb ext labels loc"
    "good (snd (resolve_loc m im labels loc s))" by blast+
qed

lemma resolve_labels_good:
  assumes "list_all line_names_ok ls" and "good s" shows "good (snd (resolve_labels m im ls labels s))"
  using assms
proof (induction ls arbitrary: labels s)
  case (Cons l ls)
  show ?case
  proof (cases l)
    case (LINE_LET name loc)
    obtain x s1 where r: "resolve_loc m im labels loc s = (x, s1)" by (metis surj_pair)
    have "good s1" using resolve_loc_located(2) [OF Cons.prems(2), of loc m labels] Cons.prems(1) LINE_LET r by simp
    then show ?thesis using Cons r LINE_LET by (cases x) simp_all
  next
    case (LINE_AT loc i x)
    then show ?thesis using Cons by simp
  qed
qed simp

lemma resolve_targets_lines:
  assumes "resolve_targets m im labels ls s = (Inr ts, s')" and "list_all line_names_ok ls" and "good s"
  shows "good s' \<and> (\<forall>(addr, i, x) \<in> set ts. insn_names_ok i) \<and>
    (\<forall>loc i x. LINE_AT loc i x \<in> set ls \<longrightarrow>
       (\<exists>addr. (addr, i, x) \<in> set ts \<and> located m (have_mh im) (im_slide im) symb ext labels loc = Inr addr))"
  using assms
proof (induction ls arbitrary: s ts)
  case (Cons l ls)
  show ?case
  proof (cases l)
    case (LINE_AT loc i x)
    then obtain addr s1 ts1 where r: "resolve_loc m im labels loc s = (Inr addr, s1)"
      "resolve_targets m im labels ls s1 = (Inr ts1, s')" "ts = (addr, i, x) # ts1"
      using Cons.prems(1) by (auto split: prod.splits sum.splits)
    have ok: "loc_names_ok loc" "insn_names_ok i" "list_all line_names_ok ls" using Cons.prems(2) LINE_AT by simp_all
    have "located m (have_mh im) (im_slide im) symb ext labels loc = Inr addr" "good s1"
      using resolve_loc_located [OF Cons.prems(3) ok(1), of m labels] r(1) by simp_all
    then show ?thesis using Cons.IH [OF r(2) ok(3)] ok(2) r(3) LINE_AT by auto blast
  next
    case (LINE_LET name loc)
    then show ?thesis using Cons by simp
  qed
qed simp

lemma encode_insn_branch:
  assumes "encode_insn m im labels addr (INS_B tloc) s = (Inr w, s')" and "good s" and "loc_names_ok tloc"
  shows "\<exists>tgt. located m (have_mh im) (im_slide im) symb ext labels tloc = Inr tgt \<and> branch_insn False addr tgt = Inr w"
  using assms(1) resolve_loc_located(1) [OF assms(2,3), of m labels]
  by (auto simp: encode_insn_def split: prod.splits sum.splits)

lemma encode_insn_good:
  assumes "insn_names_ok i" and "good s" shows "good (snd (encode_insn m im labels addr i s))"
proof -
  have "good (snd (case resolve_loc m im labels loc s of (Inl e, s1) \<Rightarrow> (Inl e, s1) | (Inr tgt, s1) \<Rightarrow> (f tgt, s1)))"
    if "loc_names_ok loc" for loc and f :: "u64 \<Rightarrow> patch_error + u32"
    using resolve_loc_located(2) [OF assms(2) that, of m labels] by (auto split: prod.splits sum.splits)
  then show ?thesis using assms by (cases i) (auto simp: encode_insn_def)
qed

lemma encode_all_lines:
  assumes "encode_all m im labels ts s = (Inr ps, s')" and "good s" and "\<forall>(addr, i, x) \<in> set ts. insn_names_ok i"
    and "(addr, i, x) \<in> set ts"
  shows "\<exists>w s1 s2. (addr, w) \<in> set ps \<and> (\<forall>v. x = Some v \<longrightarrow> rd32 m addr = v) \<and> good s1 \<and>
    encode_insn m im labels addr i s1 = (Inr w, s2)"
  using assms
proof (induction ts arbitrary: s ps)
  case (Cons t ts)
  obtain a j y where t: "t = (a, j, y)" by (cases t)
  obtain w s1 where e: "encode_insn m im labels a j s = (Inr w, s1)"
    using Cons.prems(1) t by (auto split: prod.splits sum.splits)
  then obtain ps1 where p: "encode_all m im labels ts s1 = (Inr ps1, s')" "ps = (a, w) # ps1" "y \<noteq> None \<longrightarrow> rd32 m a = the y"
    using Cons.prems(1) t by (auto split: prod.splits sum.splits if_splits)
  have g: "good s1" using encode_insn_good [OF _ Cons.prems(2), of j m labels a] e Cons.prems(3) t by simp
  show ?case
  proof (cases "(addr, i, x) = t")
    case True
    then show ?thesis using p e t Cons.prems(2) by (intro exI [of _ w] exI [of _ s] exI [of _ s1]) auto
  next
    case False
    then have "(addr, i, x) \<in> set ts" using Cons.prems(4) by auto
    from Cons.IH [OF p(1) g _ this] Cons.prems(3) obtain w' u1 u2 where
      "(addr, w') \<in> set ps1" "\<forall>v. x = Some v \<longrightarrow> rd32 m addr = v" "good u1" "encode_insn m im labels addr i u1 = (Inr w', u2)" by auto
    then show ?thesis using p(2) by (intro exI [of _ w'] exI [of _ u1] exI [of _ u2]) auto
  qed
qed simp

lemma plan_line:
  assumes "patch_plan m im content s = (Inr ps, s')" and "good s" and "parse_file content = Inr ls"
    and "list_all line_names_ok ls" and "resolve_labels m im ls (register_labels ls) s = (Inr labels, s0)"
    and "LINE_AT loc i x \<in> set ls"
  shows "\<exists>addr w s1 s2. (addr, w) \<in> set ps \<and> located m (have_mh im) (im_slide im) symb ext labels loc = Inr addr \<and>
    (\<forall>v. x = Some v \<longrightarrow> rd32 m addr = v) \<and> good s1 \<and> encode_insn m im labels addr i s1 = (Inr w, s2)"
proof -
  obtain ts s3 where t: "resolve_targets m im labels ls s0 = (Inr ts, s3)" and e: "encode_all m im labels ts s3 = (Inr ps, s')"
    using assms(1,3,5) by (auto simp: patch_plan_def split: prod.splits sum.splits)
  have "good s0" using resolve_labels_good [OF assms(4,2), of m "register_labels ls"] assms(5) by simp
  note r = resolve_targets_lines [OF t assms(4) this]
  obtain addr where a: "(addr, i, x) \<in> set ts" "located m (have_mh im) (im_slide im) symb ext labels loc = Inr addr"
    using r assms(6) by blast
  from encode_all_lines [OF e _ _ a(1)] r a(2) show ?thesis by blast
qed

end

section \<open>The loaded image is such a source\<close>

definition image_symb :: "memory \<Rightarrow> u64 \<Rightarrow> u64 \<Rightarrow> u8 list \<Rightarrow> u64" where
  "image_symb m mh slide name =
     (case locate_symtab m mh slide of
        None \<Rightarrow> 0
      | Some l \<Rightarrow> (case last_named m l name of None \<Rightarrow> 0 | Some nl \<Rightarrow> n_value nl + slide))"

definition image_ext ::
  "(sym_entry list \<Rightarrow> sym_entry list) \<Rightarrow> memory \<Rightarrow> u64 \<Rightarrow> u64 \<Rightarrow> u8 list \<Rightarrow> (u64 \<times> u64) option" where
  "image_ext qsort m mh slide name = fst (resolver_symbol_extent qsort m mh slide name extent_cache_init)"

definition caches_good ::
  "(sym_entry list \<Rightarrow> sym_entry list) \<Rightarrow> memory \<Rightarrow> u64 \<Rightarrow> u64 \<Rightarrow> macho_sym_index list \<times> extent_cache \<Rightarrow> bool" where
  "caches_good qsort m mh slide s \<longleftrightarrow>
     (\<exists>l. locate_symtab m mh slide = Some l \<and> loc_nsyms l < 2 ^ 31 \<and> strings_end m l) \<and>
     (\<exists>slides. slides mh = slide \<and> cache_ok m slides (fst s) \<and> extents_ok qsort m slides (snd s))"

lemma loaded_lookup:
  assumes "caches_good qsort m mh slide s" and "0 \<notin> set name"
  shows "fst (lookup_symbol (loaded_image (Some c0) qsort m mh slide) name s) = image_symb m mh slide name
    \<and> caches_good qsort m mh slide (snd (lookup_symbol (loaded_image (Some c0) qsort m mh slide) name s))"
proof -
  obtain ix ec where s: "s = (ix, ec)" by (cases s)
  obtain l slides where l: "locate_symtab m mh slide = Some l" "loc_nsyms l < 2 ^ 31" "strings_end m l"
    and c: "slides mh = slide" "cache_ok m slides ix" "extents_ok qsort m slides ec"
    using assms(1) by (auto simp: caches_good_def s)
  obtain r ix' where e: "lookup_macho_symbol_result (Some c0) m mh slide name ix = (r, ix')" by (metis surj_pair)
  note k = lookup_indexed [OF c(2,1) l assms(2) e]
  show ?thesis using k l c
    by (auto simp: loaded_image_def s resolver_lookup_symbol_def lookup_macho_symbol_def e image_symb_def symbol_result_def
        caches_good_def split: option.splits)
qed

lemma loaded_extent:
  assumes "caches_good qsort m mh slide s"
  shows "fst (symbol_extent (loaded_image fresh qsort m mh slide) name s) = image_ext qsort m mh slide name
    \<and> caches_good qsort m mh slide (snd (symbol_extent (loaded_image fresh qsort m mh slide) name s))"
proof -
  obtain ix ec where s: "s = (ix, ec)" by (cases s)
  obtain slides where c: "slides mh = slide" "cache_ok m slides ix" "extents_ok qsort m slides ec"
    using assms by (auto simp: caches_good_def s)
  obtain r ec' where b: "build_extent_cache qsort m mh (slides mh) ec = (r, ec')" by (metis surj_pair)
  have init: "build_extent_cache qsort m mh slide extent_cache_init = (r, ec')" using build_extents_init [OF c(3) b] c(1) by simp
  have "extents_ok qsort m slides ec'" using build_extents_ok(1) [OF c(3) b] .
  moreover have "build_extent_cache qsort m mh slide ec = (r, ec')" using b c(1) by simp
  ultimately show ?thesis using init assms c(1,2)
    by (auto simp: loaded_image_def s resolver_symbol_extent_def image_ext_def caches_good_def)
qed

interpretation loaded: symbol_source "loaded_image (Some c0) qsort m mh slide" "caches_good qsort m mh slide"
  "image_symb m mh slide" "image_ext qsort m mh slide" for c0 qsort m mh slide
  by unfold_locales (rule loaded_lookup loaded_extent, assumption+)+

section \<open>The whole patcher\<close>

lemma parse_file_error: "parse_file f = Inl e \<Longrightarrow> e = Bad_Syntax"
proof (induction f rule: parse_file.induct)
  case (1 f)
  have "parse_line l = Inl e' \<Longrightarrow> e' = Bad_Syntax" for l e'
    by (auto simp: parse_line_def Let_def split: if_splits option.splits)
  then show ?case using 1 by (subst (asm) (2) parse_file.simps) (auto split: if_splits sum.splits)
qed

lemma resolve_loc_error: "resolve_loc m im labels loc s = (Inl e, s') \<Longrightarrow> e \<noteq> Write_Failed"
  by (auto simp: resolve_loc_def resolve_find_def Let_def split: loc_expr.splits option.splits prod.splits if_splits)

lemma resolve_labels_error: "resolve_labels m im ls labels s = (Inl e, s') \<Longrightarrow> e \<noteq> Write_Failed"
  by (induction m im ls labels s rule: resolve_labels.induct)
    (auto split: prod.splits sum.splits dest: resolve_loc_error)

lemma resolve_targets_error: "resolve_targets m im labels ls s = (Inl e, s') \<Longrightarrow> e \<noteq> Write_Failed"
  by (induction m im labels ls s rule: resolve_targets.induct)
    (auto split: prod.splits sum.splits dest: resolve_loc_error)

lemma encode_insn_error: "encode_insn m im labels addr i s = (Inl e, s') \<Longrightarrow> e \<noteq> Write_Failed"
  by (auto simp: encode_insn_def branch_insn_def Let_def split: insn_expr.splits prod.splits sum.splits if_splits
      dest: resolve_loc_error)

lemma encode_all_error: "encode_all m im labels ts s = (Inl e, s') \<Longrightarrow> e \<noteq> Write_Failed"
  by (induction m im labels ts s rule: encode_all.induct)
    (auto split: prod.splits sum.splits if_splits dest: encode_insn_error)

lemma patch_plan_error:
  assumes "patch_plan m im content s = (Inl e, s')" shows "e \<noteq> Write_Failed"
  using assms
  by (auto simp: patch_plan_def split: prod.splits sum.splits
      dest: parse_file_error resolve_labels_error resolve_targets_error encode_all_error)


text \<open>
  The image \<open>two_symbols\<close> with an instruction to expect at \<open>_f\<close>, and a file that turns it into a branch to
  \<open>_g\<close>.
\<close>

definition branch_file :: string where
  "branch_file = ''at sym:_f b sym:_g''"

abbreviation (input) two_image :: "(macho_sym_index list \<times> extent_cache) image" where
  "two_image \<equiv> loaded_image (Some (\<lambda>_. 0)) (sort_key e_vmaddr) two_symbols 0x10000 0"

lemma branch_file_parsed:
  "parse_file branch_file = Inr [LINE_AT (LOC_SYM ''_f'' 0) (INS_B (LOC_SYM ''_g'' 0)) None]"
  by code_simp

lemma two_symbols_good: "caches_good (sort_key e_vmaddr) two_symbols 0x10000 0 ([], extent_cache_init)"
  unfolding caches_good_def
proof (intro conjI exI)
  show "locate_symtab two_symbols 0x10000 0 = Some two_located" by (rule two_symbols_located)
  show "loc_nsyms two_located < 2 ^ 31" by (simp add: two_located_def word_less_nat_alt)
  show "strings_end two_symbols two_located" by (rule two_symbols_end)
  show "(\<lambda>_. 0) 0x10000 = (0 :: u64)" by simp
qed (simp_all add: cache_ok_def extents_ok_def extent_cache_init_def)

lemma two_symbols_symb:
  "image_symb two_symbols 0x10000 0 (bytes_of ''_f'') = 0x10800" "image_symb two_symbols 0x10000 0 (bytes_of ''_g'') = 0x10840"
  by (simp_all add: image_symb_def two_symbols_located two_symbols_named two_symbols_keys bytes_of_def)

lemma branch_file_names: "line_names_ok (LINE_AT (LOC_SYM ''_f'' 0) (INS_B (LOC_SYM ''_g'' 0)) None)"
  by (simp add: bytes_of_def)

lemma branch_file_located:
  "located two_symbols True 0 (image_symb two_symbols 0x10000 0) x labels (LOC_SYM ''_f'' 0) = Inr 0x10800"
  "located two_symbols True 0 (image_symb two_symbols 0x10000 0) x labels (LOC_SYM ''_g'' 0) = Inr 0x10840"
  by (simp_all add: located_def two_symbols_symb)

lemma branch_file_plan:
  "fst (patch_plan two_symbols two_image branch_file ([], extent_cache_init)) = Inr [(0x10800, gate_branch 0x10800 0x10840)]"
proof -
  have im: "have_mh two_image" "im_slide two_image = 0" by (simp_all add: loaded_image_def)
  have names: "loc_names_ok (LOC_SYM ''_f'' 0)" "loc_names_ok (LOC_SYM ''_g'' 0)" by (simp_all add: bytes_of_def)
  have res: "fst (resolve_loc two_symbols two_image [] loc s) =
      located two_symbols True 0 (image_symb two_symbols 0x10000 0) (image_ext (sort_key e_vmaddr) two_symbols 0x10000 0) [] loc"
    "caches_good (sort_key e_vmaddr) two_symbols 0x10000 0 (snd (resolve_loc two_symbols two_image [] loc s))"
    if "caches_good (sort_key e_vmaddr) two_symbols 0x10000 0 s" "loc_names_ok loc" for s loc
    using loaded.resolve_loc_located(1) [OF that, where labels = "[]"] loaded.resolve_loc_located(2) [OF that] im by simp_all
  obtain s1 where s1: "resolve_loc two_symbols two_image [] (LOC_SYM ''_f'' 0) ([], extent_cache_init) = (Inr 0x10800, s1)"
    "caches_good (sort_key e_vmaddr) two_symbols 0x10000 0 s1"
    using res [OF two_symbols_good names(1)] branch_file_located(1) by (metis prod.collapse)
  obtain s2 where s2: "resolve_loc two_symbols two_image [] (LOC_SYM ''_g'' 0) s1 = (Inr 0x10840, s2)"
    using res(1) [OF s1(2) names(2)] branch_file_located(2) by (metis prod.collapse)
  have "arm64_branch_in_range 0x40" by (simp add: arm64_branch_in_range_def)
  then show ?thesis
    by (simp add: patch_plan_def branch_file_parsed register_labels_def s1 s2 encode_insn_def branch_insn_def gate_branch_def)
qed

lemma branch_file_applied:
  "\<exists>s'. patcher_apply (\<lambda>_ _ _ k. (0, k)) 4096 (Some branch_file) two_image (two_symbols, ()) ([], extent_cache_init)
     = (Inr 1, (wr32 two_symbols 0x10800 (gate_branch 0x10800 0x10840), ()), s')"
proof -
  obtain s1 where "patch_plan two_symbols two_image branch_file ([], extent_cache_init)
      = (Inr [(0x10800, gate_branch 0x10800 0x10840)], s1)"
    using branch_file_plan by (metis prod.collapse)
  then show ?thesis by (simp add: patcher_apply_def write_word_def)
qed


text \<open>A program whose patches do not overlap has each planned word where it was planned.\<close>

definition patches_apart :: "(u64 \<times> u32) list \<Rightarrow> bool" where
  "patches_apart ps \<longleftrightarrow> sorted_wrt (\<lambda>p q. apart (fst p) 4 (fst q) 4) ps"

lemma apply_words_outside:
  "(\<And>p. p \<in> set ps \<Longrightarrow> apart a 4 (fst p) 4) \<Longrightarrow> rd32 (apply_words ps m) a = rd32 m a"
proof (induction ps arbitrary: m)
  case (Cons p ps)
  have "rd32 (apply_words ps (wr32 m (fst p) (snd p))) a = rd32 (wr32 m (fst p) (snd p)) a" using Cons by simp
  also have "\<dots> = rd32 m a" using Cons.prems [of p] by (simp add: rd32_wr32_apart)
  finally show ?case by (simp add: apply_words_def split_beta)
qed (simp add: apply_words_def)

lemma apply_words_at:
  "patches_apart ps \<Longrightarrow> (a, w) \<in> set ps \<Longrightarrow> rd32 (apply_words ps m) a = w"
proof (induction ps arbitrary: m)
  case (Cons p ps)
  obtain b v where p: "p = (b, v)" by (cases p)
  have ap: "patches_apart ps" "\<And>q. q \<in> set ps \<Longrightarrow> apart b 4 (fst q) 4" using Cons.prems(1) p by (auto simp: patches_apart_def)
  have step: "apply_words (p # ps) m = apply_words ps (wr32 m b v)" by (simp add: apply_words_def p)
  consider "a = b" "w = v" | "(a, w) \<in> set ps" using Cons.prems(2) p by auto
  then show ?case
    unfolding step using Cons.IH [OF ap(1)] apply_words_outside [of ps b] ap(2) by cases simp_all
qed simp

text \<open>
  C39.  After a successful run of the patcher on an image, a thread that comes to the address of a line
  \<open>at ... b ...\<close> goes on at the address the target of the line stands for: a symbol of the image with an
  offset, the one place of a pattern, a label, or an absolute address.
\<close>

theorem patched_branch_runs:
  assumes "patcher_apply mprotect page_size (Some content) (loaded_image (Some c0) qsort m mh slide) (m, k) s
      = (Inr n, (m', k'), s')"
    and "caches_good qsort m mh slide s" and "parse_file content = Inr ls" and "list_all line_names_ok ls"
    and "resolve_labels m (loaded_image (Some c0) qsort m mh slide) ls (register_labels ls) s = (Inr labels, s0)"
    and "fst (patch_plan m (loaded_image (Some c0) qsort m mh slide) content s) = Inr ps" and "patches_apart ps"
    and "LINE_AT loc (INS_B tloc) x \<in> set ls"
    and "located m (mh \<noteq> 0) slide (image_symb m mh slide) (image_ext qsort m mh slide) labels loc = Inr (pc cpu)"
    and "mem cpu = m'"
  shows "\<exists>tgt. located m (mh \<noteq> 0) slide (image_symb m mh slide) (image_ext qsort m mh slide) labels tloc = Inr tgt \<and>
    reaches (rd32 m') cpu (cpu\<lparr>pc := tgt\<rparr>)"
proof -
  let ?im = "loaded_image (Some c0) qsort m mh slide"
  have im: "have_mh ?im = (mh \<noteq> 0)" "im_slide ?im = slide" by (simp_all add: loaded_image_def)
  obtain s1 where p: "patch_plan m ?im content s = (Inr ps, s1)" using assms(6) by (metis prod.collapse)
  obtain w u v where w: "(pc cpu, w) \<in> set ps" "caches_good qsort m mh slide u"
    "encode_insn m ?im labels (pc cpu) (INS_B tloc) u = (Inr w, v)"
    using loaded.plan_line [OF p assms(2-5,8)] assms(9) unfolding im by auto
  have "loc_names_ok tloc" using assms(4,8) by (auto simp: list_all_iff dest: bspec)
  from loaded.encode_insn_branch [OF w(3,2) this] obtain tgt
    where t: "located m (mh \<noteq> 0) slide (image_symb m mh slide) (image_ext qsort m mh slide) labels tloc = Inr tgt"
      "branch_insn False (pc cpu) tgt = Inr w" unfolding im by blast
  have "arm64_branch_in_range (tgt - pc cpu)" "w = gate_branch (pc cpu) tgt"
    using t(2) by (auto simp: branch_insn_def Let_def gate_branch_def split: if_splits)
  then have d: "decode w = Some (B (tgt - pc cpu))" using decode_gate_branch by simp
  have "written ps 0 m (Inr n) m'"
    using assms(1) p by (auto simp: patcher_apply_def split: prod.splits dest!: write_all_words)
  then have "rd32 m' (pc cpu) = w" using apply_words_at [OF assms(7) w(1)] by (simp add: written_def)
  then have "reaches (rd32 m') cpu (exec (B (tgt - pc cpu)) cpu)" using d by (intro reaches_step) simp
  then show ?thesis using t(1) by auto
qed

definition branch_cpu :: cpu where
  "branch_cpu =
     \<lparr>xreg = (\<lambda>_. 0), vreg = (\<lambda>_. 0), sp = 0, pc = 0x10800, nzcv = 0,
      mem = wr32 two_symbols 0x10800 (gate_branch 0x10800 0x10840), excl = None, interference = []\<rparr>"

theorem patched_branch_runs_witness: "reaches (rd32 (mem branch_cpu)) branch_cpu (branch_cpu\<lparr>pc := 0x10840\<rparr>)"
proof -
  let ?l = "LINE_AT (LOC_SYM ''_f'' 0) (INS_B (LOC_SYM ''_g'' 0)) None"
  obtain s' where a: "patcher_apply (\<lambda>_ _ _ k. (0, k)) 4096 (Some branch_file) two_image (two_symbols, ()) ([], extent_cache_init)
     = (Inr 1, (wr32 two_symbols 0x10800 (gate_branch 0x10800 0x10840), ()), s')"
    using branch_file_applied by blast
  have lb: "resolve_labels two_symbols two_image [?l] (register_labels [?l]) ([], extent_cache_init) = (Inr [], ([], extent_cache_init))"
    by (simp add: register_labels_def)
  have names: "list_all line_names_ok [?l]" using branch_file_names by simp
  have ap: "patches_apart [(0x10800, gate_branch 0x10800 0x10840)]" by (simp add: patches_apart_def)
  have at_f: "located two_symbols (0x10000 \<noteq> (0 :: u64)) 0 (image_symb two_symbols 0x10000 0)
      (image_ext (sort_key e_vmaddr) two_symbols 0x10000 0) [] (LOC_SYM ''_f'' 0) = Inr (pc branch_cpu)"
    using branch_file_located(1) by (simp add: branch_cpu_def)
  show ?thesis
    using patched_branch_runs [OF a two_symbols_good branch_file_parsed names lb branch_file_plan ap _ at_f] branch_file_located(2)
    by (simp add: branch_cpu_def)
qed

text \<open>
  The grammar of \<open>patcher.h\<close> allows any instruction after a location.  After a location with \<open>find\<close> a
  branch or an instruction in hexadecimal is read as one more pattern, and the line is refused.
\<close>

lemma find_then_branch_refused:
  "parse_line ''at sym:_f find 531F79?? b sym:_g'' = Inl Bad_Syntax"
  "parse_line ''at sym:_f find 531F79?? D503201F'' = Inl Bad_Syntax"
  by code_simp+

end
