(* ===== verification/Bind_Slots.thy ===== *)
theory Bind_Slots
  imports Prelude Hash_Chains
begin

text \<open>
  The registry of bound slots in \<open>resolver.c\<close>: a table of at most 32768 entries with a hash index over
  the addresses of the slots, and that a registered slot is found again.
\<close>

section \<open>The registry\<close>

abbreviation (input) BIND_SLOT_REGISTRY_MAX :: nat where "BIND_SLOT_REGISTRY_MAX \<equiv> 32768"
abbreviation (input) BIND_SLOT_HASH_BUCKETS :: u32 where "BIND_SLOT_HASH_BUCKETS \<equiv> 65536"

text \<open>The strings of an entry are pointers, which the registry only keeps.\<close>

record resolver_bind_slot_info =
  slot_addr :: u64
  slot_resolved :: u64
  context_ptr :: u64
  sym_name_ptr :: u64
  lookup_name_ptr :: u64
  dylib_name_ptr :: u64
  source_kind_ptr :: u64
  source_path_ptr :: u64

record bind_registry =
  entries :: "resolver_bind_slot_info list"
  hash_next :: "int \<Rightarrow> int"
  hash_slot :: "u32 \<Rightarrow> int"
  hash_initialized :: bool

definition slot_addr_hash :: "u64 \<Rightarrow> u32" where
  "slot_addr_hash addr =
     (let hash = addr;
          hash = hash XOR drop_bit 33 hash;
          hash = hash * 0xFF51AFD7ED558CCD;
          hash = hash XOR drop_bit 33 hash
      in ucast hash AND (BIND_SLOT_HASH_BUCKETS - 1))"

fun rebuild_from :: "resolver_bind_slot_info list \<Rightarrow> nat \<Rightarrow> (u32 \<Rightarrow> int) \<times> (int \<Rightarrow> int) \<Rightarrow> (u32 \<Rightarrow> int) \<times> (int \<Rightarrow> int)" where
  "rebuild_from es 0 h = h"
| "rebuild_from es (Suc i) h =
     (case rebuild_from es i h of
        (b, c) \<Rightarrow> let bucket = slot_addr_hash (slot_addr (es ! i)) in (b(bucket := int i), c(int i := b bucket)))"

definition bind_slot_hash_rebuild :: "bind_registry \<Rightarrow> bind_registry" where
  "bind_slot_hash_rebuild r =
     (case rebuild_from (entries r) (length (entries r)) (\<lambda>_. -1, hash_next r) of
        (b, c) \<Rightarrow> r\<lparr>hash_slot := b, hash_next := c\<rparr>)"

text \<open>The index of the entry, -1 for a null pointer; \<open>None\<close> when the search does not return.\<close>

definition bind_slot_find :: "u64 \<Rightarrow> bind_registry \<Rightarrow> int option \<times> bind_registry" where
  "bind_slot_find addr r =
     (let r1 = (if hash_initialized r then r else bind_slot_hash_rebuild (r\<lparr>hash_initialized := True\<rparr>))
      in (chain_find (hash_next r1) (\<lambda>i. slot_addr (entries r1 ! nat i) = addr) (hash_slot r1 (slot_addr_hash addr)), r1))"

definition register_bind_slot :: "resolver_bind_slot_info \<Rightarrow> bind_registry \<Rightarrow> bind_registry option" where
  "register_bind_slot info r =
     (if slot_addr info = 0 then Some r
      else case bind_slot_find (slot_addr info) r of
        (None, _) \<Rightarrow> None
      | (Some i, r1) \<Rightarrow>
          if i \<ge> 0 then Some (r1\<lparr>entries := (entries r1)[nat i := info]\<rparr>)
          else if length (entries r1) \<ge> BIND_SLOT_REGISTRY_MAX then Some r1
          else let n = length (entries r1); bucket = slot_addr_hash (slot_addr info)
            in Some (r1\<lparr>entries := entries r1 @ [info], hash_next := (hash_next r1)(int n := hash_slot r1 bucket),
                        hash_slot := (hash_slot r1)(bucket := int n)\<rparr>))"

definition resolver_lookup_bind_slot :: "u64 \<Rightarrow> bind_registry \<Rightarrow> resolver_bind_slot_info option option \<times> bind_registry" where
  "resolver_lookup_bind_slot addr r =
     (if addr = 0 then (Some None, r)
      else case bind_slot_find addr r of
        (x, r1) \<Rightarrow> (map_option (\<lambda>i. if i \<ge> 0 then Some (entries r1 ! nat i) else None) x, r1))"

section \<open>Correctness\<close>

definition slot_key :: "resolver_bind_slot_info list \<Rightarrow> nat \<Rightarrow> u64 option" where
  "slot_key es i = (if i < length es then Some (slot_addr (es ! i)) else None)"

definition registry_ok :: "bind_registry \<Rightarrow> bool" where
  "registry_ok r \<longleftrightarrow>
     distinct (map slot_addr (entries r)) \<and> length (entries r) \<le> BIND_SLOT_REGISTRY_MAX \<and>
     (hash_initialized r \<longrightarrow> chain_ok slot_addr_hash (slot_key (entries r)) (length (entries r)) (hash_slot r) (hash_next r))"

lemma chain_ok_cong:
  assumes "\<And>i. i < n \<Longrightarrow> key i = key' i" shows "chain_ok hash key n b c = chain_ok hash key' n b c"
proof -
  have bk: "i < n \<Longrightarrow> in_bucket hash key x i = in_bucket hash key' x i" for i x using assms by (simp add: in_bucket_def)
  have "i \<le> n \<Longrightarrow> last_index (in_bucket hash key x) i = last_index (in_bucket hash key' x) i" for i x
    using bk by (intro last_index_cong) simp
  then show ?thesis using bk by (simp add: chain_ok_def)
qed

lemma rebuild_from_ok:
  "n \<le> length es \<Longrightarrow> rebuild_from es n (\<lambda>_. -1, c0) = (b, c) \<Longrightarrow> chain_ok slot_addr_hash (slot_key es) n b c"
proof (induction n arbitrary: b c)
  case (Suc n)
  obtain b0 c1 where s: "rebuild_from es n (\<lambda>_. -1, c0) = (b0, c1)" by (metis surj_pair)
  have k: "slot_key es n = Some (slot_addr (es ! n))" using Suc.prems(1) by (simp add: slot_key_def)
  have "chain_ok slot_addr_hash (slot_key es) n b0 c1" using Suc.IH [OF _ s] Suc.prems(1) by simp
  from chain_ok_enter [where key = "slot_key es", OF this k] show ?case
    using Suc.prems(2) s by (auto simp: Let_def)
qed (auto simp: chain_ok_empty)

lemma bind_slot_find_ok:
  assumes ok: "registry_ok r" and eq: "bind_slot_find addr r = (x, r1)"
  shows "registry_ok r1" and "hash_initialized r1" and "entries r1 = entries r"
    and "x = Some (last_index (\<lambda>i. slot_key (entries r) i = Some addr) (length (entries r)))"
proof -
  obtain b c where bc: "rebuild_from (entries r) (length (entries r)) (\<lambda>_. -1, hash_next r) = (b, c)" by (metis surj_pair)
  have r1: "r1 = (if hash_initialized r then r else bind_slot_hash_rebuild (r\<lparr>hash_initialized := True\<rparr>))"
    and x: "x = chain_find (hash_next r1) (\<lambda>i. slot_addr (entries r1 ! nat i) = addr) (hash_slot r1 (slot_addr_hash addr))"
    using eq by (auto simp: bind_slot_find_def Let_def)
  have k: "chain_ok slot_addr_hash (slot_key (entries r)) (length (entries r)) (hash_slot r1) (hash_next r1) \<and>
      hash_initialized r1 \<and> entries r1 = entries r"
    using ok rebuild_from_ok [OF order_refl bc] by (simp add: r1 registry_ok_def bind_slot_hash_rebuild_def bc)
  then show "registry_ok r1" "hash_initialized r1" "entries r1 = entries r" using ok by (simp_all add: registry_ok_def)
  show "x = Some (last_index (\<lambda>i. slot_key (entries r) i = Some addr) (length (entries r)))"
    unfolding x using k(1)
    by (intro chain_find_last [OF conjunct1 [OF k]]) (simp add: slot_key_def)
qed

lemma registry_find:
  assumes "registry_ok r" and "i < length (entries r)" and "slot_addr (entries r ! i) = addr"
  shows "fst (bind_slot_find addr r) = Some (int i)"
proof -
  obtain x r1 where f: "bind_slot_find addr r = (x, r1)" by (metis surj_pair)
  have d: "distinct (map slot_addr (entries r))" using assms(1) by (simp add: registry_ok_def)
  have "last_index (\<lambda>i. slot_key (entries r) i = Some addr) (length (entries r)) = int i"
  proof (cases rule: last_index_cases [of "\<lambda>i. slot_key (entries r) i = Some addr" "length (entries r)"])
    case 1
    then show ?thesis using 1(2) [OF assms(2)] assms(2,3) by (simp add: slot_key_def)
  next
    case (2 j)
    then have "map slot_addr (entries r) ! j = map slot_addr (entries r) ! i" using assms(2,3) by (simp add: slot_key_def)
    then have "j = i" using nth_eq_iff_index_eq [OF d] 2(2) assms(2) by (metis length_map)
    then show ?thesis using 2(1) by simp
  qed
  then show ?thesis using bind_slot_find_ok(4) [OF assms(1) f] f by simp
qed

text \<open>A registered slot is found again with what was registered last, unless the registry was full.\<close>

lemma register_bind_slot_ok:
  assumes ok: "registry_ok r" and nz: "slot_addr info \<noteq> 0"
  shows "\<exists>r'. register_bind_slot info r = Some r' \<and> registry_ok r' \<and>
    (length (entries r) < BIND_SLOT_REGISTRY_MAX \<or> slot_addr info \<in> slot_addr ` set (entries r) \<longrightarrow>
       fst (resolver_lookup_bind_slot (slot_addr info) r') = Some (Some info))"
proof -
  let ?a = "slot_addr info" and ?n = "length (entries r)"
  obtain x r1 where f: "bind_slot_find ?a r = (x, r1)" by (metis surj_pair)
  note k = bind_slot_find_ok [OF ok f]
  have found: "fst (resolver_lookup_bind_slot ?a r') = Some (Some info)"
    if "registry_ok r'" "i < length (entries r')" "entries r' ! i = info" for r' i
  proof -
    obtain y r2 where g: "bind_slot_find ?a r' = (y, r2)" by (metis surj_pair)
    then have "y = Some (int i)" "entries r2 = entries r'"
      using registry_find [OF that(1,2)] bind_slot_find_ok(3) [OF that(1)] that(3) by auto
    then show ?thesis using nz g that(3) by (simp add: resolver_lookup_bind_slot_def)
  qed
  show ?thesis
  proof (cases rule: last_index_cases [of "\<lambda>i. slot_key (entries r) i = Some ?a" ?n])
    case (2 i)
    have i: "i < ?n" "slot_addr (entries r ! i) = ?a" using 2 by (simp_all add: slot_key_def)
    let ?r' = "r1\<lparr>entries := (entries r1)[i := info]\<rparr>"
    have same: "map slot_addr ((entries r)[i := info]) = map slot_addr (entries r)" using i by (simp add: map_update list_update_same_conv)
    have "slot_key ((entries r)[i := info]) = slot_key (entries r)"
      using i by (intro ext) (auto simp: slot_key_def nth_list_update)
    then have "registry_ok ?r'" using k same by (simp add: registry_ok_def)
    moreover have "register_bind_slot info r = Some ?r'" using nz f k(4) 2(1) by (simp add: register_bind_slot_def)
    ultimately show ?thesis using found [of ?r' i] i(1) k(3) by simp
  next
    case 1
    have new: "?a \<notin> slot_addr ` set (entries r)" using 1(2) by (auto simp: slot_key_def in_set_conv_nth) metis
    show ?thesis
    proof (cases "?n < BIND_SLOT_REGISTRY_MAX")
      case False
      then show ?thesis using nz f k 1(1) new by (auto simp: register_bind_slot_def)
    next
      case True
      let ?r' = "r1\<lparr>entries := entries r1 @ [info], hash_next := (hash_next r1)(int ?n := hash_slot r1 (slot_addr_hash ?a)),
          hash_slot := (hash_slot r1)(slot_addr_hash ?a := int ?n)\<rparr>"
      have "chain_ok slot_addr_hash (slot_key (entries r)) ?n (hash_slot r1) (hash_next r1)" using k by (simp add: registry_ok_def)
      then have "chain_ok slot_addr_hash (slot_key (entries r @ [info])) ?n (hash_slot r1) (hash_next r1)"
        by (subst chain_ok_cong) (auto simp: slot_key_def nth_append)
      moreover have "slot_key (entries r @ [info]) ?n = Some ?a" by (simp add: slot_key_def)
      ultimately have c: "chain_ok slot_addr_hash (slot_key (entries r @ [info])) (Suc ?n)
          ((hash_slot r1)(slot_addr_hash ?a := int ?n)) ((hash_next r1)(int ?n := hash_slot r1 (slot_addr_hash ?a)))"
        by (rule chain_ok_enter)
      have d: "distinct (map slot_addr (entries r))" using ok by (simp add: registry_ok_def)
      have "registry_ok ?r'" unfolding registry_ok_def using c d new True k(3) by (simp del: fun_upd_apply)
      moreover have "register_bind_slot info r = Some ?r'"
        using nz f k(3,4) 1(1) True by (simp add: register_bind_slot_def Let_def)
      ultimately show ?thesis using found [of ?r' ?n] k(3) by simp
    qed
  qed
qed

end
