(* ===== verification/Fixups.thy ===== *)
theory Fixups
  imports Macho
begin

text \<open>
  The chained fixups of \<open>resolver.c\<close>: the walk along a chain of pointers, and the loops over the segments
  and pages that start the walks.  The resolution of an import is a parameter: it answers with an address
  and may change state of its own, but not the image.
\<close>

section \<open>The format\<close>

definition FIXUP_PTR_BIND :: "u64 \<Rightarrow> bool" where
  "FIXUP_PTR_BIND raw \<longleftrightarrow> drop_bit 63 raw AND 1 \<noteq> 0"

definition FIXUP_PTR_NEXT :: "u64 \<Rightarrow> u32" where
  "FIXUP_PTR_NEXT raw = ucast (drop_bit 51 raw AND 0xFFF)"

definition FIXUP_BIND_ORDINAL :: "u64 \<Rightarrow> u32" where
  "FIXUP_BIND_ORDINAL raw = ucast (raw AND 0xFFFFFF)"

definition FIXUP_BIND_ADDEND :: "u64 \<Rightarrow> u64" where
  "FIXUP_BIND_ADDEND raw = scast (ucast (drop_bit 24 raw AND 0xFF) :: u8)"

definition FIXUP_REBASE_TARGET :: "u64 \<Rightarrow> u64" where
  "FIXUP_REBASE_TARGET raw = raw AND 0xFFFFFFFFF"

definition FIXUP_REBASE_HIGH8 :: "u64 \<Rightarrow> u64" where
  "FIXUP_REBASE_HIGH8 raw = drop_bit 36 raw AND 0xFF"

abbreviation (input) DYLD_CHAINED_PTR_64 :: u16 where "DYLD_CHAINED_PTR_64 \<equiv> 2"
abbreviation (input) DYLD_CHAINED_PTR_64_OFFSET :: u16 where "DYLD_CHAINED_PTR_64_OFFSET \<equiv> 6"
abbreviation (input) DYLD_CHAINED_PTR_START_NONE :: u16 where "DYLD_CHAINED_PTR_START_NONE \<equiv> 0xFFFF"

definition rd16 :: "memory \<Rightarrow> u64 \<Rightarrow> u16" where
  "rd16 m a = le_val (mem_read 2 m a)"

section \<open>A chain\<close>

record fixup_image =
  mh_addr :: u64
  fix_slide :: u64

type_synonym 'k import_resolver = "u32 \<Rightarrow> u64 \<Rightarrow> u64 \<Rightarrow> 'k \<Rightarrow> u64 \<times> 'k"

definition rebase_value :: "fixup_image \<Rightarrow> u16 \<Rightarrow> u64 \<Rightarrow> u64" where
  "rebase_value rs pointer_format raw =
     (let value = (if pointer_format = DYLD_CHAINED_PTR_64_OFFSET then mh_addr rs + FIXUP_REBASE_TARGET raw
                   else FIXUP_REBASE_TARGET raw + fix_slide rs)
      in value OR push_bit 56 (FIXUP_REBASE_HIGH8 raw))"

text \<open>One turn of the loop: the value stored, and how many rebases it counts.\<close>

definition fix_one :: "'k import_resolver \<Rightarrow> fixup_image \<Rightarrow> u16 \<Rightarrow> u64 \<Rightarrow> u64 \<Rightarrow> 'k \<Rightarrow> u64 \<times> nat \<times> 'k" where
  "fix_one resolve_import rs pointer_format loc raw k =
     (if FIXUP_PTR_BIND raw
      then (case resolve_import (FIXUP_BIND_ORDINAL raw) (FIXUP_BIND_ADDEND raw) loc k of (resolved, k1) \<Rightarrow> (resolved, 0, k1))
      else (rebase_value rs pointer_format raw, 1, k))"

text \<open>The loop runs until a pointer has no successor; not returning is \<open>None\<close>.\<close>

partial_function (option) walk_chain ::
  "'k import_resolver \<Rightarrow> fixup_image \<Rightarrow> u16 \<Rightarrow> u64 \<Rightarrow> memory \<times> nat \<times> 'k \<Rightarrow> (memory \<times> nat \<times> 'k) option" where
  "walk_chain resolve_import rs pointer_format loc w =
     (let raw = rd64 (fst w) loc;
          f = fix_one resolve_import rs pointer_format loc raw (snd (snd w));
          w' = (wr64 (fst w) loc (fst f), fst (snd w) + fst (snd f), snd (snd f))
      in if FIXUP_PTR_NEXT raw = 0 then Some w'
         else walk_chain resolve_import rs pointer_format (loc + ucast (FIXUP_PTR_NEXT raw * 4)) w')"

section \<open>Segments and pages\<close>

definition make_segment_writable ::
  "(u64 \<Rightarrow> u64 \<Rightarrow> u32 \<Rightarrow> 'k \<Rightarrow> int \<times> 'k) \<Rightarrow> u64 \<Rightarrow> u64 \<Rightarrow> u16 \<Rightarrow> u16 \<Rightarrow> 'k \<Rightarrow> 'k" where
  "make_segment_writable mprotect sys_page seg_base page_count page_size k =
     (let start = seg_base AND NOT (sys_page - 1);
          fin = seg_base + ucast page_count * ucast page_size;
          fin = (fin + sys_page - 1) AND NOT (sys_page - 1)
      in snd (mprotect start (fin - start) 3 k))"

record starts_in_segment =
  ss_page_size :: u16
  ss_pointer_format :: u16
  ss_segment_offset :: u64
  ss_page_count :: u16

definition starts_in_segment_at :: "memory \<Rightarrow> u64 \<Rightarrow> starts_in_segment" where
  "starts_in_segment_at m a =
     \<lparr>ss_page_size = rd16 m (a + 4), ss_pointer_format = rd16 m (a + 6), ss_segment_offset = rd64 m (a + 8),
      ss_page_count = rd16 m (a + 20)\<rparr>"

fun walk_pages ::
  "'k import_resolver \<Rightarrow> fixup_image \<Rightarrow> u64 \<Rightarrow> u64 \<Rightarrow> nat list \<Rightarrow> memory \<times> nat \<times> 'k \<Rightarrow> (memory \<times> nat \<times> 'k) option" where
  "walk_pages resolve_import rs seg_starts seg_base [] w = Some w"
| "walk_pages resolve_import rs seg_starts seg_base (page # pages) w =
     (let s = starts_in_segment_at (fst w) seg_starts;
          page_start = rd16 (fst w) (seg_starts + 22 + 2 * of_nat page)
      in if page_start = DYLD_CHAINED_PTR_START_NONE then walk_pages resolve_import rs seg_starts seg_base pages w
         else case walk_chain resolve_import rs (ss_pointer_format s)
             (seg_base + of_nat page * ucast (ss_page_size s) + ucast page_start) w of
           None \<Rightarrow> None
         | Some w1 \<Rightarrow> walk_pages resolve_import rs seg_starts seg_base pages w1)"

text \<open>
  The loop over the segments; the offset of a segment that has no fixups is 0.  The two counts are read when
  their loops start: they stand in \<open>__LINKEDIT\<close>, where no fixup is.
\<close>

fun walk_segments ::
  "'k import_resolver \<Rightarrow> (u64 \<Rightarrow> u64 \<Rightarrow> u32 \<Rightarrow> 'k \<Rightarrow> int \<times> 'k) \<Rightarrow> u64 \<Rightarrow> fixup_image \<Rightarrow> u64 \<Rightarrow> nat list \<Rightarrow>
     memory \<times> nat \<times> 'k \<Rightarrow> (memory \<times> nat \<times> 'k) option" where
  "walk_segments resolve_import mprotect sys_page rs starts [] w = Some w"
| "walk_segments resolve_import mprotect sys_page rs starts (seg # segs) w =
     (let off = rd32 (fst w) (starts + 4 + 4 * of_nat seg);
          seg_starts = starts + ucast off;
          s = starts_in_segment_at (fst w) seg_starts;
          seg_base = mh_addr rs + ss_segment_offset s
      in if off = 0 then walk_segments resolve_import mprotect sys_page rs starts segs w
         else if ss_pointer_format s \<noteq> DYLD_CHAINED_PTR_64 \<and> ss_pointer_format s \<noteq> DYLD_CHAINED_PTR_64_OFFSET
         then walk_segments resolve_import mprotect sys_page rs starts segs w
         else case walk_pages resolve_import rs seg_starts seg_base [0..<unat (ss_page_count s)]
             (fst w, fst (snd w),
              make_segment_writable mprotect sys_page seg_base (ss_page_count s) (ss_page_size s) (snd (snd w))) of
           None \<Rightarrow> None
         | Some w1 \<Rightarrow> walk_segments resolve_import mprotect sys_page rs starts segs w1)"

record seg_info =
  si_vmaddr :: u64
  si_fileoff :: u64
  si_filesize :: u64

text \<open>\<open>__LINKEDIT\<close> first, then the other segments; 0 stands for a null pointer.\<close>

definition linkedit_fileoff_to_mem :: "u64 \<Rightarrow> seg_info \<Rightarrow> seg_info list \<Rightarrow> u32 \<Rightarrow> u64" where
  "linkedit_fileoff_to_mem slide linkedit segments fileoff =
     (case find (\<lambda>si. ucast fileoff \<ge> si_fileoff si \<and> ucast fileoff < si_fileoff si + si_filesize si) (linkedit # segments) of
        None \<Rightarrow> 0
      | Some si \<Rightarrow> si_vmaddr si + slide + (ucast fileoff - si_fileoff si))"

definition process_chained_fixups ::
  "'k import_resolver \<Rightarrow> (u64 \<Rightarrow> u64 \<Rightarrow> u32 \<Rightarrow> 'k \<Rightarrow> int \<times> 'k) \<Rightarrow> u64 \<Rightarrow> fixup_image \<Rightarrow> seg_info \<Rightarrow> seg_info list \<Rightarrow> u32 \<Rightarrow>
     memory \<times> nat \<times> 'k \<Rightarrow> (int \<times> memory \<times> nat \<times> 'k) option" where
  "process_chained_fixups resolve_import mprotect sys_page rs linkedit segments fixups_dataoff w =
     (let chain_data = linkedit_fileoff_to_mem (fix_slide rs) linkedit segments fixups_dataoff
      in if chain_data = 0 then Some (-1, w)
         else let starts = chain_data + ucast (rd32 (fst w) (chain_data + 4))
           in map_option (\<lambda>w1. (0, w1))
             (walk_segments resolve_import mprotect sys_page rs starts [0..<unat (rd32 (fst w) starts)] w))"

section \<open>Walking a chain\<close>

text \<open>The locations of a chain, in order, as the pointers in memory link them.\<close>

fun chain_of :: "memory \<Rightarrow> u64 list \<Rightarrow> bool" where
  "chain_of m [] = False"
| "chain_of m [l] \<longleftrightarrow> FIXUP_PTR_NEXT (rd64 m l) = 0"
| "chain_of m (l # l' # ls) \<longleftrightarrow>
     FIXUP_PTR_NEXT (rd64 m l) \<noteq> 0 \<and> l' = l + ucast (FIXUP_PTR_NEXT (rd64 m l) * 4) \<and> chain_of m (l' # ls)"

definition nodes_apart :: "u64 list \<Rightarrow> bool" where
  "nodes_apart ls \<longleftrightarrow> sorted_wrt (\<lambda>a b. apart a 8 b 8) ls"

text \<open>What a location holds after the walk, by what it held before.\<close>

definition fixed_up :: "'k import_resolver \<Rightarrow> fixup_image \<Rightarrow> u16 \<Rightarrow> memory \<Rightarrow> memory \<Rightarrow> u64 \<Rightarrow> bool" where
  "fixed_up resolve_import rs pf m m' l \<longleftrightarrow>
     (let raw = rd64 m l
      in if FIXUP_PTR_BIND raw
         then \<exists>k. rd64 m' l = fst (resolve_import (FIXUP_BIND_ORDINAL raw) (FIXUP_BIND_ADDEND raw) l k)
         else rd64 m' l = rebase_value rs pf raw)"

lemma chain_of_cong: "chain_of m ls \<Longrightarrow> (\<And>l. l \<in> set ls \<Longrightarrow> rd64 m' l = rd64 m l) \<Longrightarrow> chain_of m' ls"
  by (induction m ls rule: chain_of.induct) auto

lemma rd64_agree: "(\<And>x. in_range a 8 x \<Longrightarrow> m x = m' x) \<Longrightarrow> rd64 m a = rd64 m' a"
  unfolding rd64_def by (rule arg_cong [of _ _ le_val], rule mem_read_cong) (simp add: in_range_def unat_of_nat)

lemma walk_chain_from:
  assumes "chain_of m (l # ls)" and "nodes_apart (l # ls)"
  shows "\<exists>m' k'. walk_chain resolve_import rs pf l (m, n, k) =
      Some (m', n + length (filter (\<lambda>l. \<not> FIXUP_PTR_BIND (rd64 m l)) (l # ls)), k') \<and>
    (\<forall>x \<in> set (l # ls). fixed_up resolve_import rs pf m m' x) \<and>
    (\<forall>x. (\<forall>y \<in> set (l # ls). \<not> in_range y 8 x) \<longrightarrow> m' x = m x)"
  using assms
proof (induction ls arbitrary: l m n k)
  case Nil
  obtain v c k1 where f: "fix_one resolve_import rs pf l (rd64 m l) k = (v, c, k1)" by (metis surj_pair)
  have fx: "c = length (filter (\<lambda>l. \<not> FIXUP_PTR_BIND (rd64 m l)) [l])" "fixed_up resolve_import rs pf m (wr64 m l v) l"
    using f by (auto simp: fix_one_def fixed_up_def Let_def split: if_splits prod.splits) (metis fst_conv)+
  have "wr64 m l v x = m x" if "\<not> in_range l 8 x" for x using that by (simp add: wr64_def mem_write_outside)
  then show ?case using Nil.prems fx f by (intro exI [of _ "wr64 m l v"] exI [of _ k1]) (simp add: walk_chain.simps)
next
  case (Cons l2 ls)
  obtain v c k1 where f: "fix_one resolve_import rs pf l (rd64 m l) k = (v, c, k1)" by (metis surj_pair)
  have fx: "c = length (filter (\<lambda>l. \<not> FIXUP_PTR_BIND (rd64 m l)) [l])" "fixed_up resolve_import rs pf m (wr64 m l v) l"
    using f by (auto simp: fix_one_def fixed_up_def Let_def split: if_splits prod.splits) (metis fst_conv)+
  let ?m1 = "wr64 m l v"
  have ap: "y \<in> set (l2 # ls) \<Longrightarrow> apart l 8 y 8" for y using Cons.prems(2) by (auto simp: nodes_apart_def)
  have same: "rd64 ?m1 y = rd64 m y" if "y \<in> set (l2 # ls)" for y
    using rd64_wr64_apart [OF apart_sym [OF ap [OF that]]] by simp
  have nx: "FIXUP_PTR_NEXT (rd64 m l) \<noteq> 0" "l + ucast (FIXUP_PTR_NEXT (rd64 m l) * 4) = l2" and rest: "chain_of m (l2 # ls)"
    using Cons.prems(1) unfolding chain_of.simps by (elim conjE, simp only:)+
  have ch: "chain_of ?m1 (l2 # ls)" using rest same by (rule chain_of_cong)
  have ap': "nodes_apart (l2 # ls)" using Cons.prems(2) by (simp add: nodes_apart_def)
  have filt: "filter (\<lambda>l. \<not> FIXUP_PTR_BIND (rd64 ?m1 l)) (l2 # ls) = filter (\<lambda>l. \<not> FIXUP_PTR_BIND (rd64 m l)) (l2 # ls)"
    using same by (intro filter_cong refl) simp
  obtain m' k' where w: "walk_chain resolve_import rs pf l2 (?m1, n + c, k1) =
        Some (m', n + c + length (filter (\<lambda>l. \<not> FIXUP_PTR_BIND (rd64 m l)) (l2 # ls)), k')"
      "\<forall>x \<in> set (l2 # ls). fixed_up resolve_import rs pf ?m1 m' x"
      "\<forall>x. (\<forall>y \<in> set (l2 # ls). \<not> in_range y 8 x) \<longrightarrow> m' x = ?m1 x"
    using Cons.IH [OF ch ap', of "n + c" k1] unfolding filt by blast
  have "walk_chain resolve_import rs pf l (m, n, k) = walk_chain resolve_import rs pf l2 (?m1, n + c, k1)"
    using nx f by (subst walk_chain.simps) (simp add: Let_def)
  moreover have "fixed_up resolve_import rs pf m m' l"
  proof -
    have "rd64 m' l = rd64 ?m1 l"
    proof (rule rd64_agree)
      fix x assume "in_range l 8 x"
      then have "\<forall>y \<in> set (l2 # ls). \<not> in_range y 8 x" using ap apart_not_in_range by blast
      then show "m' x = ?m1 x" using w(3) by blast
    qed
    then show ?thesis using fx(2) by (simp only: fixed_up_def)
  qed
  moreover have "fixed_up resolve_import rs pf m m' y" if "y \<in> set (l2 # ls)" for y
    using bspec [OF w(2) that] same [OF that] by (simp only: fixed_up_def)
  moreover have "m' x = m x" if "\<forall>y \<in> set (l # l2 # ls). \<not> in_range y 8 x" for x
    using w(3) that by (simp add: wr64_def mem_write_outside)
  ultimately show ?case using w(1) fx(1) by (intro exI [of _ m'] exI [of _ k']) auto
qed

text \<open>
  C40.  The walk along a chain of fixups that ends returns: every location of the chain then holds the
  address of its import or its target moved by the slide, no other byte of the image is changed, and the
  rebases are counted.
\<close>

theorem walk_chain_returns:
  assumes "chain_of m (l # ls)" and "nodes_apart (l # ls)"
  shows "\<exists>m' k'. walk_chain resolve_import rs pf l (m, n, k) =
      Some (m', n + length (filter (\<lambda>l. \<not> FIXUP_PTR_BIND (rd64 m l)) (l # ls)), k') \<and>
    (\<forall>x \<in> set (l # ls). fixed_up resolve_import rs pf m m' x) \<and>
    (\<forall>x. (\<forall>y \<in> set (l # ls). \<not> in_range y 8 x) \<longrightarrow> m' x = m x)"
  using assms by (rule walk_chain_from)

text \<open>A rebase of the target \<open>0x123\<close> whose successor, eight bytes on, is a bind of the import 5.\<close>

definition fixup_example :: memory where
  "fixup_example = wr64 (wr64 (\<lambda>_. 0) 0x1000 0x0010000000000123) 0x1008 0x8000000000000005"

theorem walk_chain_returns_witness:
  "\<exists>m' k'. walk_chain (\<lambda>ordinal addend loc k. (0x7000, k)) \<lparr>mh_addr = 0x10000, fix_slide = 0\<rparr> 6 0x1000 (fixup_example, 0, ())
     = Some (m', 1, k') \<and> rd64 m' 0x1000 = 0x10123 \<and> rd64 m' 0x1008 = 0x7000"
proof -
  have r: "rd64 fixup_example 0x1008 = 0x8000000000000005" "rd64 fixup_example 0x1000 = 0x0010000000000123"
    unfolding fixup_example_def by (simp, subst rd64_wr64_apart) (simp_all add: apart_def)
  have c: "chain_of fixup_example [0x1000, 0x1008]" by (simp add: r FIXUP_PTR_NEXT_def)
  have a: "nodes_apart [0x1000, 0x1008]" by (simp add: nodes_apart_def apart_def)
  have b: "\<not> FIXUP_PTR_BIND 0x0010000000000123" "FIXUP_PTR_BIND 0x8000000000000005" by (simp_all add: FIXUP_PTR_BIND_def)
  have v: "rebase_value \<lparr>mh_addr = 0x10000, fix_slide = 0\<rparr> 6 0x0010000000000123 = 0x10123"
    by (simp add: rebase_value_def FIXUP_REBASE_TARGET_def FIXUP_REBASE_HIGH8_def)
  show ?thesis
    using walk_chain_returns [OF c a, of "\<lambda>ordinal addend loc k. (0x7000, k)" "\<lparr>mh_addr = 0x10000, fix_slide = 0\<rparr>" 6 0 "()"]
    by (auto simp: r b v fixed_up_def)
qed

end
